(* ===== verification/Prelude.thy ===== *)
theory Prelude
  imports Main "HOL-Library.Word" "HOL-Library.Multiset" "HOL-Library.Sublist"
begin

text \<open>
  Shared vocabulary of the development: Go's error values and fallible results, the
  fixed-width integers the recorder uses, the collections of rewrite rules the component
  theories draw on, and generic lemmas on lists and maps.
\<close>

section \<open>Fact collections\<close>

named_theorems go_defs \<open>definitions of the small Go primitives, unfolded by every component proof\<close>
named_theorems go_frame \<open>which parts of the state an operation leaves alone\<close>

section \<open>Errors and results\<close>

text \<open>
  A Go function that returns \<open>(T, error)\<close> is a function into \<open>'a res\<close>: \<open>Inl e\<close> for a
  non-nil error, \<open>Inr v\<close> otherwise. Sentinel errors are told apart by their message;
  \<open>StatusErr\<close> carries the numeric code of a gRPC status or of Consul's \<open>api.StatusError\<close>.
\<close>

datatype go_error =
    Errorf string
  | EOF
  | NotExist string
  | StatusErr nat string

type_synonym 'a res = "go_error + 'a"

text \<open>A panic is kept apart from an error return: the goroutine dies instead of returning.\<close>

datatype 'a outcome = Panics string | Returns 'a

fun is_ok :: "'a res \<Rightarrow> bool" where
  "is_ok (Inl _) = False"
| "is_ok (Inr _) = True"

fun and_then :: "'a res \<Rightarrow> ('a \<Rightarrow> 'b res) \<Rightarrow> 'b res" where
  "and_then (Inl e) _ = Inl e"
| "and_then (Inr x) f = f x"

text \<open>\<open>if err != nil { return err }\<close> for a call whose only result is an error.\<close>

definition err_res :: "go_error option \<Rightarrow> 'a \<Rightarrow> 'a res" where
  "err_res e v = (case e of None \<Rightarrow> Inr v | Some x \<Rightarrow> Inl x)"

lemma err_res_simps [simp]:
  "err_res None v = Inr v"
  "err_res (Some x) v = Inl x"
  by (simp_all add: err_res_def)

lemma and_then_Inr [simp]:
  "and_then r f = Inr y \<longleftrightarrow> (\<exists>x. r = Inr x \<and> f x = Inr y)"
  by (cases r) auto

lemma and_then_Inl:
  "and_then r f = Inl e \<longleftrightarrow> r = Inl e \<or> (\<exists>x. r = Inr x \<and> f x = Inl e)"
  by (cases r) auto

lemma is_ok_iff: "is_ok r \<longleftrightarrow> (\<exists>v. r = Inr v)"
  by (cases r) auto

section \<open>Machine integers\<close>

type_synonym u8 = "8 word"
type_synonym u16 = "16 word"
type_synonym u32 = "32 word"
type_synonym bytes = "u8 list"

text \<open>
  Go's \<open>int\<close> and \<open>int64\<close> are 64-bit two's complement. They are integers of HOL here, and
  \<open>i64\<close> is the wrap-around, written out where arithmetic can leave the range.
\<close>

definition i64 :: "int \<Rightarrow> int" where
  "i64 x = signed_take_bit 63 x"

definition MaxInt64 :: int where "MaxInt64 = 9223372036854775807"

definition in_i64 :: "int \<Rightarrow> bool" where
  "in_i64 x \<longleftrightarrow> - 9223372036854775808 \<le> x \<and> x \<le> 9223372036854775807"

lemma i64_id [simp]: "in_i64 x \<Longrightarrow> i64 x = x"
  by (simp add: in_i64_def i64_def signed_take_bit_int_eq_self_iff)

lemma i64_range: "in_i64 (i64 x)"
proof -
  have "- (2 ^ 63) \<le> signed_take_bit 63 x" by (rule signed_take_bit_int_greater_eq_minus_exp)
  moreover have "signed_take_bit 63 x < 2 ^ 63" by (rule signed_take_bit_int_less_exp)
  ultimately show ?thesis by (simp add: in_i64_def i64_def)
qed

text \<open>Integer division truncates towards zero.\<close>

definition go_quot :: "int \<Rightarrow> int \<Rightarrow> int" where
  "go_quot a b = sgn a * sgn b * (\<bar>a\<bar> div \<bar>b\<bar>)"

lemma go_quot_nonneg: "0 \<le> a \<Longrightarrow> 0 < b \<Longrightarrow> go_quot a b = a div b"
  by (cases "a = 0") (simp_all add: go_quot_def)

section \<open>Lists and maps\<close>

lemma mset_remove_nth:
  "i < length xs \<Longrightarrow> mset (take i xs @ drop (Suc i) xs) + {#xs ! i#} = mset xs"
  by (metis add_mset_add_single id_take_nth_drop mset.simps(2) mset_append
      union_mset_add_mset_right)

lemma distinct_take_drop_Suc:
  "distinct xs \<Longrightarrow> distinct (take i xs @ drop (Suc i) xs)"
proof -
  assume d: "distinct xs"
  have "set (take i xs) \<inter> set (drop (Suc i) xs) = {}"
    using d by (intro set_take_disj_set_drop_if_distinct) simp_all
  with d show ?thesis by simp
qed

lemma count_list_filter: "count_list xs x = length (filter (\<lambda>y. y = x) xs)"
  by (induction xs) auto

lemma map_update_twice [simp]: "m(k \<mapsto> v, k \<mapsto> w) = m(k \<mapsto> w)"
  by simp

lemma set_dropWhile_subset: "set (dropWhile P xs) \<subseteq> set xs"
  by (auto dest: set_dropWhileD)

end
