(* ===== verification/Go_Strings.thy ===== *)
theory Go_Strings
  imports Prelude
begin

text \<open>
  The functions of Go's \<open>strings\<close> and \<open>strconv\<close> packages that the recorder calls. A Go
  string is a byte string and so is HOL's \<open>string\<close>. The case and white-space functions are
  those of the ASCII range: Go additionally consults the Unicode tables for bytes above 127,
  which no identifier handled here contains.
\<close>

section \<open>Prefixes, searching, splitting and joining\<close>

fun HasPrefix :: "string \<Rightarrow> string \<Rightarrow> bool" where
  "HasPrefix _ [] = True"
| "HasPrefix [] (_ # _) = False"
| "HasPrefix (c # s) (d # p) = (c = d \<and> HasPrefix s p)"

fun HasSuffix :: "string \<Rightarrow> string \<Rightarrow> bool" where
  "HasSuffix s p = HasPrefix (rev s) (rev p)"

definition TrimSuffix :: "string \<Rightarrow> string \<Rightarrow> string" where
  "TrimSuffix s p = (if HasSuffix s p then take (length s - length p) s else s)"

text \<open>\<open>strings.Index\<close>; \<open>None\<close> is Go's \<open>-1\<close>.\<close>

fun str_Index :: "string \<Rightarrow> string \<Rightarrow> nat option" where
  "str_Index [] p = (if p = [] then Some 0 else None)"
| "str_Index (c # s) p =
     (if HasPrefix (c # s) p then Some 0 else map_option Suc (str_Index s p))"

definition Contains :: "string \<Rightarrow> string \<Rightarrow> bool" where
  "Contains s p \<longleftrightarrow> str_Index s p \<noteq> None"

text \<open>\<open>strings.Split\<close> with a separator of one character.\<close>

fun Split :: "string \<Rightarrow> char \<Rightarrow> string list" where
  "Split [] _ = [[]]"
| "Split (c # s) sep =
     (if c = sep then [] # Split s sep
      else (case Split s sep of [] \<Rightarrow> [[c]] | p # ps \<Rightarrow> (c # p) # ps))"

fun Join :: "string list \<Rightarrow> string \<Rightarrow> string" where
  "Join [] _ = []"
| "Join [p] _ = p"
| "Join (p # q # ps) sep = p @ sep @ Join (q # ps) sep"

definition TrimLeft :: "string \<Rightarrow> char \<Rightarrow> string" where
  "TrimLeft s c = dropWhile (\<lambda>d. d = c) s"

definition TrimRight :: "string \<Rightarrow> char \<Rightarrow> string" where
  "TrimRight s c = rev (dropWhile (\<lambda>d. d = c) (rev s))"

definition is_space :: "char \<Rightarrow> bool" where
  "is_space c \<longleftrightarrow> of_char c \<in> {9, 10, 11, 12, 13, 32 :: nat}"

definition TrimSpace :: "string \<Rightarrow> string" where
  "TrimSpace s = rev (dropWhile is_space (rev (dropWhile is_space s)))"

definition lower :: "char \<Rightarrow> char" where
  "lower c = (if 65 \<le> (of_char c :: nat) \<and> (of_char c :: nat) \<le> 90
              then char_of ((of_char c :: nat) + 32) else c)"

definition ToLower :: "string \<Rightarrow> string" where
  "ToLower s = List.map lower s"

definition EqualFold :: "string \<Rightarrow> string \<Rightarrow> bool" where
  "EqualFold s t \<longleftrightarrow> ToLower s = ToLower t"

lemma HasPrefix_iff: "HasPrefix s p \<longleftrightarrow> (\<exists>t. s = p @ t)"
  by (induction s p rule: HasPrefix.induct) auto

lemma HasPrefix_append [simp]: "HasPrefix (p @ t) p"
  by (auto simp: HasPrefix_iff)

lemma HasSuffix_iff: "HasSuffix s p \<longleftrightarrow> (\<exists>t. s = t @ p)"
proof
  assume "HasSuffix s p"
  then obtain t where "rev s = rev p @ t" by (auto simp: HasPrefix_iff)
  then have "s = rev t @ p" by (metis rev_append rev_rev_ident)
  then show "\<exists>t. s = t @ p" ..
qed (auto simp: HasPrefix_iff)

lemma TrimSuffix_append [simp]: "TrimSuffix (s @ p) p = s"
  by (auto simp: TrimSuffix_def HasPrefix_iff)

lemma str_Index_Some: "str_Index s p = Some i \<Longrightarrow> \<exists>a b. s = a @ p @ b \<and> length a = i"
proof (induction s p arbitrary: i rule: str_Index.induct)
  case (1 p)
  then show ?case by (auto split: if_splits)
next
  case (2 c s p)
  show ?case
  proof (cases "HasPrefix (c # s) p")
    case True
    with "2.prems" have "i = 0" by simp
    moreover from True obtain b where "c # s = p @ b" by (auto simp: HasPrefix_iff)
    ultimately show ?thesis by (intro exI [of _ "[]"] exI [of _ b]) simp
  next
    case False
    with "2.prems" obtain j where j: "str_Index s p = Some j" and i: "i = Suc j" by auto
    from "2.IH" [OF False j] obtain a b where "s = a @ p @ b" "length a = j" by blast
    with i show ?thesis by (intro exI [of _ "c # a"] exI [of _ b]) auto
  qed
qed

lemma str_Index_present: "str_Index (a @ p @ b) p \<noteq> None"
proof (induction a)
  case Nil
  have "HasPrefix (p @ b) p" by simp
  then show ?case by (cases "p @ b") (auto simp del: HasPrefix_append)
next
  case (Cons c a)
  then show ?case by auto
qed

lemma Contains_iff: "Contains s p \<longleftrightarrow> (\<exists>a b. s = a @ p @ b)"
  unfolding Contains_def using str_Index_Some str_Index_present by blast

lemma Split_not_Nil [simp]: "Split s c \<noteq> []"
  by (induction s) (auto split: list.splits)

lemma Split_no_sep: "c \<notin> set s \<Longrightarrow> Split s c = [s]"
  by (induction s) auto

lemma Split_append: "c \<notin> set s \<Longrightarrow> Split (s @ c # t) c = s # Split t c"
  by (induction s) auto

lemma Split_pieces: "p \<in> set (Split s c) \<Longrightarrow> c \<notin> set p"
  by (induction s arbitrary: p) (auto split: list.splits if_splits)

lemma Join_Split: "Join (Split s c) [c] = s"
proof (induction s)
  case (Cons d s)
  obtain p ps where sp: "Split s c = p # ps" by (cases "Split s c") auto
  with Cons.IH show ?case by (cases ps) (auto split: list.splits)
qed simp

lemma ToLower_idem [simp]: "ToLower (ToLower s) = ToLower s"
proof -
  have "lower (lower c) = lower c" for c
    by (auto simp: lower_def of_char_of)
  then show ?thesis by (simp add: ToLower_def)
qed

section \<open>Decimal numbers\<close>

definition digit :: "nat \<Rightarrow> char" where
  "digit d = char_of (48 + d)"

definition is_digit :: "char \<Rightarrow> bool" where
  "is_digit c \<longleftrightarrow> 48 \<le> (of_char c :: nat) \<and> (of_char c :: nat) \<le> 57"

definition digit_val :: "char \<Rightarrow> nat" where
  "digit_val c = of_char c - 48"

fun nat_dec :: "nat \<Rightarrow> string" where
  "nat_dec n = (if n < 10 then [digit n] else nat_dec (n div 10) @ [digit (n mod 10)])"

declare nat_dec.simps [simp del]

text \<open>\<open>strconv.Itoa\<close> and the verb \<open>%d\<close>.\<close>

definition int_dec :: "int \<Rightarrow> string" where
  "int_dec i = (if i < 0 then CHR ''-'' # nat_dec (nat (- i)) else nat_dec (nat i))"

fun dec_acc :: "nat \<Rightarrow> string \<Rightarrow> nat" where
  "dec_acc n [] = n"
| "dec_acc n (c # s) = dec_acc (10 * n + digit_val c) s"

definition dec_val :: "string \<Rightarrow> nat" where
  "dec_val s = dec_acc 0 s"

text \<open>
  \<open>strconv.Atoi\<close>: an optional sign and at least one decimal digit, nothing else, within the
  range of \<open>int\<close>; every other input is an error.
\<close>

definition Atoi_digits :: "string \<Rightarrow> nat option" where
  "Atoi_digits s = (if s \<noteq> [] \<and> list_all is_digit s then Some (dec_val s) else None)"

definition Atoi :: "string \<Rightarrow> int res" where
  "Atoi s =
     (let bad = Inl (Errorf (''strconv.Atoi: parsing '' @ s));
          signed = (s \<noteq> [] \<and> (hd s = CHR ''-'' \<or> hd s = CHR ''+''));
          neg = (s \<noteq> [] \<and> hd s = CHR ''-'')
      in (case Atoi_digits (if signed then tl s else s) of
            None \<Rightarrow> bad
          | Some n \<Rightarrow>
              (let v = (if neg then - int n else int n)
               in if in_i64 v then Inr v else bad)))"

lemma digit_props [simp]:
  "d < 10 \<Longrightarrow> is_digit (digit d)"
  "d < 10 \<Longrightarrow> digit_val (digit d) = d"
  by (simp_all add: digit_def is_digit_def digit_val_def of_char_of)

lemma nat_dec_not_Nil [simp]: "nat_dec n \<noteq> []"
  by (subst nat_dec.simps) simp

lemma nat_dec_digits: "list_all is_digit (nat_dec n)"
  by (induction n rule: nat_dec.induct) (subst nat_dec.simps, simp)

lemma dec_acc_append: "dec_acc n (s @ t) = dec_acc (dec_acc n s) t"
  by (induction s arbitrary: n) auto

lemma dec_val_nat_dec [simp]: "dec_val (nat_dec n) = n"
proof (induction n rule: nat_dec.induct)
  case (1 n)
  then show ?case
    by (subst nat_dec.simps) (auto simp: dec_val_def dec_acc_append)
qed

lemma nat_dec_inj: "nat_dec m = nat_dec n \<Longrightarrow> m = n"
  by (metis dec_val_nat_dec)

lemma is_digit_not_sign: "is_digit c \<Longrightarrow> c \<noteq> CHR ''-'' \<and> c \<noteq> CHR ''+''"
  by (auto simp: is_digit_def)

lemma nat_dec_hd: "is_digit (hd (nat_dec n))"
  using nat_dec_digits [of n] by (cases "nat_dec n") auto

lemma Atoi_nat_dec: "int n \<le> MaxInt64 \<Longrightarrow> Atoi (nat_dec n) = Inr (int n)"
  using nat_dec_hd [of n] nat_dec_digits [of n] is_digit_not_sign [of "hd (nat_dec n)"]
  by (simp add: Atoi_def Atoi_digits_def in_i64_def MaxInt64_def)

lemma Atoi_int_dec: "in_i64 i \<Longrightarrow> Atoi (int_dec i) = Inr i"
proof (cases "i < 0")
  case True
  assume r: "in_i64 i"
  with True have "int (nat (- i)) = - i" by simp
  with True r show ?thesis
    using nat_dec_digits [of "nat (- i)"]
    by (simp add: int_dec_def Atoi_def Atoi_digits_def)
next
  case False
  assume r: "in_i64 i"
  with False show ?thesis
    using Atoi_nat_dec [of "nat i"] by (simp add: int_dec_def in_i64_def MaxInt64_def)
qed

lemma digit_val_less: "is_digit c \<Longrightarrow> digit_val c < 10"
  by (auto simp: is_digit_def digit_val_def)

lemma dec_acc_bound: "list_all is_digit s \<Longrightarrow> dec_acc n s < (n + 1) * 10 ^ length s"
proof (induction s arbitrary: n)
  case (Cons c s)
  then have "dec_acc (10 * n + digit_val c) s < (10 * n + digit_val c + 1) * 10 ^ length s"
    by simp
  also have "\<dots> \<le> (10 * (n + 1)) * 10 ^ length s"
    using digit_val_less [of c] Cons.prems by (intro mult_right_mono) auto
  finally show ?case by (simp add: algebra_simps)
qed simp

lemma dec_val_bound: "list_all is_digit s \<Longrightarrow> dec_val s < 10 ^ length s"
  using dec_acc_bound [of s 0] by (simp add: dec_val_def)

section \<open>Lexical path functions\<close>

text \<open>
  \<open>path.Clean\<close>, by components: empty ones and \<open>.\<close> are dropped, \<open>..\<close> removes the component
  before it, is dropped at the root and kept at the start of a relative path. The stack of
  kept components is reversed.
\<close>

fun clean_parts :: "bool \<Rightarrow> string list \<Rightarrow> string list \<Rightarrow> string list" where
  "clean_parts _ acc [] = rev acc"
| "clean_parts rooted acc (p # ps) =
     (if p = [] \<or> p = ''.'' then clean_parts rooted acc ps
      else if p = ''..'' then
        (case acc of
           [] \<Rightarrow> (if rooted then clean_parts rooted [] ps else clean_parts rooted [''..''] ps)
         | a # as \<Rightarrow>
             (if a = ''..'' then clean_parts rooted (''..'' # acc) ps
              else clean_parts rooted as ps))
      else clean_parts rooted (p # acc) ps)"

definition path_Clean :: "string \<Rightarrow> string" where
  "path_Clean p =
     (let rooted = HasPrefix p ''/'';
          parts = clean_parts rooted [] (Split p (CHR ''/''))
      in if rooted then CHR ''/'' # Join parts ''/''
         else if parts = [] then ''.'' else Join parts ''/'')"

text \<open>\<open>path.Join\<close>: the non-empty elements, joined and cleaned.\<close>

definition path_Join :: "string list \<Rightarrow> string" where
  "path_Join es =
     (let ne = filter (\<lambda>e. e \<noteq> []) es
      in if ne = [] then [] else path_Clean (Join ne ''/''))"

lemma clean_parts_nonempty:
  "[] \<notin> set acc \<Longrightarrow> [] \<notin> set (clean_parts r acc ps)"
  by (induction r acc ps rule: clean_parts.induct) (auto split: list.splits if_splits)

lemma Join_not_Nil: "ps \<noteq> [] \<Longrightarrow> [] \<notin> set ps \<Longrightarrow> Join ps sep \<noteq> []"
  by (cases ps; cases "tl ps") auto

lemma path_Clean_not_Nil [simp]: "path_Clean p \<noteq> []"
  using clean_parts_nonempty [of "[]"] by (auto simp: path_Clean_def Let_def dest: Join_not_Nil)

lemma path_Join_not_Nil: "e \<in> set es \<Longrightarrow> e \<noteq> [] \<Longrightarrow> path_Join es \<noteq> []"
  by (auto simp: path_Join_def Let_def filter_empty_conv)

text \<open>A clean component: what \<open>path.Clean\<close> keeps as it is.\<close>

definition plain_name :: "string \<Rightarrow> bool" where
  "plain_name p \<longleftrightarrow> p \<noteq> [] \<and> p \<noteq> ''.'' \<and> p \<noteq> ''..'' \<and> CHR ''/'' \<notin> set p"

lemma clean_parts_plain:
  "list_all plain_name ps \<Longrightarrow> clean_parts r acc ps = rev acc @ ps"
  by (induction ps arbitrary: acc) (auto simp: plain_name_def)

lemma Split_Join_plain:
  "list_all plain_name ps \<Longrightarrow> ps \<noteq> [] \<Longrightarrow> Split (Join ps ''/'') (CHR ''/'') = ps"
proof (induction ps)
  case (Cons p ps)
  then show ?case
    by (cases ps) (auto simp: plain_name_def Split_append Split_no_sep)
qed simp

text \<open>An absolute clean directory, as \<open>filepath.Abs\<close> returns it, given by its components.\<close>

definition abs_dir :: "string list \<Rightarrow> string" where
  "abs_dir ps = CHR ''/'' # Join ps ''/''"

lemma Join_snoc: "ps \<noteq> [] \<Longrightarrow> Join (ps @ [q]) sep = Join ps sep @ sep @ q"
proof (induction ps)
  case (Cons p ps)
  then show ?case by (cases ps) auto
qed simp

lemma path_Join_abs:
  assumes ps: "list_all plain_name ps" and n: "plain_name n"
  shows "path_Join [abs_dir ps, n] = abs_dir (ps @ [n])"
proof -
  have ne: "n \<noteq> []" using n by (simp add: plain_name_def)
  have split: "Split (abs_dir ps @ ''/'' @ n) (CHR ''/'') = [] # (if ps = [] then [[]] else ps) @ [n]"
  proof (cases "ps = []")
    case True
    then show ?thesis using n by (simp add: abs_dir_def Split_no_sep plain_name_def)
  next
    case False
    then have "Split (Join ps ''/'' @ ''/'' @ n) (CHR ''/'') = ps @ [n]"
      using Split_Join_plain [of "ps @ [n]"] ps n by (simp add: Join_snoc)
    with False show ?thesis by (simp add: abs_dir_def)
  qed
  have "clean_parts True [] ([] # (if ps = [] then [[]] else ps) @ [n]) = ps @ [n]"
    using clean_parts_plain [of "ps @ [n]" True "[]"] ps n by auto
  with split show ?thesis
    by (simp add: path_Join_def path_Clean_def abs_dir_def ne)
qed

lemma Join_inj_last:
  assumes "Join (ps @ [m]) ''/'' = Join (ps @ [n]) ''/''"
  shows "m = n"
  using assms by (cases "ps = []") (auto simp: Join_snoc)

end
