(* ===== verification/Webrtc_Api.thy ===== *)
theory Webrtc_Api
  imports Settings Go_Strings
begin

text \<open>
  \<^verbatim>\<open>infra/webrtc/pion.go\<close> and the part of \<^verbatim>\<open>cmd/resources.go\<close> that prepares its settings: the UDP
  port range and the codecs the recorder offers. The media engine, the setting engine and the
  interceptors of \<open>pion\<close> are outside the repository; their answers are the record \<open>pion\<close>.
\<close>

section \<open>The port range\<close>

record PortRange =
  pr_Min :: u16
  pr_Max :: u16

definition MaxInt16 :: int where "MaxInt16 = 32767"

definition validUint16 :: "int \<Rightarrow> bool" where
  "validUint16 i \<longleftrightarrow> 0 \<le> i \<and> i \<le> MaxInt16"

definition setPortRange :: "string \<Rightarrow> u16 res" where
  "setPortRange src =
     and_then (Atoi src) (\<lambda>p.
       if \<not> validUint16 p then Inl (Errorf ''invalid EphemeralUDPPortRange format'')
       else Inr (word_of_int p))"

definition portRangeFromString :: "string \<Rightarrow> PortRange res" where
  "portRangeFromString str =
     (let l = Split str (CHR ''-'')
      in if length l \<noteq> 2 then Inl (Errorf ''invalid port range format'')
         else and_then (setPortRange (l ! 0)) (\<lambda>mn.
              and_then (setPortRange (l ! 1)) (\<lambda>mx. Inr \<lparr>pr_Min = mn, pr_Max = mx\<rparr>)))"

definition port_text :: "nat \<Rightarrow> nat \<Rightarrow> string" where
  "port_text a b = nat_dec a @ ''-'' @ nat_dec b"

lemma no_dash: "CHR ''-'' \<notin> set (nat_dec n)"
  using nat_dec_digits [of n] by (auto simp: list_all_iff dest: is_digit_not_sign)

lemma Split_port_text: "Split (port_text a b) (CHR ''-'') = [nat_dec a, nat_dec b]"
  by (simp add: port_text_def Split_append Split_no_sep no_dash)

lemma setPortRange_nat_dec:
  "int n \<le> MaxInt64 \<Longrightarrow> setPortRange (nat_dec n) =
     (if n \<le> 32767 then Inr (of_nat n) else Inl (Errorf ''invalid EphemeralUDPPortRange format''))"
  by (simp add: setPortRange_def Atoi_nat_dec validUint16_def MaxInt16_def)

text \<open>
  A range of two decimal ports is accepted exactly when both are at most 32767, and then it is
  the range that was written: the upper half of the UDP ports is refused as invalid.
\<close>

theorem port_range_limit:
  assumes "int a \<le> MaxInt64" and "int b \<le> MaxInt64"
  shows "portRangeFromString (port_text a b) =
    (if a \<le> 32767 \<and> b \<le> 32767 then Inr \<lparr>pr_Min = of_nat a, pr_Max = of_nat b\<rparr>
     else Inl (Errorf ''invalid EphemeralUDPPortRange format''))"
  by (simp add: portRangeFromString_def Split_port_text setPortRange_nat_dec [OF assms(1)]
      setPortRange_nat_dec [OF assms(2)] Let_def)

theorem port_range_limit_witness:
  "portRangeFromString (port_text 10000 20000) = Inr \<lparr>pr_Min = 10000, pr_Max = 20000\<rparr> \<and>
   portRangeFromString (port_text 40000 60000) = Inl (Errorf ''invalid EphemeralUDPPortRange format'')"
  using port_range_limit [of 10000 20000] port_range_limit [of 40000 60000] by (simp add: MaxInt64_def)

lemma default_range:
  "portRangeFromString ''10000-20000'' = Inr \<lparr>pr_Min = 10000, pr_Max = 20000\<rparr>"
  by (simp add: portRangeFromString_def setPortRange_def Atoi_def Atoi_digits_def is_digit_def dec_val_def
      digit_val_def in_i64_def validUint16_def MaxInt16_def)

section \<open>Codecs\<close>

datatype RTPCodecType = RTPCodecTypeAudio | RTPCodecTypeVideo

record codec =
  cd_MimeType :: string
  cd_ClockRate :: u32
  cd_PayloadType :: u8

text \<open>
  \<open>px_engine\<close> is the fresh media engine. \<open>RegisterCodec\<close> and \<open>RegisterDefaultInterceptors\<close>
  change the engine or fail.
\<close>

record 'e pion =
  px_engine :: 'e
  px_SetPortRange :: "u16 \<Rightarrow> u16 \<Rightarrow> go_error option"
  px_RegisterCodec :: "codec \<Rightarrow> RTPCodecType \<Rightarrow> 'e \<Rightarrow> 'e res"
  px_pli :: "go_error option"
  px_interceptors :: "'e \<Rightarrow> 'e res"

definition codec_class :: "string \<Rightarrow> (RTPCodecType \<times> u32) option" where
  "codec_class v =
     (if HasPrefix v ''audio'' then Some (RTPCodecTypeAudio, 48000)
      else if HasPrefix v ''video'' then Some (RTPCodecTypeVideo, 90000)
      else None)"

text \<open>
  The name up to \<open>@\<close>, and the clock rate after it. \<open>Atoi\<close>'s error is dropped; the number it
  leaves in that case, 0 or a bound of \<open>int64\<close>, is out of the accepted range.
\<close>

definition codec_rate :: "string \<Rightarrow> u32 \<Rightarrow> string \<times> u32" where
  "codec_rate v clRate =
     (case str_Index v ''@'' of
        None \<Rightarrow> (v, clRate)
      | Some idx \<Rightarrow>
          (let tmp = (case Atoi (drop (idx + 1) v) of Inr n \<Rightarrow> n | Inl _ \<Rightarrow> 0)
           in (take idx v, if 0 < tmp \<and> tmp \<le> 4294967295 then word_of_int tmp else clRate)))"

definition codec_of :: "string \<Rightarrow> u8 \<Rightarrow> (codec \<times> RTPCodecType) option" where
  "codec_of v payloadType =
     map_option (\<lambda>(typeCodec, clRate).
       case codec_rate v clRate of (mime, rate) \<Rightarrow>
         (\<lparr>cd_MimeType = mime, cd_ClockRate = rate, cd_PayloadType = payloadType\<rparr>, typeCodec))
       (codec_class v)"

fun register_codecs :: "(codec \<Rightarrow> RTPCodecType \<Rightarrow> 'e \<Rightarrow> 'e res) \<Rightarrow> string list \<Rightarrow> u8 \<Rightarrow> 'e \<Rightarrow> 'e outcome" where
  "register_codecs register [] payloadType e = Returns e"
| "register_codecs register (v # vs) payloadType e =
     (case codec_of v payloadType of
        None \<Rightarrow> Panics ''unsupported codec''
      | Some (c, t) \<Rightarrow>
          (case register c t e of
             Inl err \<Rightarrow> Panics ''RegisterCodec''
           | Inr e' \<Rightarrow> register_codecs register vs (payloadType - 1) e'))"

section \<open>The API\<close>

text \<open>\<open>net.IP.To4\<close>: four bytes, or sixteen with the prefix of a mapped IPv4 address.\<close>

definition To4 :: "bytes \<Rightarrow> bytes option" where
  "To4 ip =
     (if length ip = 4 then Some ip
      else if length ip = 16 \<and> take 10 ip = replicate 10 0 \<and> ip ! 10 = 255 \<and> ip ! 11 = 255
      then Some (drop 12 ip) else None)"

record 'e rtc_api =
  api_ice :: "IceSettings option"
  api_ip_filter :: "bytes \<Rightarrow> bool"
  api_ports :: "(u16 \<times> u16) option"
  api_engine :: 'e

definition NewAPI ::
  "'e pion \<Rightarrow> string list \<Rightarrow> IceSettings option \<Rightarrow> PortRange option \<Rightarrow> 'e rtc_api outcome" where
  "NewAPI px codecs ice udp =
     (let ports = (case udp of
                     None \<Rightarrow> None
                   | Some r \<Rightarrow> if pr_Min r \<noteq> 0 \<and> pr_Max r \<noteq> 0 then Some (pr_Min r, pr_Max r) else None)
      in if (case ports of None \<Rightarrow> False | Some (mn, mx) \<Rightarrow> px_SetPortRange px mn mx \<noteq> None)
         then Panics ''SetEphemeralUDPPortRange''
         else
           (case register_codecs (px_RegisterCodec px) codecs 97 (px_engine px) of
              Panics m \<Rightarrow> Panics m
            | Returns e \<Rightarrow>
                if px_pli px \<noteq> None then Panics ''intervalpli''
                else
                  (case px_interceptors px e of
                     Inl err \<Rightarrow> Panics ''RegisterDefaultInterceptors''
                   | Inr e' \<Rightarrow>
                       Returns \<lparr>api_ice = ice, api_ip_filter = (\<lambda>ip. To4 ip \<noteq> None),
                         api_ports = ports, api_engine = e'\<rparr>)))"

text \<open>\<open>webrtcAPI\<close> of \<^verbatim>\<open>cmd/resources.go\<close>\<close>

definition webrtcAPI :: "'e pion \<Rightarrow> AppConfig \<Rightarrow> 'e rtc_api res outcome" where
  "webrtcAPI px cfg =
     (if Codecs (Rtc cfg) = [] then Returns (Inl (Errorf ''webrtc codecs is empty''))
      else
        (case (if EphemeralUDPPortRange (Rtc cfg) \<noteq> []
               then map_sum id Some (portRangeFromString (EphemeralUDPPortRange (Rtc cfg)))
               else Inr None) of
           Inl e \<Rightarrow> Returns (Inl e)
         | Inr udpRange \<Rightarrow>
             (case NewAPI px (Codecs (Rtc cfg)) (Some (Ice (Rtc cfg))) udpRange of
                Panics m \<Rightarrow> Panics m
              | Returns a \<Rightarrow> Returns (Inr a))))"

text \<open>
  What the code relies on \<open>RegisterCodec\<close> for: a codec that is accepted, with a payload type no
  other codec has, is appended to those of the engine.
\<close>

definition appends :: "('e \<Rightarrow> (codec \<times> RTPCodecType) list) \<Rightarrow> (codec \<Rightarrow> RTPCodecType \<Rightarrow> 'e \<Rightarrow> 'e res) \<Rightarrow> bool" where
  "appends codecs register \<longleftrightarrow>
     (\<forall>c t e e'. register c t e = Inr e' \<longrightarrow>
        cd_PayloadType c \<notin> (cd_PayloadType \<circ> fst) ` set (codecs e) \<longrightarrow> codecs e' = codecs e @ [(c, t)])"

fun offered :: "string list \<Rightarrow> u8 \<Rightarrow> (codec \<times> RTPCodecType) option list" where
  "offered [] pt = []"
| "offered (v # vs) pt = codec_of v pt # offered vs (pt - 1)"

lemma payload_types_differ:
  "i < j \<Longrightarrow> j < 256 \<Longrightarrow> (97 :: u8) - of_nat i \<noteq> 97 - of_nat j"
proof
  assume ij: "i < j" "j < 256" and "(97 :: u8) - of_nat i = 97 - of_nat j"
  then have "(of_nat i :: u8) = of_nat j" by simp
  then have "i mod 256 = j mod 256" by (simp add: word_of_nat_eq_iff take_bit_eq_mod)
  with ij show False by simp
qed

lemma codec_of_payload: "codec_of v pt = Some (c, t) \<Longrightarrow> cd_PayloadType c = pt"
  by (cases "codec_class v") (auto simp: codec_of_def split: prod.splits)

text \<open>With at most 256 codecs in all, the payload types, counted down from 97, do not repeat.\<close>

lemma register_codecs_offered:
  assumes "appends codecs register"
  shows "register_codecs register vs (97 - of_nat n) e = Returns e' \<Longrightarrow> n + length vs \<le> 256 \<Longrightarrow>
    (cd_PayloadType \<circ> fst) ` set (codecs e) \<subseteq> {97 - of_nat j | j. j < n} \<Longrightarrow>
    List.map Some (codecs e') = List.map Some (codecs e) @ offered vs (97 - of_nat n)"
proof (induction vs arbitrary: n e)
  case (Cons v vs)
  have pt: "(97 :: u8) - of_nat n - 1 = 97 - of_nat (Suc n)" by simp
  from Cons.prems(1) obtain c t e1 where s: "codec_of v (97 - of_nat n) = Some (c, t)" "register c t e = Inr e1"
    "register_codecs register vs (97 - of_nat (Suc n)) e1 = Returns e'"
    unfolding register_codecs.simps pt by (auto split: option.splits sum.splits)
  have c: "cd_PayloadType c = 97 - of_nat n" by (rule codec_of_payload [OF s(1)])
  have "cd_PayloadType c \<notin> (cd_PayloadType \<circ> fst) ` set (codecs e)"
  proof
    assume "cd_PayloadType c \<in> (cd_PayloadType \<circ> fst) ` set (codecs e)"
    with Cons.prems(3) c obtain j where "j < n" "(97 :: u8) - of_nat n = 97 - of_nat j" by auto
    with payload_types_differ [of j n] Cons.prems(2) show False by simp
  qed
  with s(2) assms have e1: "codecs e1 = codecs e @ [(c, t)]" by (simp add: appends_def)
  have sub: "(cd_PayloadType \<circ> fst) ` set (codecs e1) \<subseteq> {97 - of_nat j | j. j < Suc n}"
    using Cons.prems(3) c e1 by (auto simp: less_Suc_eq)
  have len: "Suc n + length vs \<le> 256" using Cons.prems(2) by simp
  from Cons.IH [OF s(3) len sub] e1 show ?case unfolding offered.simps pt by (simp add: s(1))
qed simp

lemma length_offered [simp]: "length (offered vs pt) = length vs"
  by (induction vs arbitrary: pt) auto

lemma offered_nth: "k < length vs \<Longrightarrow> offered vs pt ! k = codec_of (vs ! k) (pt - of_nat k)"
  by (induction vs arbitrary: pt k) (auto simp: nth_Cons diff_diff_eq split: nat.splits)

text \<open>
  NewAPI registers every configured codec in order, with pairwise different payload types
  counted down from 97 and the clock rate and kind its name asks for, for up to 256 codecs.
\<close>

theorem codecs_registered:
  assumes "appends codecs (px_RegisterCodec px)" and "codecs (px_engine px) = []"
    and "\<And>e e'. px_interceptors px e = Inr e' \<Longrightarrow> codecs e' = codecs e"
    and "NewAPI px vs ice udp = Returns api" and "length vs \<le> 256"
  shows "length (codecs (api_engine api)) = length vs \<and>
    distinct (List.map (cd_PayloadType \<circ> fst) (codecs (api_engine api))) \<and>
    (\<forall>k < length vs. codec_of (vs ! k) (97 - of_nat k) = Some (codecs (api_engine api) ! k))"
proof -
  from assms(4) obtain e where e: "register_codecs (px_RegisterCodec px) vs 97 (px_engine px) = Returns e"
    "px_interceptors px e = Inr (api_engine api)"
    by (auto simp: NewAPI_def Let_def split: if_splits outcome.splits sum.splits)
  let ?cs = "codecs (api_engine api)"
  have m: "List.map Some ?cs = offered vs 97"
    using register_codecs_offered [OF assms(1), of vs 0 "px_engine px" e] e(1) assms(2,5) assms(3) [OF e(2)] by simp
  have len: "length ?cs = length vs" using arg_cong [OF m, of length] by simp
  have nth: "codec_of (vs ! k) (97 - of_nat k) = Some (?cs ! k)" if "k < length vs" for k
    using arg_cong [OF m, of "\<lambda>l. l ! k"] that len by (simp add: offered_nth)
  have pt: "cd_PayloadType (fst (?cs ! k)) = 97 - of_nat k" if "k < length vs" for k
    using nth [OF that] codec_of_payload by (cases "?cs ! k") force
  have "distinct (List.map (cd_PayloadType \<circ> fst) ?cs)"
    unfolding distinct_conv_nth
  proof (intro allI impI)
    fix i j assume ij: "i < length (List.map (cd_PayloadType \<circ> fst) ?cs)"
      "j < length (List.map (cd_PayloadType \<circ> fst) ?cs)" "i \<noteq> j"
    then have "(97 :: u8) - of_nat i \<noteq> 97 - of_nat j"
      using payload_types_differ [of i j] payload_types_differ [of j i] assms(5) len
      by (cases "i < j") auto
    with ij len show "List.map (cd_PayloadType \<circ> fst) ?cs ! i \<noteq> List.map (cd_PayloadType \<circ> fst) ?cs ! j"
      by (simp add: pt)
  qed
  with len nth show ?thesis by simp
qed

text \<open>An engine that accepts every codec, and the codecs of the default configuration.\<close>

definition list_pion :: "(codec \<times> RTPCodecType) list pion" where
  "list_pion = \<lparr>px_engine = [], px_SetPortRange = (\<lambda>mn mx. if mx < mn then Some (Errorf ''range'') else None),
     px_RegisterCodec = (\<lambda>c t e. Inr (e @ [(c, t)])), px_pli = None, px_interceptors = Inr\<rparr>"

definition default_codecs :: "(codec \<times> RTPCodecType) list" where
  "default_codecs =
     [(\<lparr>cd_MimeType = ''video/VP9'', cd_ClockRate = 90000, cd_PayloadType = 97\<rparr>, RTPCodecTypeVideo),
      (\<lparr>cd_MimeType = ''video/H264'', cd_ClockRate = 90000, cd_PayloadType = 96\<rparr>, RTPCodecTypeVideo),
      (\<lparr>cd_MimeType = ''audio/opus'', cd_ClockRate = 48000, cd_PayloadType = 95\<rparr>, RTPCodecTypeAudio),
      (\<lparr>cd_MimeType = ''audio/opus'', cd_ClockRate = 16000, cd_PayloadType = 94\<rparr>, RTPCodecTypeAudio)]"

lemma default_register:
  "register_codecs (px_RegisterCodec list_pion)
     [''video/VP9'', ''video/H264'', ''audio/opus@48000'', ''audio/opus@16000''] 97 [] = Returns default_codecs"
  by (simp add: list_pion_def default_codecs_def codec_of_def codec_class_def codec_rate_def
      Atoi_def Atoi_digits_def is_digit_def dec_val_def digit_val_def in_i64_def)

lemma default_NewAPI:
  "NewAPI list_pion [''video/VP9'', ''video/H264'', ''audio/opus@48000'', ''audio/opus@16000''] ice
      (Some \<lparr>pr_Min = 10000, pr_Max = 20000\<rparr>) =
    Returns \<lparr>api_ice = ice, api_ip_filter = (\<lambda>ip. To4 ip \<noteq> None), api_ports = Some (10000, 20000),
      api_engine = default_codecs\<rparr>"
proof -
  have f: "px_engine list_pion = []" "px_pli list_pion = None" "px_interceptors list_pion = Inr"
    "px_SetPortRange list_pion 10000 20000 = None"
    by (simp_all add: list_pion_def)
  show ?thesis by (simp add: NewAPI_def default_register f del: register_codecs.simps)
qed

theorem codecs_registered_witness:
  "\<exists>api. NewAPI list_pion [''video/VP9'', ''video/H264'', ''audio/opus@48000'', ''audio/opus@16000''] None None =
      Returns api \<and> distinct (List.map (cd_PayloadType \<circ> fst) (api_engine api))"
proof -
  have f: "px_engine list_pion = []" "px_pli list_pion = None" "px_interceptors list_pion = Inr"
    "appends id (px_RegisterCodec list_pion)"
    by (simp_all add: list_pion_def appends_def)
  define api where "api = \<lparr>api_ice = None, api_ip_filter = (\<lambda>ip. To4 ip \<noteq> None), api_ports = None,
      api_engine = default_codecs\<rparr>"
  have n: "NewAPI list_pion [''video/VP9'', ''video/H264'', ''audio/opus@48000'', ''audio/opus@16000''] None None =
      Returns api"
    by (simp add: NewAPI_def default_register f api_def del: register_codecs.simps)
  from codecs_registered [of id list_pion, OF f(4) _ _ n] n show ?thesis by (simp add: f)
qed

lemma default_webrtcAPI:
  "webrtcAPI list_pion (load_config nothing_given) =
     Returns (Inr \<lparr>api_ice = Some \<lparr>DisconnectedTimeout = 5000000000, FailedTimeout = 15000000000,
         KeepAliveInterval = 5000000000\<rparr>,
       api_ip_filter = (\<lambda>ip. To4 ip \<noteq> None), api_ports = Some (10000, 20000), api_engine = default_codecs\<rparr>)"
proof -
  show ?thesis by (simp add: webrtcAPI_def load_config_eq default_range default_NewAPI)
qed

end
