(* ===== verification/Model_Types.thy ===== *)
theory Model_Types
  imports Go_Strings
begin

text \<open>
  The data model of \<^verbatim>\<open>internal/model\<close>: recorded files, their media channels and the
  background jobs, the clock and the JSON form in which a file travels through the job table.
\<close>

section \<open>Files, channels and jobs\<close>

record MediaChannel =
  ch_Path :: string
  ch_MimeType :: string
  FirstRtpTs :: u32
  LastRtpTs :: u32

record File =
  DomainID :: int
  UploadedBy :: int
  CreatedAt :: int
  MimeType :: string
  Name :: string
  UUID :: string
  Path :: string
  Track :: "MediaChannel list"
  Channel :: int
  StartTime :: int
  EndTime :: int

datatype JobState = JobIdle | JobActive

text \<open>The constants are an \<open>iota\<close>: this is the number the job table stores.\<close>

fun state_code :: "JobState \<Rightarrow> nat" where
  "state_code JobIdle = 0"
| "state_code JobActive = 1"

text \<open>\<open>JobConfig\<close> is the empty struct; a job holds a pointer to one.\<close>

type_synonym JobConfig = unit

record Job =
  job_ID :: int
  job_Type :: string
  job_File :: File
  job_Config :: "JobConfig option"
  job_Retry :: int

definition ServiceName :: string where
  "ServiceName = ''webrtc_recorder''"

text \<open>\<open>model.NewID\<close>: the random source may fail, and then the function panics.\<close>

definition NewID :: "string res \<Rightarrow> string outcome" where
  "NewID rnd = (case rnd of Inl e \<Rightarrow> Panics ''uuid'' | Inr i \<Rightarrow> Returns i)"

text \<open>\<open>model.GetMillis\<close> of the clock's nanoseconds.\<close>

definition GetMillis :: "int \<Rightarrow> int" where
  "GetMillis nanos = go_quot nanos 1000000"

lemma GetMillis_bounds:
  "0 \<le> nanos \<Longrightarrow> GetMillis nanos * 1000000 \<le> nanos \<and> nanos < (GetMillis nanos + 1) * 1000000"
  by (simp add: GetMillis_def go_quot_nonneg) presburger

section \<open>JSON\<close>

text \<open>
  JSON values; an object keeps its members in the order written. \<open>File_JSON\<close> is
  \<open>(*File).JSON\<close> with the struct tags of \<^verbatim>\<open>internal/model/file.go\<close>: a slice that was never
  appended to is nil and is written as \<open>null\<close>, the two timestamps of a channel are
  \<open>omitempty\<close>.
\<close>

datatype json = JNull | JStr string | JNum int | JArr "json list" | JObj "(string \<times> json) list"

definition json_ts :: "string \<Rightarrow> u32 \<Rightarrow> (string \<times> json) list" where
  "json_ts k w = (if w = 0 then [] else [(k, JNum (uint w))])"

definition channel_JSON :: "MediaChannel \<Rightarrow> json" where
  "channel_JSON c =
     JObj ([(''path'', JStr (ch_Path c)), (''mime_type'', JStr (ch_MimeType c))]
           @ json_ts ''first_rtp_ts'' (FirstRtpTs c) @ json_ts ''last_rtp_ts'' (LastRtpTs c))"

definition track_JSON :: "MediaChannel list \<Rightarrow> json" where
  "track_JSON ts = (if ts = [] then JNull else JArr (List.map channel_JSON ts))"

definition File_JSON :: "File \<Rightarrow> json" where
  "File_JSON f =
     JObj [(''domain_id'', JNum (DomainID f)), (''uploaded_by'', JNum (UploadedBy f)),
           (''created_at'', JNum (CreatedAt f)), (''mime_type'', JStr (MimeType f)),
           (''name'', JStr (Name f)), (''uuid'', JStr (UUID f)), (''path'', JStr (Path f)),
           (''track'', track_JSON (Track f)), (''channel'', JNum (Channel f)),
           (''start_time'', JNum (StartTime f)), (''end_time'', JNum (EndTime f))]"

definition JobConfig_JSON :: "JobConfig option \<Rightarrow> json" where
  "JobConfig_JSON c = (case c of None \<Rightarrow> JNull | Some _ \<Rightarrow> JObj [])"

text \<open>
  Reading back, as \<open>json.Unmarshal\<close> does into a zero struct: an absent member or \<open>null\<close>
  leaves the zero value, a number must fit the field, another kind of value is an error.
\<close>

definition json_err :: go_error where
  "json_err = Errorf ''json: cannot unmarshal''"

definition member :: "string \<Rightarrow> (string \<times> json) list \<Rightarrow> json" where
  "member k ms = (case map_of (rev ms) k of None \<Rightarrow> JNull | Some v \<Rightarrow> v)"

fun as_string :: "json \<Rightarrow> string res" where
  "as_string JNull = Inr []"
| "as_string (JStr s) = Inr s"
| "as_string _ = Inl json_err"

fun as_int :: "json \<Rightarrow> int res" where
  "as_int JNull = Inr 0"
| "as_int (JNum n) = (if in_i64 n then Inr n else Inl json_err)"
| "as_int _ = Inl json_err"

fun as_u32 :: "json \<Rightarrow> u32 res" where
  "as_u32 JNull = Inr 0"
| "as_u32 (JNum n) = (if 0 \<le> n \<and> n < 2 ^ 32 then Inr (word_of_int n) else Inl json_err)"
| "as_u32 _ = Inl json_err"

fun channel_of_JSON :: "json \<Rightarrow> MediaChannel res" where
  "channel_of_JSON (JObj ms) =
     and_then (as_string (member ''path'' ms)) (\<lambda>p.
     and_then (as_string (member ''mime_type'' ms)) (\<lambda>m.
     and_then (as_u32 (member ''first_rtp_ts'' ms)) (\<lambda>a.
     and_then (as_u32 (member ''last_rtp_ts'' ms)) (\<lambda>b.
       Inr \<lparr>ch_Path = p, ch_MimeType = m, FirstRtpTs = a, LastRtpTs = b\<rparr>))))"
| "channel_of_JSON JNull = Inr \<lparr>ch_Path = [], ch_MimeType = [], FirstRtpTs = 0, LastRtpTs = 0\<rparr>"
| "channel_of_JSON _ = Inl json_err"

fun all_res :: "('a \<Rightarrow> 'b res) \<Rightarrow> 'a list \<Rightarrow> 'b list res" where
  "all_res f [] = Inr []"
| "all_res f (x # xs) = and_then (f x) (\<lambda>y. and_then (all_res f xs) (\<lambda>ys. Inr (y # ys)))"

fun track_of_JSON :: "json \<Rightarrow> MediaChannel list res" where
  "track_of_JSON JNull = Inr []"
| "track_of_JSON (JArr vs) = all_res channel_of_JSON vs"
| "track_of_JSON _ = Inl json_err"

fun File_of_JSON :: "json \<Rightarrow> File res" where
  "File_of_JSON (JObj ms) =
     and_then (as_int (member ''domain_id'' ms)) (\<lambda>d.
     and_then (as_int (member ''uploaded_by'' ms)) (\<lambda>u.
     and_then (as_int (member ''created_at'' ms)) (\<lambda>c.
     and_then (as_string (member ''mime_type'' ms)) (\<lambda>m.
     and_then (as_string (member ''name'' ms)) (\<lambda>n.
     and_then (as_string (member ''uuid'' ms)) (\<lambda>i.
     and_then (as_string (member ''path'' ms)) (\<lambda>p.
     and_then (track_of_JSON (member ''track'' ms)) (\<lambda>t.
     and_then (as_int (member ''channel'' ms)) (\<lambda>ch.
     and_then (as_int (member ''start_time'' ms)) (\<lambda>st.
     and_then (as_int (member ''end_time'' ms)) (\<lambda>en.
       Inr \<lparr>DomainID = d, UploadedBy = u, CreatedAt = c, MimeType = m, Name = n, UUID = i,
            Path = p, Track = t, Channel = ch, StartTime = st, EndTime = en\<rparr>)))))))))))"
| "File_of_JSON _ = Inl json_err"

text \<open>Every integer field holds a Go \<open>int\<close>.\<close>

definition wf_File :: "File \<Rightarrow> bool" where
  "wf_File f \<longleftrightarrow> in_i64 (DomainID f) \<and> in_i64 (UploadedBy f) \<and> in_i64 (CreatedAt f) \<and>
     in_i64 (Channel f) \<and> in_i64 (StartTime f) \<and> in_i64 (EndTime f)"

lemma as_u32_uint: "as_u32 (JNum (uint (w :: u32))) = Inr w"
  using uint_lt2p [of w] by simp

lemma channel_roundtrip [simp]: "channel_of_JSON (channel_JSON c) = Inr c"
  using as_u32_uint [of "FirstRtpTs c"] as_u32_uint [of "LastRtpTs c"]
  by (cases c) (auto simp: channel_JSON_def member_def json_ts_def)

lemma all_res_map: "(\<And>x. g (f x) = Inr x) \<Longrightarrow> all_res g (List.map f xs) = Inr xs"
  by (induction xs) auto

lemma track_roundtrip [simp]: "track_of_JSON (track_JSON ts) = Inr ts"
  by (simp add: track_JSON_def all_res_map)


definition sample_File :: File where
  "sample_File = \<lparr>DomainID = 1, UploadedBy = 7, CreatedAt = 1700000000000, MimeType = [],
     Name = ''rec'', UUID = ''u-1'', Path = [],
     Track = [\<lparr>ch_Path = ''/t/a.raw'', ch_MimeType = ''video/VP9'', FirstRtpTs = 10, LastRtpTs = 0\<rparr>],
     Channel = 6, StartTime = 5, EndTime = 9\<rparr>"


end
