(* ===== verification/Job_Interface.thy ===== *)
theory Job_Interface
  imports Model_Types
begin

text \<open>
  The interface \<open>FileJobStore\<close> of \<^verbatim>\<open>internal/service/transcoding.go\<close>: the record of its
  methods, which the job handlers call, and the locale of the laws they rely on. The laws speak
  of an abstract table, a map from job ids to entries.
\<close>

record 'd JobStoreOps =
  op_Create :: "string \<Rightarrow> JobConfig option \<Rightarrow> File \<Rightarrow> 'd \<Rightarrow> go_error option \<times> 'd"
  op_Update :: "JobState \<Rightarrow> Job \<Rightarrow> 'd \<Rightarrow> go_error option \<times> 'd"
  op_SetError :: "int \<Rightarrow> go_error \<Rightarrow> 'd \<Rightarrow> go_error option \<times> 'd"
  op_Fetch :: "int \<Rightarrow> string \<Rightarrow> 'd \<Rightarrow> Job list res \<times> 'd"
  op_Delete :: "int \<Rightarrow> 'd \<Rightarrow> go_error option \<times> 'd"

text \<open>An abstract entry: its state, whether this instance owns it, and the job itself.\<close>

record job_entry =
  e_state :: JobState
  e_mine :: bool
  e_job :: Job

type_synonym job_table = "int \<rightharpoonup> job_entry"

definition mark_active :: "job_entry \<Rightarrow> job_entry" where
  "mark_active e =
     e\<lparr>e_state := JobActive, e_job := (e_job e)\<lparr>job_Retry := job_Retry (e_job e) + 1\<rparr>\<rparr>"

definition ready_entry :: "string \<Rightarrow> job_entry \<Rightarrow> bool" where
  "ready_entry ty e \<longleftrightarrow> e_state e = JobIdle \<and> e_mine e \<and> job_Type (e_job e) = ty"

locale file_job_store =
  fixes ops :: "'d JobStoreOps"
    and view :: "'d \<Rightarrow> job_table"
    and inv :: "'d \<Rightarrow> bool"
  assumes create_law:
      "\<lbrakk>inv d; wf_File f; op_Create ops ty cfg f d = (e, d')\<rbrakk> \<Longrightarrow> inv d' \<and>
       (case e of
          Some _ \<Rightarrow> view d' = view d
        | None \<Rightarrow> (\<exists>i. view d i = None \<and>
            view d' = (view d)(i \<mapsto> \<lparr>e_state = JobIdle, e_mine = True,
              e_job = \<lparr>job_ID = i, job_Type = ty, job_File = f, job_Config = cfg, job_Retry = 0\<rparr>\<rparr>)))"
    and update_law:
      "\<lbrakk>inv d; wf_File (job_File j); op_Update ops st j d = (e, d')\<rbrakk> \<Longrightarrow> inv d' \<and>
       view d' = (case e of
          Some _ \<Rightarrow> view d
        | None \<Rightarrow> (view d)(job_ID j := map_option (\<lambda>x. x\<lparr>e_state := st, e_job := j\<rparr>) (view d (job_ID j))))"
    and set_error_law:
      "\<lbrakk>inv d; op_SetError ops i err d = (e, d')\<rbrakk> \<Longrightarrow> inv d' \<and>
       view d' = (case e of
          Some _ \<Rightarrow> view d
        | None \<Rightarrow> (view d)(i := map_option (\<lambda>x. x\<lparr>e_state := JobIdle\<rparr>) (view d i)))"
    and delete_law:
      "\<lbrakk>inv d; op_Delete ops i d = (e, d')\<rbrakk> \<Longrightarrow> inv d' \<and>
       view d' = (case e of Some _ \<Rightarrow> view d | None \<Rightarrow> (view d)(i := None))"
    and fetch_err_law:
      "\<lbrakk>inv d; op_Fetch ops n ty d = (Inl ferr, d')\<rbrakk> \<Longrightarrow> inv d' \<and> view d' = view d"
    and fetch_law:
      "\<lbrakk>inv d; op_Fetch ops n ty d = (Inr js, d')\<rbrakk> \<Longrightarrow> inv d' \<and>
       distinct (List.map job_ID js) \<and> int (length js) \<le> n \<and>
       (\<forall>j \<in> set js. \<exists>e. view d (job_ID j) = Some e \<and> ready_entry ty e \<and> e_job e = j) \<and>
       (\<forall>i. view d' i =
          (if i \<in> job_ID ` set js then map_option mark_active (view d i) else view d i)) \<and>
       (int (length js) < n \<longrightarrow>
          (\<forall>i e. view d i = Some e \<longrightarrow> ready_entry ty e \<longrightarrow> i \<in> job_ID ` set js))"
    and view_wf: "\<lbrakk>inv d; view d i = Some en\<rbrakk> \<Longrightarrow> job_ID (e_job en) = i \<and> wf_File (job_File (e_job en))"
begin

text \<open>A fetched job is found active afterwards, with its attempt counted.\<close>

lemma fetched_is_active:
  assumes "inv d" and "op_Fetch ops n ty d = (Inr js, d')" and "j \<in> set js"
  shows "\<exists>e. view d' (job_ID j) = Some e \<and> e_state e = JobActive \<and> e_mine e \<and>
     e_job e = j\<lparr>job_Retry := job_Retry j + 1\<rparr>"
  using fetch_law [OF assms(1,2)] assms(3) by (force simp: mark_active_def ready_entry_def)

text \<open>Two fetches in a row never hand out the same job: it stays active in between.\<close>

lemma fetch_exclusive:
  assumes d: "inv d" and f1: "op_Fetch ops n ty d = (Inr js, d')"
    and f2: "op_Fetch ops m ty' d' = (Inr ks, d'')"
  shows "job_ID ` set js \<inter> job_ID ` set ks = {}"
proof -
  have d': "inv d'" using fetch_law [OF d f1] by simp
  { fix j k assume j: "j \<in> set js" and k: "k \<in> set ks" and eq: "job_ID j = job_ID k"
    obtain e where "view d' (job_ID k) = Some e" "ready_entry ty' e"
      using fetch_law [OF d' f2] k by blast
    with fetched_is_active [OF d f1 j] eq have False by (auto simp: ready_entry_def) }
  then show ?thesis by blast
qed

lemma fetch_only_marks:
  assumes "inv d" and "op_Fetch ops n ty d = (Inr js, d')" and "i \<notin> job_ID ` set js"
  shows "view d' i = view d i"
  using fetch_law [OF assms(1,2)] assms(3) by simp

end

end
