(* ===== verification/Job_Store.thy ===== *)
theory Job_Store
  imports Job_Interface
begin

text \<open>
  \<^verbatim>\<open>internal/store/file_job.go\<close>: the table \<^verbatim>\<open>webrtc_rec.file_jobs\<close> and the SQL statements of
  \<open>FileJobStore\<close>, over the \<open>Exec\<close> and \<open>Select\<close> of \<^verbatim>\<open>infra/sql/pgsql/client.go\<close>. Each statement
  is one transaction: it fails and changes nothing, or it is applied. The column defaults of
  the table are not part of the repository; they are fields of the database state.
\<close>

section \<open>The table\<close>

record job_row =
  r_id :: int
  r_type :: string
  r_instance :: string
  r_file :: json
  r_config :: json
  r_state :: nat
  r_error :: "string option"
  r_retry :: int
  r_created_at :: int
  r_activity_at :: int

text \<open>
  \<open>db_fails k\<close> is the outcome of the connection for the \<open>k\<close>-th statement; \<open>db_now\<close> is the
  server's clock.
\<close>

record db =
  rows :: "job_row list"
  next_id :: int
  db_now :: int
  dflt_state :: nat
  dflt_retry :: int
  db_calls :: nat
  db_fails :: "nat \<Rightarrow> go_error option"

definition db_Exec :: "(db \<Rightarrow> db) \<Rightarrow> db \<Rightarrow> go_error option \<times> db" where
  "db_Exec stmt d =
     (let d1 = d\<lparr>db_calls := Suc (db_calls d)\<rparr>
      in case db_fails d (db_calls d) of Some e \<Rightarrow> (Some e, d1) | None \<Rightarrow> (None, stmt d1))"

definition db_Select :: "(db \<Rightarrow> 'a res \<times> db) \<Rightarrow> db \<Rightarrow> 'a res \<times> db" where
  "db_Select stmt d =
     (let d1 = d\<lparr>db_calls := Suc (db_calls d)\<rparr>
      in case db_fails d (db_calls d) of Some e \<Rightarrow> (Inl e, d1) | None \<Rightarrow> stmt d1)"

section \<open>The statements\<close>

record FileJobStore =
  instance_id :: string

definition update_rows :: "(job_row \<Rightarrow> bool) \<Rightarrow> (job_row \<Rightarrow> job_row) \<Rightarrow> db \<Rightarrow> db" where
  "update_rows P f d = d\<lparr>rows := List.map (\<lambda>r. if P r then f r else r) (rows d)\<rparr>"

text \<open>\<open>err.Error()\<close>\<close>

fun err_text :: "go_error \<Rightarrow> string" where
  "err_text (Errorf m) = m"
| "err_text EOF = ''EOF''"
| "err_text (NotExist p) = p @ '': no such file or directory''"
| "err_text (StatusErr c m) = m"

definition Create ::
  "FileJobStore \<Rightarrow> string \<Rightarrow> JobConfig option \<Rightarrow> File \<Rightarrow> db \<Rightarrow> go_error option \<times> db" where
  "Create s jobType cfg f =
     db_Exec (\<lambda>d. d\<lparr>rows := rows d @
         [\<lparr>r_id = next_id d, r_type = jobType, r_instance = instance_id s, r_file = File_JSON f,
           r_config = JobConfig_JSON cfg, r_state = dflt_state d, r_error = None,
           r_retry = dflt_retry d, r_created_at = db_now d, r_activity_at = db_now d\<rparr>],
         next_id := next_id d + 1\<rparr>)"

definition Update :: "FileJobStore \<Rightarrow> JobState \<Rightarrow> Job \<Rightarrow> db \<Rightarrow> go_error option \<times> db" where
  "Update s st j =
     db_Exec (\<lambda>d. update_rows (\<lambda>r. r_id r = job_ID j)
       (\<lambda>r. r\<lparr>r_state := state_code st, r_type := job_Type j, r_file := File_JSON (job_File j),
             r_config := JobConfig_JSON (job_Config j), r_error := None,
             r_retry := job_Retry j, r_activity_at := db_now d\<rparr>) d)"

definition Reset :: "FileJobStore \<Rightarrow> db \<Rightarrow> go_error option \<times> db" where
  "Reset s = db_Exec (update_rows (\<lambda>r. r_instance r = instance_id s)
     (\<lambda>r. r\<lparr>r_state := state_code JobIdle\<rparr>))"

definition SetError :: "FileJobStore \<Rightarrow> int \<Rightarrow> go_error \<Rightarrow> db \<Rightarrow> go_error option \<times> db" where
  "SetError s i err =
     db_Exec (\<lambda>d. update_rows (\<lambda>r. r_id r = i)
       (\<lambda>r. r\<lparr>r_error := Some (err_text err), r_state := state_code JobIdle,
             r_activity_at := db_now d\<rparr>) d)"

definition Delete :: "FileJobStore \<Rightarrow> int \<Rightarrow> db \<Rightarrow> go_error option \<times> db" where
  "Delete s i = db_Exec (\<lambda>d. d\<lparr>rows := filter (\<lambda>r. r_id r \<noteq> i) (rows d)\<rparr>)"

text \<open>
  \<open>Fetch\<close>: the sub-select picks the oldest idle rows of this instance and type; the update
  marks them active and counts the attempt; \<open>returning x.*\<close> gives the rows as the sub-select
  saw them, with the attempt count from before. Scanning decodes the JSON columns; when that
  fails the rows are already updated. A negative limit is an SQL error.
\<close>

fun config_of_JSON :: "json \<Rightarrow> JobConfig option res" where
  "config_of_JSON JNull = Inr None"
| "config_of_JSON (JObj _) = Inr (Some ())"
| "config_of_JSON _ = Inl json_err"

definition scan_job :: "job_row \<Rightarrow> Job res" where
  "scan_job r =
     and_then (File_of_JSON (r_file r)) (\<lambda>f.
     and_then (config_of_JSON (r_config r)) (\<lambda>c.
       Inr \<lparr>job_ID = r_id r, job_Type = r_type r, job_File = f, job_Config = c,
            job_Retry = r_retry r\<rparr>))"

definition fetchable :: "string \<Rightarrow> string \<Rightarrow> job_row \<Rightarrow> bool" where
  "fetchable inst ty r \<longleftrightarrow> r_state r = 0 \<and> r_instance r = inst \<and> r_type r = ty"

definition fetch_select :: "string \<Rightarrow> string \<Rightarrow> nat \<Rightarrow> job_row list \<Rightarrow> job_row list" where
  "fetch_select inst ty n rs = take n (sort_key r_created_at (filter (fetchable inst ty) rs))"

definition fetch_mark :: "int \<Rightarrow> job_row \<Rightarrow> job_row" where
  "fetch_mark now r =
     r\<lparr>r_state := state_code JobActive, r_activity_at := now, r_retry := r_retry r + 1\<rparr>"

definition Fetch :: "FileJobStore \<Rightarrow> int \<Rightarrow> string \<Rightarrow> db \<Rightarrow> Job list res \<times> db" where
  "Fetch s limit jobType =
     db_Select (\<lambda>d.
       if limit < 0 then (Inl (Errorf ''LIMIT must not be negative''), d)
       else
         (let x = fetch_select (instance_id s) jobType (nat limit) (rows d)
          in (all_res scan_job x,
              update_rows (\<lambda>r. r_id r \<in> r_id ` set x) (fetch_mark (db_now d)) d)))"

text \<open>\<open>NewFileJobStore\<close> resets the jobs this instance left active; an error is only logged.\<close>

definition NewFileJobStore :: "string \<Rightarrow> db \<Rightarrow> FileJobStore \<times> db" where
  "NewFileJobStore service_id d =
     (let s = \<lparr>instance_id = service_id\<rparr> in (s, snd (Reset s d)))"

section \<open>The table as a map, and its invariant\<close>

text \<open>
  \<open>r_id\<close> is the primary key: ids are distinct and below the sequence. Every file and
  configuration in the table decodes, because only \<open>Create\<close> and \<open>Update\<close> write them. A new
  row is idle and has no attempt behind it: these are the column defaults the code relies on.
\<close>

definition wf_row :: "job_row \<Rightarrow> bool" where
  "wf_row r \<longleftrightarrow> is_ok (scan_job r) \<and> (r_state r = 0 \<or> r_state r = 1)"

definition wf_db :: "db \<Rightarrow> bool" where
  "wf_db d \<longleftrightarrow> distinct (List.map r_id (rows d)) \<and> (\<forall>r \<in> set (rows d). r_id r < next_id d) \<and>
     (\<forall>r \<in> set (rows d). wf_row r) \<and> dflt_state d = 0 \<and> dflt_retry d = 0"

definition row_at :: "db \<Rightarrow> int \<Rightarrow> job_row option" where
  "row_at d i = find (\<lambda>r. r_id r = i) (rows d)"

lemma find_map_key:
  assumes "\<And>r. k (f r) = k r"
  shows "find (\<lambda>r. k r = i) (List.map f rs) = map_option f (find (\<lambda>r. k r = i) rs)"
  using assms by (induction rs) auto

lemma find_filter_key:
  "find (\<lambda>r. k r = i) (filter (\<lambda>r. k r \<noteq> j) rs) =
     (if i = j then None else find (\<lambda>r. k r = i) rs)"
  by (induction rs) auto

lemma find_distinct:
  "distinct (List.map k rs) \<Longrightarrow> r \<in> set rs \<Longrightarrow> find (\<lambda>x. k x = k r) rs = Some r"
  by (induction rs) auto

lemma row_at_Some: "row_at d i = Some r \<Longrightarrow> r \<in> set (rows d) \<and> r_id r = i"
  by (auto simp: row_at_def find_Some_iff)

lemma row_at_member: "wf_db d \<Longrightarrow> r \<in> set (rows d) \<Longrightarrow> row_at d (r_id r) = Some r"
  by (simp add: wf_db_def row_at_def find_distinct)

lemma row_at_None: "row_at d i = None \<longleftrightarrow> i \<notin> r_id ` set (rows d)"
  by (auto simp: row_at_def find_None_iff)

lemma row_at_update_rows:
  assumes "\<And>r. r_id (f r) = r_id r"
  shows "row_at (update_rows P f d) i = map_option (\<lambda>r. if P r then f r else r) (row_at d i)"
  unfolding row_at_def update_rows_def using assms by (simp add: find_map_key)

lemma update_rows_fields [simp]:
  "next_id (update_rows P f d) = next_id d"
  "db_now (update_rows P f d) = db_now d"
  "dflt_state (update_rows P f d) = dflt_state d"
  "dflt_retry (update_rows P f d) = dflt_retry d"
  "db_calls (update_rows P f d) = db_calls d"
  "db_fails (update_rows P f d) = db_fails d"
  by (simp_all add: update_rows_def)

lemma wf_update_rows:
  assumes "wf_db d" and "\<And>r. r_id (f r) = r_id r"
    and "\<And>r. r \<in> set (rows d) \<Longrightarrow> P r \<Longrightarrow> wf_row r \<Longrightarrow> wf_row (f r)"
  shows "wf_db (update_rows P f d)"
proof -
  have eq: "List.map (r_id \<circ> (\<lambda>r. if P r then f r else r)) (rows d) = List.map r_id (rows d)"
    using assms(2) by simp
  have "distinct (List.map (r_id \<circ> (\<lambda>r. if P r then f r else r)) (rows d))"
    unfolding eq using assms(1) by (simp add: wf_db_def)
  with assms show ?thesis by (auto simp: wf_db_def update_rows_def)
qed

lemma wf_db_calls [simp]: "wf_db (d\<lparr>db_calls := n\<rparr>) = wf_db d"
  by (simp add: wf_db_def)

lemma row_at_calls [simp]: "row_at (d\<lparr>db_calls := n\<rparr>) = row_at d"
  by (rule ext) (simp add: row_at_def)

lemma scan_written [simp]:
  "wf_File f \<Longrightarrow> r_file r = File_JSON f \<Longrightarrow> r_config r = JobConfig_JSON c \<Longrightarrow>
   scan_job r = Inr \<lparr>job_ID = r_id r, job_Type = r_type r, job_File = f, job_Config = c,
     job_Retry = r_retry r\<rparr>"
  using as_u32_uint
  by (cases f; cases c) (simp_all add: scan_job_def JobConfig_JSON_def File_JSON_def member_def
      wf_File_def)

lemma scan_job_upd [simp]:
  "is_ok (scan_job (r\<lparr>r_state := a\<rparr>)) = is_ok (scan_job r)"
  "is_ok (scan_job (r\<lparr>r_error := b\<rparr>)) = is_ok (scan_job r)"
  "is_ok (scan_job (r\<lparr>r_activity_at := c\<rparr>)) = is_ok (scan_job r)"
  "is_ok (scan_job (r\<lparr>r_retry := e\<rparr>)) = is_ok (scan_job r)"
  by (cases "File_of_JSON (r_file r)"; cases "config_of_JSON (r_config r)";
      simp add: scan_job_def)+

lemma as_int_range: "as_int v = Inr n \<Longrightarrow> in_i64 n"
  by (cases v) (auto simp: in_i64_def split: if_splits)

lemma File_of_JSON_wf: "File_of_JSON v = Inr f \<Longrightarrow> wf_File f"
  by (cases v) (auto simp: wf_File_def dest: as_int_range)

section \<open>The abstract table and the laws of the interface\<close>

definition entry_of :: "string \<Rightarrow> job_row \<Rightarrow> job_entry" where
  "entry_of inst r =
     \<lparr>e_state = (if r_state r = 0 then JobIdle else JobActive), e_mine = (r_instance r = inst),
      e_job = (case scan_job r of
          Inr j \<Rightarrow> j
        | Inl _ \<Rightarrow> \<lparr>job_ID = r_id r, job_Type = r_type r, job_File = sample_File,
                    job_Config = None, job_Retry = r_retry r\<rparr>)\<rparr>"

definition table_view :: "FileJobStore \<Rightarrow> db \<Rightarrow> job_table" where
  "table_view s d i = map_option (entry_of (instance_id s)) (row_at d i)"

definition sql_ops :: "FileJobStore \<Rightarrow> db JobStoreOps" where
  "sql_ops s = \<lparr>op_Create = Create s, op_Update = Update s, op_SetError = SetError s,
     op_Fetch = Fetch s, op_Delete = Delete s\<rparr>"

lemma scan_job_Inr:
  "scan_job r = Inr j \<Longrightarrow> job_ID j = r_id r \<and> job_Type j = r_type r \<and> job_Retry j = r_retry r \<and>
     wf_File (job_File j)"
  by (auto simp: scan_job_def dest: File_of_JSON_wf)

lemma wf_row_scan:
  "wf_row r \<Longrightarrow> \<exists>j. scan_job r = Inr j \<and> job_ID j = r_id r \<and> job_Type j = r_type r \<and>
     job_Retry j = r_retry r \<and> wf_File (job_File j)"
  by (auto simp: wf_row_def is_ok_iff dest: scan_job_Inr)

lemma scan_retry:
  "scan_job (r\<lparr>r_state := a, r_activity_at := b, r_retry := n\<rparr>) =
     map_sum id (\<lambda>j. j\<lparr>job_Retry := n\<rparr>) (scan_job r)"
  by (cases "File_of_JSON (r_file r)"; cases "config_of_JSON (r_config r)")
     (simp_all add: scan_job_def)

lemma scan_error:
  "scan_job (r\<lparr>r_error := x, r_state := a, r_activity_at := b\<rparr>) = scan_job r"
  by (cases "File_of_JSON (r_file r)"; cases "config_of_JSON (r_config r)")
     (simp_all add: scan_job_def)

lemma entry_of_mark:
  "wf_row r \<Longrightarrow> entry_of inst (fetch_mark t r) = mark_active (entry_of inst r)"
  by (frule wf_row_scan)
     (auto simp: entry_of_def fetch_mark_def scan_retry mark_active_def)

lemma wf_row_mark: "wf_row r \<Longrightarrow> wf_row (fetch_mark t r)"
  by (frule wf_row_scan) (auto simp: wf_row_def fetch_mark_def scan_retry)

lemma ready_entry_iff:
  "wf_row r \<Longrightarrow> ready_entry ty (entry_of inst r) = fetchable inst ty r"
  by (frule wf_row_scan) (auto simp: ready_entry_def entry_of_def fetchable_def)

lemma all_res_scan:
  "\<forall>r \<in> set rs. wf_row r \<Longrightarrow> \<exists>js. all_res scan_job rs = Inr js \<and> List.map Inr js = List.map scan_job rs"
proof (induction rs)
  case (Cons r rs)
  then obtain j js where "scan_job r = Inr j" "all_res scan_job rs = Inr js"
    "List.map Inr js = List.map scan_job rs" using wf_row_scan by fastforce
  then show ?case by simp
qed simp

lemma fetch_select_props:
  "set (fetch_select inst ty n rs) \<subseteq> {r \<in> set rs. fetchable inst ty r}"
  "length (fetch_select inst ty n rs) \<le> n"
  "distinct (List.map r_id rs) \<Longrightarrow> distinct (List.map r_id (fetch_select inst ty n rs))"
  "length (fetch_select inst ty n rs) < n \<Longrightarrow>
     set (fetch_select inst ty n rs) = {r \<in> set rs. fetchable inst ty r}"
proof -
  let ?s = "sort_key r_created_at (filter (fetchable inst ty) rs)"
  show "set (fetch_select inst ty n rs) \<subseteq> {r \<in> set rs. fetchable inst ty r}"
    using set_take_subset [of n ?s] by (auto simp: fetch_select_def)
  show "length (fetch_select inst ty n rs) \<le> n" by (simp add: fetch_select_def)
  show "distinct (List.map r_id (fetch_select inst ty n rs))" if d: "distinct (List.map r_id rs)"
  proof -
    have "mset (List.map r_id ?s) = mset (List.map r_id (filter (fetchable inst ty) rs))" by simp
    then have "distinct (List.map r_id ?s)"
      using d mset_eq_imp_distinct_iff distinct_map_filter by blast
    then show ?thesis by (simp add: fetch_select_def take_map [symmetric])
  qed
  show "set (fetch_select inst ty n rs) = {r \<in> set rs. fetchable inst ty r}"
    if "length (fetch_select inst ty n rs) < n"
    using that by (auto simp: fetch_select_def)
qed

lemma wf_db_row: "wf_db d \<Longrightarrow> row_at d i = Some r \<Longrightarrow> wf_row r \<and> r_id r = i"
  by (auto simp: wf_db_def dest: row_at_Some)

lemma table_view_wf:
  "wf_db d \<Longrightarrow> table_view s d i = Some e \<Longrightarrow> job_ID (e_job e) = i \<and> wf_File (job_File (e_job e))"
  by (auto simp: table_view_def entry_of_def dest!: wf_db_row wf_row_scan)

lemma db_Exec_cases:
  assumes "db_Exec stmt d = (e, d')"
  obtains x where "e = Some x" "d' = d\<lparr>db_calls := Suc (db_calls d)\<rparr>"
  | "e = None" "d' = stmt (d\<lparr>db_calls := Suc (db_calls d)\<rparr>)"
proof (cases "db_fails d (db_calls d)")
  case None
  with assms have "e = None" "d' = stmt (d\<lparr>db_calls := Suc (db_calls d)\<rparr>)"
    by (simp_all add: db_Exec_def)
  then show thesis by (rule that(2))
next
  case (Some x)
  with assms have "e = Some x" "d' = d\<lparr>db_calls := Suc (db_calls d)\<rparr>"
    by (auto simp: db_Exec_def)
  then show thesis by (rule that(1))
qed

lemma find_append:
  "find P (xs @ ys) = (case find P xs of None \<Rightarrow> find P ys | Some x \<Rightarrow> Some x)"
  by (induction xs) auto

lemma table_view_calls [simp]: "table_view s (d\<lparr>db_calls := n\<rparr>) = table_view s d"
  by (rule ext) (simp add: table_view_def)

lemma table_view_update:
  assumes "wf_db d" and "\<And>r. r_id (f r) = r_id r"
    and "\<And>r. wf_row r \<Longrightarrow> P r \<Longrightarrow> entry_of (instance_id s) (f r) = g (entry_of (instance_id s) r)"
    and "\<And>r. row_at d i = Some r \<Longrightarrow> P r = Q"
  shows "table_view s (update_rows P f d) i =
     (if Q then map_option g (table_view s d i) else table_view s d i)"
proof (cases "row_at d i")
  case None
  then show ?thesis using assms(2) by (simp add: table_view_def row_at_update_rows)
next
  case (Some r)
  with wf_db_row [OF assms(1)] have "wf_row r" by blast
  with Some assms show ?thesis by (simp add: table_view_def row_at_update_rows)
qed

lemma Create_law:
  assumes "wf_db d" and "wf_File f" and "Create s ty cfg f d = (e, d')"
  shows "wf_db d' \<and>
    (case e of
       Some _ \<Rightarrow> table_view s d' = table_view s d
     | None \<Rightarrow> (\<exists>i. table_view s d i = None \<and>
         table_view s d' = (table_view s d)(i \<mapsto> \<lparr>e_state = JobIdle, e_mine = True,
           e_job = \<lparr>job_ID = i, job_Type = ty, job_File = f, job_Config = cfg, job_Retry = 0\<rparr>\<rparr>)))"
  using assms(3)[unfolded Create_def]
proof (cases rule: db_Exec_cases)
  case (1 x)
  with assms(1) show ?thesis by simp
next
  case 2
  let ?r = "\<lparr>r_id = next_id d, r_type = ty, r_instance = instance_id s, r_file = File_JSON f,
      r_config = JobConfig_JSON cfg, r_state = 0, r_error = None,
      r_retry = 0, r_created_at = db_now d, r_activity_at = db_now d\<rparr>"
  have z: "dflt_state d = 0" "dflt_retry d = 0" using assms(1) by (simp_all add: wf_db_def)
  have rows: "rows d' = rows d @ [?r]" and misc: "next_id d' = next_id d + 1"
    "dflt_state d' = dflt_state d" "dflt_retry d' = dflt_retry d"
    using 2 z by simp_all
  have scan: "scan_job ?r = Inr \<lparr>job_ID = next_id d, job_Type = ty, job_File = f,
      job_Config = cfg, job_Retry = 0\<rparr>"
    using scan_written [of f ?r cfg] assms(2) by simp
  have fresh: "next_id d \<notin> r_id ` set (rows d)" using assms(1) by (auto simp: wf_db_def)
  have wf: "wf_db d'"
    using assms(1) fresh scan by (auto simp: wf_db_def rows misc wf_row_def)
  have none: "row_at d (next_id d) = None" using fresh by (simp add: row_at_None)
  have at: "row_at d' i = (if i = next_id d then Some ?r else row_at d i)" for i
    using none by (auto simp: row_at_def rows find_append split: option.splits)
  have "table_view s d' = (table_view s d)(next_id d \<mapsto> entry_of (instance_id s) ?r)"
    by (rule ext) (simp add: table_view_def at)
  moreover have "entry_of (instance_id s) ?r = \<lparr>e_state = JobIdle, e_mine = True,
      e_job = \<lparr>job_ID = next_id d, job_Type = ty, job_File = f, job_Config = cfg, job_Retry = 0\<rparr>\<rparr>"
    by (simp add: entry_of_def scan)
  moreover have "table_view s d (next_id d) = None" using none by (simp add: table_view_def)
  ultimately show ?thesis using wf 2 by auto
qed

lemma Update_law:
  assumes "wf_db d" and "wf_File (job_File j)" and "Update s st j d = (e, d')"
  shows "wf_db d' \<and> table_view s d' =
    (case e of
       Some _ \<Rightarrow> table_view s d
     | None \<Rightarrow> (table_view s d)(job_ID j :=
         map_option (\<lambda>x. x\<lparr>e_state := st, e_job := j\<rparr>) (table_view s d (job_ID j))))"
  using assms(3)[unfolded Update_def]
proof (cases rule: db_Exec_cases)
  case (1 x)
  with assms(1) show ?thesis by simp
next
  case 2
  let ?d = "d\<lparr>db_calls := Suc (db_calls d)\<rparr>"
  let ?P = "\<lambda>r. r_id r = job_ID j"
  let ?f = "\<lambda>r. r\<lparr>r_state := state_code st, r_type := job_Type j, r_file := File_JSON (job_File j),
      r_config := JobConfig_JSON (job_Config j), r_error := None,
      r_retry := job_Retry j, r_activity_at := db_now ?d\<rparr>"
  have d': "d' = update_rows ?P ?f ?d" using 2 by simp
  have wfd: "wf_db ?d" using assms(1) by simp
  have scan: "scan_job (?f r) = Inr (j\<lparr>job_ID := r_id r\<rparr>)" for r
    using scan_written [of "job_File j" "?f r" "job_Config j"] assms(2) by simp
  have wfr: "wf_row (?f r)" for r
    using scan [of r] by (cases st) (auto simp: wf_row_def)
  have wf: "wf_db d'" unfolding d' by (rule wf_update_rows [OF wfd]) (simp, rule wfr)
  have ent: "r_id r = job_ID j \<Longrightarrow> entry_of (instance_id s) (?f r) =
      (entry_of (instance_id s) r)\<lparr>e_state := st, e_job := j\<rparr>" for r
    using scan [of r] by (cases st) (simp_all add: entry_of_def)
  have "table_view s d' i = (if i = job_ID j
      then map_option (\<lambda>x. x\<lparr>e_state := st, e_job := j\<rparr>) (table_view s ?d i)
      else table_view s ?d i)" for i
    unfolding d'
    by (rule table_view_update [OF wfd], simp, rule ent, assumption, drule row_at_Some, simp)
  then show ?thesis using wf 2 by (auto simp: fun_eq_iff)
qed

lemma SetError_law:
  assumes "wf_db d" and "SetError s i err d = (e, d')"
  shows "wf_db d' \<and> table_view s d' =
    (case e of
       Some _ \<Rightarrow> table_view s d
     | None \<Rightarrow> (table_view s d)(i := map_option (\<lambda>x. x\<lparr>e_state := JobIdle\<rparr>) (table_view s d i)))"
  using assms(2)[unfolded SetError_def]
proof (cases rule: db_Exec_cases)
  case (1 x)
  with assms(1) show ?thesis by simp
next
  case 2
  let ?d = "d\<lparr>db_calls := Suc (db_calls d)\<rparr>"
  let ?f = "\<lambda>r. r\<lparr>r_error := Some (err_text err), r_state := state_code JobIdle,
      r_activity_at := db_now ?d\<rparr>"
  have d': "d' = update_rows (\<lambda>r. r_id r = i) ?f ?d" using 2 by simp
  have wfd: "wf_db ?d" using assms(1) by simp
  have wf: "wf_db d'"
    unfolding d' by (rule wf_update_rows [OF wfd]) (simp_all add: wf_row_def scan_error)
  have "table_view s d' k = (if k = i
      then map_option (\<lambda>x. x\<lparr>e_state := JobIdle\<rparr>) (table_view s ?d k)
      else table_view s ?d k)" for k
    unfolding d'
    by (rule table_view_update [OF wfd], simp, simp add: entry_of_def scan_error split: sum.split,
        drule row_at_Some, simp)
  then show ?thesis using wf 2 by (auto simp: fun_eq_iff)
qed

lemma Delete_law:
  assumes "wf_db d" and "Delete s i d = (e, d')"
  shows "wf_db d' \<and> table_view s d' =
    (case e of Some _ \<Rightarrow> table_view s d | None \<Rightarrow> (table_view s d)(i := None))"
  using assms(2)[unfolded Delete_def]
proof (cases rule: db_Exec_cases)
  case (1 x)
  with assms(1) show ?thesis by simp
next
  case 2
  have "wf_db d'" using 2 assms(1) by (auto simp: wf_db_def distinct_map_filter)
  moreover have "table_view s d' k = (if k = i then None else table_view s d k)" for k
    using 2 by (simp add: table_view_def row_at_def find_filter_key)
  ultimately show ?thesis using 2 by (auto simp: fun_eq_iff)
qed

lemma Fetch_err_law:
  assumes "wf_db d" and "Fetch s n ty d = (Inl err, d')"
  shows "wf_db d' \<and> table_view s d' = table_view s d"
proof -
  let ?x = "fetch_select (instance_id s) ty (nat n) (rows d)"
  have "\<forall>r \<in> set ?x. wf_row r"
    using fetch_select_props(1) assms(1) by (fastforce simp: wf_db_def)
  then obtain js where "all_res scan_job ?x = Inr js" using all_res_scan by blast
  with assms show ?thesis
    by (auto simp: Fetch_def db_Select_def Let_def split: option.splits if_splits)
qed

lemma Fetch_law:
  assumes "wf_db d" and f: "Fetch s n ty d = (Inr js, d')"
  shows "wf_db d' \<and> distinct (List.map job_ID js) \<and> int (length js) \<le> n \<and>
     (\<forall>j \<in> set js. \<exists>e. table_view s d (job_ID j) = Some e \<and> ready_entry ty e \<and> e_job e = j) \<and>
     (\<forall>i. table_view s d' i =
        (if i \<in> job_ID ` set js then map_option mark_active (table_view s d i)
         else table_view s d i)) \<and>
     (int (length js) < n \<longrightarrow>
        (\<forall>i e. table_view s d i = Some e \<longrightarrow> ready_entry ty e \<longrightarrow> i \<in> job_ID ` set js))"
proof -
  let ?d = "d\<lparr>db_calls := Suc (db_calls d)\<rparr>"
  let ?x = "fetch_select (instance_id s) ty (nat n) (rows d)"
  let ?P = "\<lambda>r. r_id r \<in> r_id ` set ?x"
  have n: "0 \<le> n" and js: "all_res scan_job ?x = Inr js"
    and d': "d' = update_rows ?P (fetch_mark (db_now ?d)) ?d"
    using f by (auto simp: Fetch_def db_Select_def Let_def split: option.splits if_splits)
  have wfd: "wf_db ?d" and dist: "distinct (List.map r_id (rows d))" using assms(1) by (simp_all add: wf_db_def)
  have wfx: "\<forall>r \<in> set ?x. wf_row r \<and> r \<in> set (rows d) \<and> fetchable (instance_id s) ty r"
    using fetch_select_props(1) assms(1) by (fastforce simp: wf_db_def)
  then have map: "List.map Inr js = List.map scan_job ?x" using all_res_scan js by fastforce
  have idseq: "List.map job_ID js = List.map r_id ?x"
  proof -
    have len: "length js = length ?x" using arg_cong [OF map, of length] by simp
    show ?thesis
    proof (rule nth_equalityI)
      fix k assume k: "k < length (List.map job_ID js)"
      have "scan_job (?x ! k) = Inr (js ! k)"
        using arg_cong [OF map, of "\<lambda>l. l ! k"] k len by simp
      with k len show "List.map job_ID js ! k = List.map r_id ?x ! k"
        by (simp add: scan_job_Inr)
    qed (simp add: len)
  qed
  have ids: "job_ID ` set js = r_id ` set ?x"
    using arg_cong [OF idseq, of set] by (simp only: set_map)
  have len: "length js = length ?x" using arg_cong [OF idseq, of length] by simp
  have wf: "wf_db d'"
    unfolding d' by (rule wf_update_rows [OF wfd]) (simp add: fetch_mark_def, rule wf_row_mark)
  have vw: "table_view s d' i =
      (if i \<in> job_ID ` set js then map_option mark_active (table_view s d i) else table_view s d i)" for i
  proof -
    have "table_view s d' i = (if i \<in> r_id ` set ?x
        then map_option mark_active (table_view s ?d i) else table_view s ?d i)"
      unfolding d'
      by (rule table_view_update [OF wfd], simp add: fetch_mark_def, rule entry_of_mark, assumption,
          drule row_at_Some, simp)
    then show ?thesis by (simp add: ids)
  qed
  have each: "\<exists>e. table_view s d (job_ID j) = Some e \<and> ready_entry ty e \<and> e_job e = j"
    if j: "j \<in> set js" for j
  proof -
    from j have "Inr j \<in> set (List.map scan_job ?x)" by (metis map image_eqI set_map)
    then obtain r where r: "r \<in> set ?x" "scan_job r = Inr j" by force
    have id: "job_ID j = r_id r" using scan_job_Inr [OF r(2)] by simp
    have "row_at d (job_ID j) = Some r"
      unfolding id using wfx assms(1) r(1) by (intro row_at_member) auto
    then have "table_view s d (job_ID j) = Some (entry_of (instance_id s) r)"
      by (simp add: table_view_def)
    moreover have "ready_entry ty (entry_of (instance_id s) r)"
      using wfx r(1) by (simp add: ready_entry_iff)
    moreover have "e_job (entry_of (instance_id s) r) = j" using r(2) by (simp add: entry_of_def)
    ultimately show ?thesis by blast
  qed
  have complete: "i \<in> job_ID ` set js"
    if "int (length js) < n" "table_view s d i = Some e" "ready_entry ty e" for i e
  proof -
    from that(2) obtain r where r: "row_at d i = Some r" "e = entry_of (instance_id s) r"
      by (auto simp: table_view_def)
    with wf_db_row [OF assms(1)] that(3) have "fetchable (instance_id s) ty r" "r_id r = i"
      by (auto simp: ready_entry_iff)
    moreover have "r \<in> set (rows d)" using row_at_Some r(1) by blast
    ultimately have "r \<in> set ?x" using fetch_select_props(4) that(1) len by fastforce
    with ids \<open>r_id r = i\<close> show ?thesis by auto
  qed
  have D: "distinct (List.map job_ID js)" unfolding idseq using fetch_select_props(3) dist by blast
  have L: "int (length js) \<le> n"
    using fetch_select_props(2) [of "instance_id s" ty "nat n" "rows d"] n len by simp
  have A: "\<forall>j \<in> set js. \<exists>e. table_view s d (job_ID j) = Some e \<and> ready_entry ty e \<and> e_job e = j"
    by (rule ballI) (rule each)
  have B: "\<forall>i. table_view s d' i =
      (if i \<in> job_ID ` set js then map_option mark_active (table_view s d i)
       else table_view s d i)"
    by (rule allI) (rule vw)
  have C: "int (length js) < n \<longrightarrow>
      (\<forall>i e. table_view s d i = Some e \<longrightarrow> ready_entry ty e \<longrightarrow> i \<in> job_ID ` set js)"
    by (intro impI allI) (rule complete)
  from wf D L A B C show ?thesis by (intro conjI)
qed

interpretation sql: file_job_store "sql_ops s" "table_view s" wf_db for s
  by (unfold_locales, unfold sql_ops_def JobStoreOps.select_convs)
     (erule (2) Create_law, erule (2) Update_law, erule (1) SetError_law, erule (1) Delete_law,
      erule (1) Fetch_err_law, erule (1) Fetch_law, erule (1) table_view_wf)

section \<open>A connection that does not fail\<close>

definition db_healthy :: "db \<Rightarrow> bool" where
  "db_healthy d \<longleftrightarrow> db_fails d = (\<lambda>_. None)"

lemma healthy_ops [simp]:
  assumes "db_healthy d"
  shows "fst (op_Update (sql_ops s) st j d) = None" "fst (op_Delete (sql_ops s) i d) = None"
    "fst (op_SetError (sql_ops s) i err d) = None" "fst (op_Create (sql_ops s) ty cfg f d) = None"
  using assms
  by (simp_all add: db_healthy_def sql_ops_def Update_def Delete_def SetError_def Create_def
      db_Exec_def Let_def)

lemma healthy_preserved [go_frame, simp]:
  assumes "db_healthy d"
  shows "db_healthy (snd (op_Update (sql_ops s) st j d))" "db_healthy (snd (op_Delete (sql_ops s) i d))"
    "db_healthy (snd (op_SetError (sql_ops s) i err d))"
    "db_healthy (snd (op_Create (sql_ops s) ty cfg f d))"
    "db_healthy (snd (op_Fetch (sql_ops s) n ty d))"
  using assms
  by (simp_all add: db_healthy_def sql_ops_def Update_def Delete_def SetError_def Create_def Fetch_def
      db_Exec_def db_Select_def Let_def)

lemma healthy_Fetch:
  assumes "wf_db d" and "db_healthy d" and "0 \<le> n"
  shows "\<exists>js. fst (op_Fetch (sql_ops s) n ty d) = Inr js"
proof -
  let ?x = "fetch_select (instance_id s) ty (nat n) (rows d)"
  have "\<forall>r \<in> set ?x. wf_row r"
    using fetch_select_props(1) assms(1) by (fastforce simp: wf_db_def)
  then obtain js where "all_res scan_job ?x = Inr js" using all_res_scan by blast
  with assms show ?thesis
    by (simp add: sql_ops_def Fetch_def db_Select_def db_healthy_def Let_def)
qed

lemma dom_table_view: "dom (table_view s d) = r_id ` set (rows d)"
proof
  show "dom (table_view s d) \<subseteq> r_id ` set (rows d)"
    by (auto simp: table_view_def dest!: row_at_Some)
  show "r_id ` set (rows d) \<subseteq> dom (table_view s d)"
  proof
    fix i assume "i \<in> r_id ` set (rows d)"
    then have "row_at d i \<noteq> None" by (simp add: row_at_None)
    then show "i \<in> dom (table_view s d)" by (auto simp: table_view_def)
  qed
qed

lemma card_table_view:
  "wf_db d \<Longrightarrow> finite (dom (table_view s d)) \<and> card (dom (table_view s d)) = length (rows d)"
  using distinct_card [of "List.map r_id (rows d)"] by (simp add: dom_table_view wf_db_def)

text \<open>A table with a single job, for concrete inputs.\<close>

definition one_row_db :: "string \<Rightarrow> JobState \<Rightarrow> Job \<Rightarrow> db" where
  "one_row_db inst st j =
     \<lparr>rows = [\<lparr>r_id = job_ID j, r_type = job_Type j, r_instance = inst, r_file = File_JSON (job_File j),
        r_config = JobConfig_JSON (job_Config j), r_state = state_code st, r_error = None,
        r_retry = job_Retry j, r_created_at = 0, r_activity_at = 0\<rparr>],
      next_id = job_ID j + 1, db_now = 0, dflt_state = 0, dflt_retry = 0, db_calls = 0,
      db_fails = (\<lambda>_. None)\<rparr>"

lemma one_row_db:
  assumes "wf_File (job_File j)"
  shows "wf_db (one_row_db inst st j)" "db_healthy (one_row_db inst st j)"
    "table_view \<lparr>instance_id = inst\<rparr> (one_row_db inst st j) =
       [job_ID j \<mapsto> \<lparr>e_state = st, e_mine = True, e_job = j\<rparr>]"
proof -
  let ?r = "hd (rows (one_row_db inst st j))"
  have sc: "scan_job ?r = Inr j"
    using scan_written [OF assms, of ?r "job_Config j"] by (simp add: one_row_db_def)
  then show "wf_db (one_row_db inst st j)"
    by (cases st) (simp_all add: wf_db_def wf_row_def one_row_db_def)
  show "db_healthy (one_row_db inst st j)" by (simp add: db_healthy_def one_row_db_def)
  show "table_view \<lparr>instance_id = inst\<rparr> (one_row_db inst st j) =
       [job_ID j \<mapsto> \<lparr>e_state = st, e_mine = True, e_job = j\<rparr>]"
    using sc by (cases st) (simp_all add: fun_eq_iff table_view_def row_at_def one_row_db_def entry_of_def)
qed

section \<open>What callers get\<close>

text \<open>
  Two fetches in a row never hand out the same job, whatever their types and limits: the first
  returns distinct idle jobs of this instance and type, with the attempt count they had, and
  leaves them active with the attempt counted.
\<close>

theorem fetch_hands_out_once:
  assumes "wf_db d" and "Fetch s n ty d = (Inr js, d1)" and "Fetch s m ty' d1 = (Inr ks, d2)"
  shows "job_ID ` set js \<inter> job_ID ` set ks = {} \<and> distinct (List.map job_ID js) \<and>
    (\<forall>j \<in> set js. \<exists>e. table_view s d (job_ID j) = Some e \<and> ready_entry ty e \<and> e_job e = j \<and>
       table_view s d1 (job_ID j) = Some (mark_active e))"
proof -
  have f: "op_Fetch (sql_ops s) n ty d = (Inr js, d1)" "op_Fetch (sql_ops s) m ty' d1 = (Inr ks, d2)"
    using assms(2,3) by (simp_all add: sql_ops_def)
  from sql.fetch_law [OF assms(1) f(1)] sql.fetch_exclusive [OF assms(1) f] show ?thesis by fastforce
qed

definition waiting_job :: Job where
  "waiting_job = \<lparr>job_ID = 4, job_Type = ''upload'', job_File = sample_File, job_Config = Some (), job_Retry = 0\<rparr>"

lemma waiting_job_wf: "wf_File (job_File waiting_job)"
  by (simp add: waiting_job_def wf_File_def sample_File_def in_i64_def)

theorem fetch_hands_out_once_witness:
  "\<exists>js d1 ks d2. Fetch \<lparr>instance_id = ''1''\<rparr> 3 ''upload'' (one_row_db ''1'' JobIdle waiting_job) = (Inr js, d1) \<and>
     Fetch \<lparr>instance_id = ''1''\<rparr> 3 ''upload'' d1 = (Inr ks, d2) \<and> job_ID ` set js \<inter> job_ID ` set ks = {}"
proof -
  let ?d = "one_row_db ''1'' JobIdle waiting_job" and ?s = "\<lparr>instance_id = ''1''\<rparr>"
  have d: "wf_db ?d" "db_healthy ?d" using one_row_db [OF waiting_job_wf, of "''1''" JobIdle] by simp_all
  obtain js d1 where f1: "Fetch ?s 3 ''upload'' ?d = (Inr js, d1)"
    using healthy_Fetch [OF d, of 3 ?s "''upload''"] by (auto simp: sql_ops_def fst_def split: prod.splits)
  have d1: "wf_db d1" "db_healthy d1"
    using sql.fetch_law [of ?d ?s 3 "''upload''" js d1] healthy_preserved(5) [OF d(2), of ?s 3 "''upload''"] d f1
    by (simp_all add: sql_ops_def)
  obtain ks d2 where f2: "Fetch ?s 3 ''upload'' d1 = (Inr ks, d2)"
    using healthy_Fetch [OF d1, of 3 ?s "''upload''"] by (auto simp: sql_ops_def fst_def split: prod.splits)
  from fetch_hands_out_once [OF d(1) f1 f2] f1 f2 show ?thesis by blast
qed

text \<open>The job taken is never younger than one left waiting.\<close>

lemma sorted_take_drop:
  "sorted (List.map k xs) \<Longrightarrow> x \<in> set (take n xs) \<Longrightarrow> y \<in> set (drop n xs) \<Longrightarrow> k x \<le> k y"
proof -
  assume s: "sorted (List.map k xs)" and xy: "x \<in> set (take n xs)" "y \<in> set (drop n xs)"
  from s have "sorted (List.map k (take n xs) @ List.map k (drop n xs))"
    by (simp add: map_append [symmetric] del: map_append)
  with xy show "k x \<le> k y" by (auto simp: sorted_append)
qed

lemma fetch_select_oldest:
  assumes "r \<in> set (fetch_select inst ty n rs)" and "q \<in> set rs" "fetchable inst ty q"
    and "q \<notin> set (fetch_select inst ty n rs)"
  shows "r_created_at r \<le> r_created_at q"
proof -
  let ?s = "sort_key r_created_at (filter (fetchable inst ty) rs)"
  have "q \<in> set ?s" using assms(2,3) by simp
  then have "q \<in> set (take n ?s) \<union> set (drop n ?s)"
    by (metis append_take_drop_id set_append)
  with assms(4) have "q \<in> set (drop n ?s)" by (simp add: fetch_select_def)
  with sorted_take_drop [of r_created_at ?s r n q] assms(1) show ?thesis by (simp add: fetch_select_def)
qed

text \<open>
  A file written to the table by Create is read back by a Fetch with a large enough limit as
  the same file, configuration and type, with no attempt counted: encoding to JSON, the SQL
  statements and scanning lose nothing.
\<close>

theorem created_job_comes_back:
  assumes "wf_db d" and "wf_File f" and "Create s ty cfg f d = (None, d1)"
    and "Fetch s n ty d1 = (Inr js, d2)" and "int (length (rows d)) + 1 < n"
  shows "\<exists>j \<in> set js. job_Type j = ty \<and> job_File j = f \<and> job_Config j = cfg \<and> job_Retry j = 0"
proof -
  have o1: "op_Create (sql_ops s) ty cfg f d = (None, d1)" and o2: "op_Fetch (sql_ops s) n ty d1 = (Inr js, d2)"
    using assms(3,4) by (simp_all add: sql_ops_def)
  note C = sql.create_law [OF assms(1,2) o1, simplified]
  then have d1: "wf_db d1" by simp
  from C obtain i where v: "table_view s d1 = (table_view s d)(i \<mapsto> \<lparr>e_state = JobIdle, e_mine = True,
      e_job = \<lparr>job_ID = i, job_Type = ty, job_File = f, job_Config = cfg, job_Retry = 0\<rparr>\<rparr>)"
    by blast
  note F = sql.fetch_law [OF d1 o2]
  have len: "length (rows d1) = Suc (length (rows d))"
    using assms(3) by (auto simp: Create_def db_Exec_def Let_def split: option.splits)
  have "job_ID ` set js \<subseteq> r_id ` set (rows d1)" using F dom_table_view [of s d1] by fastforce
  then have "card (job_ID ` set js) \<le> length (rows d1)"
    by (meson List.finite_set card_image_le card_length card_mono finite_imageI le_trans)
  then have "length js \<le> length (rows d1)" using F distinct_card [of "List.map job_ID js"] by simp
  with len assms(5) have "int (length js) < n" by simp
  with F v have "i \<in> job_ID ` set js" by (auto simp: ready_entry_def)
  then obtain j where j: "j \<in> set js" "job_ID j = i" by blast
  with F obtain e where "table_view s d1 i = Some e" "e_job e = j" by blast
  with v have "job_Type j = ty \<and> job_File j = f \<and> job_Config j = cfg \<and> job_Retry j = 0" by auto
  then show ?thesis by (intro bexI [OF _ j(1)]) simp
qed

definition empty_db :: db where
  "empty_db = \<lparr>rows = [], next_id = 1, db_now = 0, dflt_state = 0, dflt_retry = 0, db_calls = 0,
     db_fails = (\<lambda>_. None)\<rparr>"

theorem created_job_comes_back_witness:
  "\<exists>d1 js d2. Create \<lparr>instance_id = ''1''\<rparr> ''upload'' (Some ()) sample_File empty_db = (None, d1) \<and>
     Fetch \<lparr>instance_id = ''1''\<rparr> 12 ''upload'' d1 = (Inr js, d2) \<and> (\<exists>j \<in> set js. job_File j = sample_File)"
proof -
  let ?s = "\<lparr>instance_id = ''1''\<rparr>"
  have d: "wf_db empty_db" "db_healthy empty_db" by (simp_all add: wf_db_def db_healthy_def empty_db_def)
  have f: "wf_File sample_File" using waiting_job_wf by (simp add: waiting_job_def)
  obtain d1 where c: "Create ?s ''upload'' (Some ()) sample_File empty_db = (None, d1)"
    by (simp add: Create_def db_Exec_def empty_db_def Let_def)
  have d1: "wf_db d1" "db_healthy d1"
    using sql.create_law [OF d(1) f, of ?s "''upload''" "Some ()" None d1]
      healthy_preserved(4) [OF d(2), of ?s "''upload''" "Some ()" sample_File] c by (auto simp: sql_ops_def)
  obtain js d2 where f2: "Fetch ?s 12 ''upload'' d1 = (Inr js, d2)"
    using healthy_Fetch [OF d1, of 12 ?s "''upload''"] by (auto simp: sql_ops_def fst_def split: prod.splits)
  from created_job_comes_back [OF d(1) f c f2] c f2 show ?thesis by (auto simp: empty_db_def)
qed

lemma Reset_wf:
  assumes "wf_db d"
  shows "wf_db (snd (Reset s d))"
proof -
  have "wf_db (update_rows (\<lambda>r. r_instance r = instance_id s) (\<lambda>r. r\<lparr>r_state := state_code JobIdle\<rparr>) d')"
    if "wf_db d'" for d'
    by (rule wf_update_rows [OF that]) (auto simp: wf_row_def scan_job_def)
  with assms show ?thesis
    by (auto simp: Reset_def db_Exec_def Let_def split: option.split)
qed

text \<open>
  C9. Every statement of the job store, failing or not, keeps the table well formed: distinct
  ids below the sequence, a known state in every row, and JSON columns that decode to a file
  and a configuration.
\<close>

theorem store_keeps_invariant:
  assumes "wf_db d" and "wf_File f" and "wf_File (job_File j)"
  shows "wf_db (snd (Create s ty cfg f d)) \<and> wf_db (snd (Update s st j d)) \<and>
    wf_db (snd (SetError s i err d)) \<and> wf_db (snd (Delete s i d)) \<and>
    wf_db (snd (Fetch s n ty d)) \<and> wf_db (snd (Reset s d))"
proof -
  have F: "wf_db (snd (Fetch s n ty d))"
  proof (cases "Fetch s n ty d")
    case (Pair r d')
    then have "op_Fetch (sql_ops s) n ty d = (r, d')" by (simp add: sql_ops_def)
    with sql.fetch_err_law [OF assms(1)] sql.fetch_law [OF assms(1)] Pair show ?thesis
      by (cases r) auto
  qed
  have ops: "op_Create (sql_ops s) = Create s" "op_Update (sql_ops s) = Update s"
    "op_SetError (sql_ops s) = SetError s" "op_Delete (sql_ops s) = Delete s"
    by (simp_all add: sql_ops_def)
  have "wf_db (snd (Create s ty cfg f d))"
    using sql.create_law [OF assms(1,2), of s ty cfg "fst (Create s ty cfg f d)" "snd (Create s ty cfg f d)"]
    by (simp add: ops)
  moreover have "wf_db (snd (Update s st j d))"
    using sql.update_law [OF assms(1,3), of s st "fst (Update s st j d)" "snd (Update s st j d)"] by (simp add: ops)
  moreover have "wf_db (snd (SetError s i err d))"
    using sql.set_error_law [OF assms(1), of s i err "fst (SetError s i err d)" "snd (SetError s i err d)"]
    by (simp add: ops)
  moreover have "wf_db (snd (Delete s i d))"
    using sql.delete_law [OF assms(1), of s i "fst (Delete s i d)" "snd (Delete s i d)"] by (simp add: ops)
  ultimately show ?thesis using F Reset_wf [OF assms(1)] by (intro conjI)
qed

theorem store_keeps_invariant_witness:
  "wf_db (snd (Create \<lparr>instance_id = ''1''\<rparr> ''upload'' None sample_File (one_row_db ''1'' JobIdle waiting_job)))"
  using store_keeps_invariant [OF one_row_db(1) [OF waiting_job_wf], of sample_File waiting_job] waiting_job_wf
  by (auto simp: waiting_job_def)

end
