(* ===== verification/Temp_Files.thy ===== *)
theory Temp_Files
  imports Model_Types
begin

text \<open>
  \<^verbatim>\<open>internal/service/temp.go\<close>: the directory of temporary recordings, over a file system that
  maps absolute paths to contents. Opening and removing may fail for reasons outside the
  program (permissions, a missing directory); which paths fail is part of the state.
\<close>

section \<open>The file system\<close>

record fs =
  files :: "string \<rightharpoonup> bytes"
  deny_open :: "string \<Rightarrow> bool"
  deny_remove :: "string \<Rightarrow> bool"

definition os_Remove :: "string \<Rightarrow> fs \<Rightarrow> go_error option \<times> fs" where
  "os_Remove p s =
     (if files s p = None then (Some (NotExist p), s)
      else if deny_remove s p then (Some (Errorf (''remove '' @ p)), s)
      else (None, s\<lparr>files := (files s)(p := None)\<rparr>))"

definition os_Open :: "string \<Rightarrow> fs \<Rightarrow> bytes res" where
  "os_Open p s =
     (case files s p of
        None \<Rightarrow> Inl (NotExist p)
      | Some bs \<Rightarrow> if deny_open s p then Inl (Errorf (''open '' @ p)) else Inr bs)"

text \<open>
  \<open>os.OpenFile\<close> with \<open>O_WRONLY|O_CREATE\<close>: no truncation, no exclusive creation. A writer is
  a path and an offset; writing replaces the bytes under it and extends the file.
\<close>

record writer =
  wr_path :: string
  wr_off :: nat

definition os_OpenFile :: "string \<Rightarrow> fs \<Rightarrow> writer res \<times> fs" where
  "os_OpenFile p s =
     (if deny_open s p then (Inl (Errorf (''open '' @ p)), s)
      else (Inr \<lparr>wr_path = p, wr_off = 0\<rparr>,
            (case files s p of None \<Rightarrow> s\<lparr>files := (files s)(p \<mapsto> [])\<rparr> | Some _ \<Rightarrow> s)))"

definition file_Write :: "writer \<Rightarrow> bytes \<Rightarrow> fs \<Rightarrow> writer \<times> fs" where
  "file_Write w bs s =
     (w\<lparr>wr_off := wr_off w + length bs\<rparr>,
      (case files s (wr_path w) of
         None \<Rightarrow> s
       | Some old \<Rightarrow>
           s\<lparr>files := (files s)(wr_path w \<mapsto>
               take (wr_off w) old @ bs @ drop (wr_off w + length bs) old)\<rparr>))"

section \<open>TempFileService\<close>

record TempFileService =
  dir :: string

text \<open>
  The constructor: \<open>os.Stat\<close>, \<open>os.MkdirAll\<close> and \<open>filepath.Abs\<close> of the configured directory
  are the environment's answers.
\<close>

definition NewTempFileService ::
  "go_error option \<Rightarrow> go_error option \<Rightarrow> string res \<Rightarrow> TempFileService outcome" where
  "NewTempFileService stat mkdir absdir =
     (let missing = (\<exists>p. stat = Some (NotExist p))
      in if missing \<and> mkdir \<noteq> None then Panics ''mkdir''
         else (case absdir of Inl e \<Rightarrow> Panics ''abs'' | Inr d \<Rightarrow> Returns \<lparr>dir = d\<rparr>))"

fun remove_tracks :: "MediaChannel list \<Rightarrow> go_error option \<Rightarrow> fs \<Rightarrow> go_error option \<times> fs" where
  "remove_tracks [] err s = (err, s)"
| "remove_tracks (t # ts) err s =
     (case os_Remove (ch_Path t) s of (e, s') \<Rightarrow> remove_tracks ts e s')"

definition empty_path_err :: go_error where
  "empty_path_err = Errorf ''file path is empty''"

definition DeleteFile :: "File \<Rightarrow> fs \<Rightarrow> go_error option \<times> fs" where
  "DeleteFile file s =
     (if Track file = [] then (Some empty_path_err, s)
      else
        (case remove_tracks (Track file) None s of
           (err, s1) \<Rightarrow> if Path file \<noteq> [] then os_Remove (Path file) s1 else (err, s1)))"

definition NewReader :: "File \<Rightarrow> fs \<Rightarrow> bytes res" where
  "NewReader file s = os_Open (Path file) s"

text \<open>\<open>NewFilePath\<close> and \<open>NewWriter\<close> draw a fresh name; it is an argument here.\<close>

definition NewFilePath :: "TempFileService \<Rightarrow> string \<Rightarrow> File \<Rightarrow> string \<Rightarrow> File res" where
  "NewFilePath svc newid file ext =
     (if Path file \<noteq> [] then Inl (Errorf ''file path is no empty'')
      else
        (let name = (if ext \<noteq> [] then newid @ ''.'' @ ext else newid)
         in Inr (file\<lparr>Path := path_Join [dir svc, name]\<rparr>)))"

text \<open>Go returns the file through the pointer even when opening it fails.\<close>

definition NewWriter ::
  "TempFileService \<Rightarrow> string \<Rightarrow> File \<Rightarrow> string \<Rightarrow> fs \<Rightarrow> writer res \<times> File \<times> fs" where
  "NewWriter svc newid file ext s =
     (case NewFilePath svc newid file ext of
        Inl e \<Rightarrow> (Inl e, file, s)
      | Inr file' \<Rightarrow> (case os_OpenFile (Path file') s of (w, s') \<Rightarrow> (w, file', s')))"

section \<open>Lemmas\<close>

lemma os_Remove_frame [go_frame, simp]:
  "deny_open (snd (os_Remove p s)) = deny_open s"
  "deny_remove (snd (os_Remove p s)) = deny_remove s"
  by (simp_all add: os_Remove_def)

lemma os_Remove_files:
  "files (snd (os_Remove p s)) q = (if q = p \<and> \<not> deny_remove s p then None else files s q)"
  by (auto simp: os_Remove_def)

lemma remove_tracks_frame [go_frame, simp]:
  "deny_open (snd (remove_tracks ts e s)) = deny_open s"
  "deny_remove (snd (remove_tracks ts e s)) = deny_remove s"
  by (induction ts arbitrary: e s) (auto simp: os_Remove_def)

lemma remove_tracks_files:
  "files (snd (remove_tracks ts e s)) q =
     (if q \<in> ch_Path ` set ts \<and> \<not> deny_remove s q then None else files s q)"
  by (induction ts arbitrary: e s) (auto simp: os_Remove_def)

definition file_paths :: "File \<Rightarrow> string set" where
  "file_paths f = ch_Path ` set (Track f) \<union> (if Path f = [] then {} else {Path f})"

lemma DeleteFile_frame [go_frame, simp]:
  "deny_open (snd (DeleteFile f s)) = deny_open s"
  "deny_remove (snd (DeleteFile f s)) = deny_remove s"
proof -
  obtain e s1 where r: "remove_tracks (Track f) None s = (e, s1)" by fastforce
  with remove_tracks_frame [of "Track f" None s]
  have "deny_open s1 = deny_open s" "deny_remove s1 = deny_remove s" by simp_all
  with r show "deny_open (snd (DeleteFile f s)) = deny_open s"
    "deny_remove (snd (DeleteFile f s)) = deny_remove s"
    by (simp_all add: DeleteFile_def)
qed

lemma DeleteFile_no_tracks: "Track f = [] \<Longrightarrow> DeleteFile f s = (Some empty_path_err, s)"
  by (simp add: DeleteFile_def)

lemma DeleteFile_removes:
  assumes "Track f \<noteq> []"
  shows "files (snd (DeleteFile f s)) q =
     (if q \<in> file_paths f \<and> \<not> deny_remove s q then None else files s q)"
proof -
  obtain e s1 where r: "remove_tracks (Track f) None s = (e, s1)" by fastforce
  have f1: "files s1 q = (if q \<in> ch_Path ` set (Track f) \<and> \<not> deny_remove s q then None else files s q)"
    for q using remove_tracks_files [of "Track f" None s q] by (simp add: r)
  have d: "deny_remove s1 = deny_remove s"
    using remove_tracks_frame(2) [of "Track f" None s] by (simp add: r)
  show ?thesis
    using assms by (auto simp: DeleteFile_def r f1 d file_paths_def os_Remove_files)
qed

text \<open>
  With at least one track, DeleteFile removes exactly the files of the tracks and the file's
  own path that can be removed, and touches no other file.
\<close>

theorem DeleteFile_files:
  assumes "Track f \<noteq> []"
  shows "files (snd (DeleteFile f s)) q =
     (if q \<in> file_paths f \<and> \<not> deny_remove s q then None else files s q)"
  using assms by (rule DeleteFile_removes)

theorem DeleteFile_files_witness:
  "Track sample_File \<noteq> [] \<and>
   files (snd (DeleteFile sample_File
     \<lparr>files = [''/t/a.raw'' \<mapsto> [1], ''/t/b'' \<mapsto> [2]], deny_open = (\<lambda>_. False), deny_remove = (\<lambda>_. False)\<rparr>))
     ''/t/a.raw'' = None"
proof -
  have h: "Track sample_File \<noteq> []" by (simp add: sample_File_def)
  show ?thesis
    using h DeleteFile_files [OF h, of "\<lparr>files = [''/t/a.raw'' \<mapsto> [1], ''/t/b'' \<mapsto> [2]],
       deny_open = (\<lambda>_. False), deny_remove = (\<lambda>_. False)\<rparr>" "''/t/a.raw''"]
    by (simp add: file_paths_def sample_File_def)
qed

text \<open>
  The error returned is that of the last removal alone: it says whether the last path is
  gone, and nothing about the paths before it.
\<close>

definition last_path :: "File \<Rightarrow> string" where
  "last_path f = (if Path f \<noteq> [] then Path f else ch_Path (last (Track f)))"

lemma remove_tracks_snoc:
  "remove_tracks (ts @ [t]) e s = os_Remove (ch_Path t) (snd (remove_tracks ts e s))"
proof (induction ts arbitrary: e s)
  case (Cons u ts)
  obtain e' s' where "os_Remove (ch_Path u) s = (e', s')" by fastforce
  with Cons.IH show ?case by simp
qed (simp split: prod.split)

lemma os_Remove_None_iff:
  "fst (os_Remove p s) = None \<longleftrightarrow> files s p \<noteq> None \<and> \<not> deny_remove s p"
  by (auto simp: os_Remove_def)

lemma DeleteFile_last:
  assumes "Track f \<noteq> []"
  shows "\<exists>s1. DeleteFile f s = os_Remove (last_path f) s1"
proof (cases "Path f = []")
  case True
  from assms obtain ts t where ts: "Track f = ts @ [t]" by (metis append_butlast_last_id)
  with True show ?thesis
    by (intro exI [of _ "snd (remove_tracks ts None s)"])
       (simp add: DeleteFile_def last_path_def remove_tracks_snoc split: prod.split)
next
  case False
  with assms show ?thesis
    by (intro exI [of _ "snd (remove_tracks (Track f) None s)"])
       (simp add: DeleteFile_def last_path_def split: prod.split)
qed

lemma DeleteFile_ok_removed_last:
  assumes "fst (DeleteFile f s) = None"
  shows "files (snd (DeleteFile f s)) (last_path f) = None"
proof -
  from assms have "Track f \<noteq> []" by (auto simp: DeleteFile_def)
  then obtain s1 where "DeleteFile f s = os_Remove (last_path f) s1"
    using DeleteFile_last by blast
  with assms show ?thesis by (auto simp: os_Remove_files os_Remove_None_iff)
qed

definition stuck_fs :: fs where
  "stuck_fs = \<lparr>files = [''/t/a'' \<mapsto> [1], ''/t/b'' \<mapsto> [2]], deny_open = (\<lambda>_. False),
     deny_remove = (\<lambda>p. p = ''/t/a'')\<rparr>"

definition two_track_File :: File where
  "two_track_File = sample_File\<lparr>Track :=
     [\<lparr>ch_Path = ''/t/a'', ch_MimeType = ''video/VP9'', FirstRtpTs = 0, LastRtpTs = 0\<rparr>,
      \<lparr>ch_Path = ''/t/b'', ch_MimeType = ''audio/opus'', FirstRtpTs = 0, LastRtpTs = 0\<rparr>]\<rparr>"

text \<open>
  DeleteFile returns the last error only: with a track that cannot be removed before one that
  can, it reports success and the first file is still there.
\<close>

theorem DeleteFile_hides_earlier_errors:
  "fst (DeleteFile two_track_File stuck_fs) = None \<and>
   files (snd (DeleteFile two_track_File stuck_fs)) ''/t/a'' = Some [1]"
  by (simp add: DeleteFile_def two_track_File_def sample_File_def stuck_fs_def os_Remove_def)

section \<open>Fresh files\<close>

lemma NewFilePath_once: "Path file \<noteq> [] \<Longrightarrow> \<not> is_ok (NewFilePath svc n file ext)"
  by (simp add: NewFilePath_def)

lemma NewFilePath_path:
  assumes "Path file = []" "list_all plain_name ps" "plain_name (newid @ ''.'' @ ext)" "ext \<noteq> []"
  shows "NewFilePath \<lparr>dir = abs_dir ps\<rparr> newid file ext =
     Inr (file\<lparr>Path := abs_dir (ps @ [newid @ ''.'' @ ext])\<rparr>)"
  using assms path_Join_abs [OF assms(2,3)] by (simp add: NewFilePath_def)

lemma abs_dir_inj: "abs_dir (ps @ [m]) = abs_dir (ps @ [n]) \<Longrightarrow> m = n"
  using Join_inj_last by (simp add: abs_dir_def)

text \<open>
  A new writer's file lies directly under the temporary directory under its own name, exists
  afterwards, and opening it changes no other file; another name gives another path.
\<close>

theorem NewWriter_fresh:
  assumes "Path file = []" and "list_all plain_name ps" and "ext \<noteq> []"
    and "plain_name (n @ ''.'' @ ext)"
    and "NewWriter \<lparr>dir = abs_dir ps\<rparr> n file ext s = (Inr w, file', s')"
  shows "Path file' = wr_path w \<and> wr_path w = abs_dir (ps @ [n @ ''.'' @ ext]) \<and>
     files s' (wr_path w) \<noteq> None \<and>
     (\<forall>q. q \<noteq> wr_path w \<longrightarrow> files s' q = files s q) \<and>
     (\<forall>m. m \<noteq> n @ ''.'' @ ext \<longrightarrow> abs_dir (ps @ [m]) \<noteq> wr_path w)"
  using assms(5) NewFilePath_path [OF assms(1,2,4,3)] abs_dir_inj
  by (auto simp: NewWriter_def os_OpenFile_def split: if_splits option.splits)

theorem NewWriter_fresh_witness:
  "\<exists>w file' s'. NewWriter \<lparr>dir = abs_dir [''tmp'']\<rparr> ''id1'' (sample_File\<lparr>Path := []\<rparr>) ''raw'' stuck_fs
       = (Inr w, file', s') \<and> Path file' = wr_path w \<and> files s' ''/t/a'' = Some [1]"
proof -
  let ?f = "sample_File\<lparr>Path := []\<rparr>"
  have p: "list_all plain_name [''tmp'']" "plain_name (''id1'' @ ''.'' @ ''raw'')"
    by (simp_all add: plain_name_def)
  have path: "path_Join [abs_dir [''tmp''], ''id1.raw''] = ''/tmp/id1.raw''"
    using path_Join_abs [OF p] by (simp add: abs_dir_def)
  obtain w f' s' where
    e: "NewWriter \<lparr>dir = abs_dir [''tmp'']\<rparr> ''id1'' ?f ''raw'' stuck_fs = (Inr w, f', s')"
    by (simp add: NewWriter_def NewFilePath_def os_OpenFile_def path stuck_fs_def sample_File_def)
  have w: "Path f' = wr_path w \<and> wr_path w = abs_dir ([''tmp''] @ [''id1'' @ ''.'' @ ''raw'']) \<and>
     files s' (wr_path w) \<noteq> None \<and>
     (\<forall>q. q \<noteq> wr_path w \<longrightarrow> files s' q = files stuck_fs q) \<and>
     (\<forall>m. m \<noteq> ''id1'' @ ''.'' @ ''raw'' \<longrightarrow> abs_dir ([''tmp''] @ [m]) \<noteq> wr_path w)"
    by (rule NewWriter_fresh [OF _ p(1) _ p(2) e]) (simp_all add: sample_File_def)
  then have "files s' ''/t/a'' = files stuck_fs ''/t/a''" by (simp add: abs_dir_def)
  with e w show ?thesis by (auto simp: stuck_fs_def)
qed

lemma file_Write_appends:
  assumes "files s (wr_path w) = Some old" and "wr_off w = length old"
  shows "files (snd (file_Write w bs s)) (wr_path w) = Some (old @ bs) \<and>
     wr_off (fst (file_Write w bs s)) = length (old @ bs)"
  using assms by (simp add: file_Write_def)

end
