(* ===== verification/Job_Handler.thy ===== *)
theory Job_Handler
  imports Job_Store Temp_Files
begin

text \<open>
  \<^verbatim>\<open>internal/service/job.go\<close>: what the uploader and the transcoder share. A handler works on
  the temporary files and, through the \<open>FileJobStore\<close> interface, on the job table; logging is
  left out. The client lemmas are proved from the laws of the interface alone.
\<close>

record 'd world =
  w_fs :: fs
  w_db :: 'd

definition cleanup :: "'d JobStoreOps \<Rightarrow> Job \<Rightarrow> 'd world \<Rightarrow> 'd world" where
  "cleanup ops j w =
     (let fs' = snd (DeleteFile (job_File j) (w_fs w));
          db' = snd (op_Delete ops (job_ID j) (w_db w))
      in w\<lparr>w_fs := fs', w_db := db'\<rparr>)"

definition errorJob :: "'d JobStoreOps \<Rightarrow> Job \<Rightarrow> int \<Rightarrow> go_error \<Rightarrow> 'd world \<Rightarrow> 'd world" where
  "errorJob ops j maxRetry err w =
     (if job_Retry j \<ge> maxRetry then cleanup ops j w
      else w\<lparr>w_db := snd (op_SetError ops (job_ID j) err (w_db w))\<rparr>)"

text \<open>
  One tick of \<open>listen\<close>, the same in both services: the fetched jobs with their attempt counted,
  as they are handed to the pool; a failed fetch hands over nothing.
\<close>

definition listen_tick :: "'d JobStoreOps \<Rightarrow> int \<Rightarrow> string \<Rightarrow> 'd \<Rightarrow> Job list \<times> 'd" where
  "listen_tick ops limit ty d =
     (case op_Fetch ops limit ty d of
        (Inl _, d') \<Rightarrow> ([], d')
      | (Inr js, d') \<Rightarrow> (List.map (\<lambda>j. j\<lparr>job_Retry := job_Retry j + 1\<rparr>) js, d'))"

text \<open>A tick whose jobs are then executed one after the other.\<close>

definition service_round ::
  "(Job \<Rightarrow> 'd world \<Rightarrow> 'd world) \<Rightarrow> 'd JobStoreOps \<Rightarrow> int \<Rightarrow> string \<Rightarrow> 'd world \<Rightarrow> 'd world" where
  "service_round exec ops limit ty w =
     (case listen_tick ops limit ty (w_db w) of
        (js, d') \<Rightarrow> fold exec js (w\<lparr>w_db := d'\<rparr>))"

text \<open>The attempts of the jobs of one type stay within the limit.\<close>

definition attempts_ok :: "string \<Rightarrow> int \<Rightarrow> job_table \<Rightarrow> bool" where
  "attempts_ok ty maxRetry t \<longleftrightarrow>
     (\<forall>i e. t i = Some e \<longrightarrow> job_Type (e_job e) = ty \<longrightarrow>
        job_Retry (e_job e) \<le> maxRetry \<and>
        (e_state e = JobIdle \<longrightarrow> job_Retry (e_job e) < maxRetry))"

text \<open>What an executor may do with the job it was given: settle it in one of three ways.\<close>

definition job_settled :: "string \<Rightarrow> int \<Rightarrow> Job \<Rightarrow> job_table \<Rightarrow> job_table \<Rightarrow> bool" where
  "job_settled ty maxRetry j t t' \<longleftrightarrow>
     (\<forall>i. i \<noteq> job_ID j \<longrightarrow> t' i = t i) \<and>
     (case t' (job_ID j) of
        None \<Rightarrow> True
      | Some e \<Rightarrow> e_state e = JobIdle \<and>
          (job_Type (e_job e) = ty \<longrightarrow> e_job e = j \<and> job_Retry j < maxRetry))"

text \<open>No own job of the type is running; each was attempted at least \<open>k\<close> times.\<close>

definition at_rest :: "string \<Rightarrow> job_table \<Rightarrow> bool" where
  "at_rest ty t \<longleftrightarrow>
     (\<forall>i e. t i = Some e \<longrightarrow> e_mine e \<longrightarrow> job_Type (e_job e) = ty \<longrightarrow> e_state e = JobIdle)"

definition attempted :: "string \<Rightarrow> int \<Rightarrow> job_table \<Rightarrow> bool" where
  "attempted ty k t \<longleftrightarrow>
     (\<forall>i e. t i = Some e \<longrightarrow> e_mine e \<longrightarrow> job_Type (e_job e) = ty \<longrightarrow> k \<le> job_Retry (e_job e))"

lemma attempts_ok_settled:
  assumes "attempts_ok ty m t" and "job_settled ty m j t t'"
  shows "attempts_ok ty m t'"
  unfolding attempts_ok_def
proof (intro allI impI)
  fix i e assume e: "t' i = Some e" "job_Type (e_job e) = ty"
  show "job_Retry (e_job e) \<le> m \<and> (e_state e = JobIdle \<longrightarrow> job_Retry (e_job e) < m)"
  proof (cases "i = job_ID j")
    case True
    with e assms(2) show ?thesis by (auto simp: job_settled_def)
  next
    case False
    with e assms show ?thesis by (auto simp: job_settled_def attempts_ok_def)
  qed
qed

context file_job_store
begin

lemma cleanup_law:
  assumes "inv (w_db w)"
  shows "inv (w_db (cleanup ops j w)) \<and>
    view (w_db (cleanup ops j w)) =
      (if fst (op_Delete ops (job_ID j) (w_db w)) = None
       then (view (w_db w))(job_ID j := None) else view (w_db w)) \<and>
    w_fs (cleanup ops j w) = snd (DeleteFile (job_File j) (w_fs w))"
proof -
  obtain e d' where "op_Delete ops (job_ID j) (w_db w) = (e, d')" by fastforce
  with delete_law [OF assms this] show ?thesis
    by (cases e) (simp_all add: cleanup_def Let_def)
qed

lemma errorJob_law:
  assumes "inv (w_db w)"
    and "fst (op_Delete ops (job_ID j) (w_db w)) = None"
    and "fst (op_SetError ops (job_ID j) err (w_db w)) = None"
  shows "inv (w_db (errorJob ops j m err w)) \<and>
    view (w_db (errorJob ops j m err w)) =
      (if m \<le> job_Retry j then (view (w_db w))(job_ID j := None)
       else (view (w_db w))(job_ID j :=
         map_option (\<lambda>x. x\<lparr>e_state := JobIdle\<rparr>) (view (w_db w) (job_ID j)))) \<and>
    w_fs (errorJob ops j m err w) =
      (if m \<le> job_Retry j then snd (DeleteFile (job_File j) (w_fs w)) else w_fs w)"
proof (cases "m \<le> job_Retry j")
  case True
  then show ?thesis using cleanup_law [OF assms(1), of j] assms(2) by (simp add: errorJob_def)
next
  case False
  obtain e d' where s: "op_SetError ops (job_ID j) err (w_db w) = (e, d')" by fastforce
  with assms(3) have "e = None" by simp
  with False s set_error_law [OF assms(1) s] show ?thesis by (simp add: errorJob_def)
qed

lemma errorJob_settles:
  assumes "inv (w_db w)"
    and "fst (op_Delete ops (job_ID j) (w_db w)) = None"
    and "fst (op_SetError ops (job_ID j) err (w_db w)) = None"
    and "view (w_db w) (job_ID j) = Some e" and "e_job e = j"
  shows "job_settled ty m j (view (w_db w)) (view (w_db (errorJob ops j m err w)))"
  using errorJob_law [OF assms(1-3), of m] assms(4,5) by (auto simp: job_settled_def)

lemma cleanup_settles:
  assumes "inv (w_db w)" and "fst (op_Delete ops (job_ID j) (w_db w)) = None"
  shows "job_settled ty m j (view (w_db w)) (view (w_db (cleanup ops j w)))"
  using cleanup_law [OF assms(1), of j] assms(2) by (auto simp: job_settled_def)

lemma listen_tick_law:
  assumes "inv d" and "listen_tick ops n ty d = (js, d')"
  shows "inv d' \<and> distinct (List.map job_ID js) \<and>
    (\<forall>j \<in> set js. \<exists>e. view d' (job_ID j) = Some e \<and> e_state e = JobActive \<and> e_mine e \<and>
       e_job e = j \<and> job_Type j = ty) \<and>
    (\<forall>i. i \<notin> job_ID ` set js \<longrightarrow> view d' i = view d i) \<and>
    (\<forall>j \<in> set js. \<exists>e. view d (job_ID j) = Some e \<and> ready_entry ty e \<and>
       j = (e_job e)\<lparr>job_Retry := job_Retry (e_job e) + 1\<rparr>)"
proof -
  obtain r d1 where f: "op_Fetch ops n ty d = (r, d1)" by fastforce
  show ?thesis
  proof (cases r)
    case (Inl err)
    with f fetch_err_law [OF assms(1)] assms(2) show ?thesis by (auto simp: listen_tick_def)
  next
    case (Inr ks)
    have f': "op_Fetch ops n ty d = (Inr ks, d1)" using f Inr by simp
    note law = fetch_law [OF assms(1) f']
    have js: "js = List.map (\<lambda>j. j\<lparr>job_Retry := job_Retry j + 1\<rparr>) ks" and d': "d' = d1"
      using assms(2) f' by (simp_all add: listen_tick_def)
    have ids: "List.map job_ID js = List.map job_ID ks" by (simp add: js)
    have idset: "job_ID ` set js = job_ID ` set ks" using arg_cong [OF ids, of set] by simp
    have a: "\<exists>e. view d' (job_ID j) = Some e \<and> e_state e = JobActive \<and> e_mine e \<and>
        e_job e = j \<and> job_Type j = ty" if "j \<in> set js" for j
    proof -
      from that js obtain k where k: "k \<in> set ks" "j = k\<lparr>job_Retry := job_Retry k + 1\<rparr>" by auto
      with fetched_is_active [OF assms(1) f' k(1)] law d' show ?thesis
        by (auto simp: ready_entry_def)
    qed
    have b: "\<exists>e. view d (job_ID j) = Some e \<and> ready_entry ty e \<and>
        j = (e_job e)\<lparr>job_Retry := job_Retry (e_job e) + 1\<rparr>" if "j \<in> set js" for j
    proof -
      from that js obtain k where k: "k \<in> set ks" "j = k\<lparr>job_Retry := job_Retry k + 1\<rparr>" by auto
      with law obtain e where "view d (job_ID k) = Some e" "ready_entry ty e" "e_job e = k" by blast
      with k show ?thesis by auto
    qed
    have c: "view d' i = view d i" if "i \<notin> job_ID ` set js" for i
      using fetch_only_marks [OF assms(1) f'] that idset d' by simp
    show ?thesis
      using law a b c d' by (intro conjI ballI allI impI) (simp_all add: ids)
  qed
qed

lemma listen_tick_length:
  assumes "inv d" and "listen_tick ops n ty d = (js, d')"
  shows "int (length js) \<le> max 0 n"
proof -
  obtain r d1 where f: "op_Fetch ops n ty d = (r, d1)" by fastforce
  show ?thesis
  proof (cases r)
    case (Inr ks)
    with f fetch_law [OF assms(1), of n ty ks d1] have "int (length ks) \<le> n" by blast
    with f Inr assms(2) show ?thesis by (auto simp: listen_tick_def)
  qed (use f assms(2) in \<open>auto simp: listen_tick_def\<close>)
qed

text \<open>A tick with a single job to fetch.\<close>

lemma listen_tick_single:
  assumes "inv d" "view d i = Some e" "ready_entry ty e" "1 < n"
    and "\<forall>k x. view d k = Some x \<longrightarrow> ready_entry ty x \<longrightarrow> k = i"
    and "\<exists>js. fst (op_Fetch ops n ty d) = Inr js"
  shows "\<exists>d'. listen_tick ops n ty d = ([(e_job e)\<lparr>job_Retry := job_Retry (e_job e) + 1\<rparr>], d') \<and>
    inv d' \<and> view d' = (view d)(i \<mapsto> mark_active e)"
proof -
  obtain js d' where f: "op_Fetch ops n ty d = (Inr js, d')" using assms(6) by (metis prod.collapse)
  note F = fetch_law [OF assms(1) f]
  from F assms(5) have ids: "job_ID ` set js \<subseteq> {i}" by blast
  have "length js \<le> 1" using F distinct_card [of "List.map job_ID js"] card_mono [OF _ ids] by simp
  with F assms(2-4) have i: "i \<in> job_ID ` set js" by auto
  with \<open>length js \<le> 1\<close> obtain j where j: "js = [j]" by (cases js) auto
  with i F assms(2) have "j = e_job e" by auto
  moreover have "view d' = (view d)(i \<mapsto> mark_active e)"
  proof
    fix k
    have "view d' k = (if k \<in> job_ID ` set js then map_option mark_active (view d k) else view d k)"
      using F by blast
    then show "view d' k = ((view d)(i \<mapsto> mark_active e)) k" using i ids assms(2) by auto
  qed
  ultimately show ?thesis using F by (simp add: listen_tick_def f j)
qed

lemma listen_tick_attempts:
  assumes "inv d" and "listen_tick ops n ty d = (js, d')" and "attempts_ok ty m (view d)"
  shows "attempts_ok ty m (view d')"
  unfolding attempts_ok_def
proof (intro allI impI)
  fix i e assume e: "view d' i = Some e" "job_Type (e_job e) = ty"
  note law = listen_tick_law [OF assms(1,2)]
  show "job_Retry (e_job e) \<le> m \<and> (e_state e = JobIdle \<longrightarrow> job_Retry (e_job e) < m)"
  proof (cases "i \<in> job_ID ` set js")
    case True
    then obtain j where j: "j \<in> set js" "i = job_ID j" by blast
    with law e obtain e0 where
      e0: "view d i = Some e0" "ready_entry ty e0" "j = (e_job e0)\<lparr>job_Retry := job_Retry (e_job e0) + 1\<rparr>"
      and act: "e_state e = JobActive" "e_job e = j"
      by (metis option.inject)
    then have "job_Retry (e_job e0) < m"
      using assms(3) by (auto simp: attempts_ok_def ready_entry_def)
    with e0 act show ?thesis by simp
  next
    case False
    with law e assms(3) show ?thesis by (auto simp: attempts_ok_def)
  qed
qed

text \<open>
  A round keeps the attempt bound for any executor that keeps the invariant of the store and
  settles the job it is given.
\<close>

lemma fold_settling:
  assumes exec: "\<And>j w. \<lbrakk>inv (w_db w); P w; view (w_db w) (job_ID j) = Some
        \<lparr>e_state = JobActive, e_mine = True, e_job = j\<rparr>\<rbrakk> \<Longrightarrow>
        inv (w_db (exec j w)) \<and> P (exec j w) \<and>
        job_settled ty m j (view (w_db w)) (view (w_db (exec j w)))"
  shows "\<lbrakk>inv (w_db w); P w; distinct (List.map job_ID js); attempts_ok ty m (view (w_db w));
     \<forall>j \<in> set js. view (w_db w) (job_ID j) = Some \<lparr>e_state = JobActive, e_mine = True, e_job = j\<rparr>\<rbrakk> \<Longrightarrow>
     inv (w_db (fold exec js w)) \<and> P (fold exec js w) \<and>
     attempts_ok ty m (view (w_db (fold exec js w))) \<and>
     (\<forall>j \<in> set js. \<forall>e. view (w_db (fold exec js w)) (job_ID j) = Some e \<longrightarrow>
        e_state e = JobIdle \<and> (job_Type (e_job e) = ty \<longrightarrow> e_job e = j)) \<and>
     (\<forall>i. i \<notin> job_ID ` set js \<longrightarrow> view (w_db (fold exec js w)) i = view (w_db w) i)"
proof (induction js arbitrary: w)
  case Nil
  then show ?case by simp
next
  case (Cons j js)
  let ?w = "exec j w"
  let ?v = "view (w_db (fold exec js ?w))"
  have s: "inv (w_db ?w)" "P ?w" "job_settled ty m j (view (w_db w)) (view (w_db ?w))"
    using exec [of w j] Cons.prems by simp_all
  have other: "view (w_db ?w) i = view (w_db w) i" if "i \<noteq> job_ID j" for i
    using s(3) that by (simp add: job_settled_def)
  have rest: "\<forall>k \<in> set js. view (w_db ?w) (job_ID k) =
      Some \<lparr>e_state = JobActive, e_mine = True, e_job = k\<rparr>"
    using Cons.prems(3,5) other by (auto simp: image_iff)
  have IH: "inv (w_db (fold exec js ?w)) \<and> P (fold exec js ?w) \<and> attempts_ok ty m ?v \<and>
     (\<forall>k \<in> set js. \<forall>e. ?v (job_ID k) = Some e \<longrightarrow>
        e_state e = JobIdle \<and> (job_Type (e_job e) = ty \<longrightarrow> e_job e = k)) \<and>
     (\<forall>i. i \<notin> job_ID ` set js \<longrightarrow> ?v i = view (w_db ?w) i)"
    using Cons.IH [OF s(1,2) _ attempts_ok_settled [OF Cons.prems(4) s(3)] rest] Cons.prems(3)
    by simp
  have keep: "?v (job_ID j) = view (w_db ?w) (job_ID j)" using IH Cons.prems(3) by simp
  have mine: "e_state e = JobIdle \<and> (job_Type (e_job e) = ty \<longrightarrow> e_job e = j)"
    if e: "?v (job_ID j) = Some e" for e
  proof -
    from e keep have "view (w_db ?w) (job_ID j) = Some e" by simp
    with s(3) show ?thesis by (simp add: job_settled_def)
  qed
  show ?case using IH mine other by auto
qed

text \<open>
  A round over a table in which no own job of the type is running. When the limit exceeds the
  number of jobs, every own job of the type is attempted once more.
\<close>

lemma service_round_law:
  assumes exec: "\<And>j w. \<lbrakk>inv (w_db w); P w; view (w_db w) (job_ID j) = Some
        \<lparr>e_state = JobActive, e_mine = True, e_job = j\<rparr>\<rbrakk> \<Longrightarrow>
        inv (w_db (exec j w)) \<and> P (exec j w) \<and>
        job_settled ty m j (view (w_db w)) (view (w_db (exec j w)))"
    and tick: "\<And>w js d'. \<lbrakk>P w; listen_tick ops n ty (w_db w) = (js, d')\<rbrakk> \<Longrightarrow> P (w\<lparr>w_db := d'\<rparr>)"
    and "inv (w_db w)" and "P w" and "attempts_ok ty m (view (w_db w))"
    and idle: "at_rest ty (view (w_db w))"
    and w': "w' = service_round exec ops n ty w"
  shows "inv (w_db w') \<and> P w' \<and> attempts_ok ty m (view (w_db w')) \<and> at_rest ty (view (w_db w'))"
    and "\<lbrakk>\<exists>js. fst (op_Fetch ops n ty (w_db w)) = Inr js; finite (dom (view (w_db w)));
          int (card (dom (view (w_db w)))) < n; attempted ty k (view (w_db w))\<rbrakk> \<Longrightarrow>
       attempted ty (k + 1) (view (w_db w')) \<and> dom (view (w_db w')) \<subseteq> dom (view (w_db w))"
proof -
  obtain js d' where t: "listen_tick ops n ty (w_db w) = (js, d')" by fastforce
  note law = listen_tick_law [OF assms(3) t]
  let ?w = "w\<lparr>w_db := d'\<rparr>"
  have w1: "w' = fold exec js ?w" by (simp add: w' service_round_def t)
  have act: "\<forall>j \<in> set js. view (w_db ?w) (job_ID j) =
      Some \<lparr>e_state = JobActive, e_mine = True, e_job = j\<rparr>"
  proof
    fix j assume "j \<in> set js"
    with law obtain e where "view d' (job_ID j) = Some e" "e_state e = JobActive" "e_mine e" "e_job e = j"
      by blast
    then show "view (w_db ?w) (job_ID j) = Some \<lparr>e_state = JobActive, e_mine = True, e_job = j\<rparr>"
      by simp
  qed
  have at: "attempts_ok ty m (view (w_db ?w))"
    using listen_tick_attempts [OF assms(3) t assms(5)] by simp
  have f: "inv (w_db w') \<and> P w' \<and> attempts_ok ty m (view (w_db w')) \<and>
     (\<forall>j \<in> set js. \<forall>e. view (w_db w') (job_ID j) = Some e \<longrightarrow>
        e_state e = JobIdle \<and> (job_Type (e_job e) = ty \<longrightarrow> e_job e = j)) \<and>
     (\<forall>i. i \<notin> job_ID ` set js \<longrightarrow> view (w_db w') i = view (w_db ?w) i)"
    unfolding w1
    by (rule fold_settling [OF exec]) (use law tick [OF assms(4) t] at act in simp_all)
  have same: "view (w_db w') i = view (w_db w) i" if "i \<notin> job_ID ` set js" for i
    using f law that by simp
  have "e_state e = JobIdle"
    if "view (w_db w') i = Some e" "e_mine e" "job_Type (e_job e) = ty" for i e
  proof (cases "i \<in> job_ID ` set js")
    case True
    with f that show ?thesis by blast
  next
    case False
    with same that idle show ?thesis by (simp add: at_rest_def)
  qed
  with f show "inv (w_db w') \<and> P w' \<and> attempts_ok ty m (view (w_db w')) \<and> at_rest ty (view (w_db w'))"
    by (simp add: at_rest_def)
  assume ok: "\<exists>js. fst (op_Fetch ops n ty (w_db w)) = Inr js" and fin: "finite (dom (view (w_db w)))"
    and lim: "int (card (dom (view (w_db w)))) < n" and k: "attempted ty k (view (w_db w))"
  from ok obtain ks d1 where fe: "op_Fetch ops n ty (w_db w) = (Inr ks, d1)" by (metis surjective_pairing)
  note fl = fetch_law [OF assms(3) fe]
  have ids: "job_ID ` set js = job_ID ` set ks"
    using t fe by (auto simp: listen_tick_def image_image)
  have sub: "job_ID ` set ks \<subseteq> dom (view (w_db w))" using fl by fastforce
  have "length ks = card (job_ID ` set ks)" using fl distinct_card [of "List.map job_ID ks"] by simp
  also have "\<dots> \<le> card (dom (view (w_db w)))" by (rule card_mono [OF fin sub])
  finally have "int (length ks) < n" using lim by linarith
  with fl have all: "\<forall>i e. view (w_db w) i = Some e \<longrightarrow> ready_entry ty e \<longrightarrow> i \<in> job_ID ` set ks"
    by blast
  have att: "k + 1 \<le> job_Retry (e_job e)"
    if e: "view (w_db w') i = Some e" "e_mine e" "job_Type (e_job e) = ty" for i e
  proof (cases "i \<in> job_ID ` set js")
    case True
    then obtain j where j: "j \<in> set js" "i = job_ID j" by blast
    with f e have ej: "e_job e = j" by blast
    from law j obtain e0 where "view (w_db w) i = Some e0" "ready_entry ty e0"
      "j = (e_job e0)\<lparr>job_Retry := job_Retry (e_job e0) + 1\<rparr>" by blast
    with k ej show ?thesis by (auto simp: attempted_def ready_entry_def)
  next
    case False
    with same e have "view (w_db w) i = Some e" by simp
    moreover from this idle e have "ready_entry ty e" by (auto simp: at_rest_def ready_entry_def)
    ultimately show ?thesis using all False ids by blast
  qed
  have "dom (view (w_db w')) \<subseteq> dom (view (w_db w))"
  proof
    fix i assume "i \<in> dom (view (w_db w'))"
    with same sub ids show "i \<in> dom (view (w_db w))" by (cases "i \<in> job_ID ` set js") auto
  qed
  with att show "attempted ty (k + 1) (view (w_db w')) \<and> dom (view (w_db w')) \<subseteq> dom (view (w_db w))"
    by (simp add: attempted_def)
qed

text \<open>As many rounds as the attempt limit leave no own job of the type behind.\<close>

lemma rounds_drain:
  assumes exec: "\<And>j w. \<lbrakk>inv (w_db w); P w; view (w_db w) (job_ID j) = Some
        \<lparr>e_state = JobActive, e_mine = True, e_job = j\<rparr>\<rbrakk> \<Longrightarrow>
        inv (w_db (exec j w)) \<and> P (exec j w) \<and>
        job_settled ty m j (view (w_db w)) (view (w_db (exec j w)))"
    and tick: "\<And>w js d'. \<lbrakk>P w; listen_tick ops n ty (w_db w) = (js, d')\<rbrakk> \<Longrightarrow> P (w\<lparr>w_db := d'\<rparr>)"
    and ok: "\<And>w. inv (w_db w) \<Longrightarrow> P w \<Longrightarrow> \<exists>js. fst (op_Fetch ops n ty (w_db w)) = Inr js"
    and "inv (w_db w)" "P w" "attempts_ok ty m (view (w_db w))" "at_rest ty (view (w_db w))"
    and "finite (dom (view (w_db w)))" "int (card (dom (view (w_db w)))) < n"
    and "attempted ty 0 (view (w_db w))"
  shows "inv (w_db ((service_round exec ops n ty ^^ k) w)) \<and> P ((service_round exec ops n ty ^^ k) w) \<and>
    attempts_ok ty m (view (w_db ((service_round exec ops n ty ^^ k) w))) \<and>
    at_rest ty (view (w_db ((service_round exec ops n ty ^^ k) w))) \<and>
    attempted ty (int k) (view (w_db ((service_round exec ops n ty ^^ k) w))) \<and>
    dom (view (w_db ((service_round exec ops n ty ^^ k) w))) \<subseteq> dom (view (w_db w))"
proof (induction k)
  case 0
  with assms show ?case by simp
next
  case (Suc k)
  let ?w = "(service_round exec ops n ty ^^ k) w"
  have dom: "dom (view (w_db ?w)) \<subseteq> dom (view (w_db w))" using Suc by blast
  have i: "inv (w_db ?w)" and p: "P ?w" and a: "attempts_ok ty m (view (w_db ?w))"
    and r: "at_rest ty (view (w_db ?w))" and t: "attempted ty (int k) (view (w_db ?w))"
    using Suc by blast+
  have fin: "finite (dom (view (w_db ?w)))" using finite_subset [OF dom assms(8)] .
  have lim: "int (card (dom (view (w_db ?w)))) < n" using card_mono [OF assms(8) dom] assms(9) by linarith
  note s = service_round_law [OF exec tick i p a r refl]
  have s1: "attempted ty (int k + 1) (view (w_db (service_round exec ops n ty ?w))) \<and>
      dom (view (w_db (service_round exec ops n ty ?w))) \<subseteq> dom (view (w_db ?w))"
    by (rule s(2) [OF _ _ _ _ _ ok [OF i p] fin lim t]) assumption+
  have s2: "inv (w_db (service_round exec ops n ty ?w)) \<and> P (service_round exec ops n ty ?w) \<and>
     attempts_ok ty m (view (w_db (service_round exec ops n ty ?w))) \<and>
     at_rest ty (view (w_db (service_round exec ops n ty ?w)))"
    by (rule s(1)) assumption+
  have eq: "(service_round exec ops n ty ^^ Suc k) w = service_round exec ops n ty ?w"
    and k: "int (Suc k) = int k + 1" by simp_all
  from s1 s2 order_trans [OF conjunct2 [OF s1] dom] show ?case unfolding eq k by (intro conjI) simp_all
qed

lemma drained:
  assumes "attempts_ok ty m t" "at_rest ty t" "attempted ty m t" "t i = Some e" "e_mine e"
  shows "job_Type (e_job e) \<noteq> ty"
  using assms by (fastforce simp: attempts_ok_def at_rest_def attempted_def)

end

end
