(* ===== verification/Uploader.thy ===== *)
theory Uploader
  imports Job_Handler
begin

text \<open>
  \<^verbatim>\<open>internal/service/uploader.go\<close>: sending a finished recording to the storage service over a
  client stream. The storage service is outside the repository: whether the stream opens and
  the outcome of each \<open>Send\<close> are fields of an environment record, as is the outcome of each
  read of the local file (\<open>None\<close> is a read without a fault).
\<close>

definition UploadJobName :: string where "UploadJobName = ''upload''"

record upload_meta =
  um_DomainId :: int
  um_Name :: string
  um_MimeType :: string
  um_Uuid :: string
  um_CreatedAt :: int
  um_StreamResponse :: bool
  um_Channel :: int
  um_GenerateThumbnail :: bool
  um_UploadedBy :: int
  um_Properties :: "(int \<times> int) option"

datatype upload_msg = Metadata upload_meta | Chunk bytes | CloseSend

record upload_env =
  up_open :: "go_error option"
  up_send :: "nat \<Rightarrow> go_error option"
  up_read :: "nat \<Rightarrow> go_error option"

text \<open>An enum of protobuf is an \<open>int32\<close>: the conversion keeps the low 32 bits.\<close>

definition to_i32 :: "int \<Rightarrow> int" where
  "to_i32 x = signed_take_bit 31 x"

definition metadata_of :: "File \<Rightarrow> upload_meta" where
  "metadata_of f =
     \<lparr>um_DomainId = DomainID f, um_Name = Name f, um_MimeType = MimeType f, um_Uuid = UUID f,
      um_CreatedAt = CreatedAt f, um_StreamResponse = False, um_Channel = to_i32 (Channel f),
      um_GenerateThumbnail = True, um_UploadedBy = UploadedBy f,
      um_Properties = (if StartTime f > 0 then Some (StartTime f, EndTime f) else None)\<rparr>"

definition buf_size :: nat where "buf_size = 262144"

text \<open>
  The loop: the \<open>k\<close>-th read fills at most the buffer. A fault gives no bytes; its error is kept
  unless it is \<open>io.EOF\<close>, the stream is half-closed and the loop ends. At the end of the file
  the read gives no bytes and \<open>io.EOF\<close>. Otherwise the chunk is sent, and the loop ends with
  the first failing \<open>Send\<close>. The metadata was send number 0.
\<close>

function upload_loop :: "upload_env \<Rightarrow> nat \<Rightarrow> bytes \<Rightarrow> upload_msg list \<times> go_error option" where
  "upload_loop env k rest =
     (case up_read env k of
        Some e \<Rightarrow> ([CloseSend], if e = EOF then None else Some e)
      | None \<Rightarrow>
          if rest = [] then ([CloseSend], None)
          else
            (case up_send env (Suc k) of
               Some e \<Rightarrow> ([], Some e)
             | None \<Rightarrow>
                 (case upload_loop env (Suc k) (drop buf_size rest) of
                    (ms, e) \<Rightarrow> (Chunk (take buf_size rest) # ms, e))))"
  by pat_completeness auto
termination
  by (relation "measure (\<lambda>(env, k, rest). length rest)") (auto simp: buf_size_def)

declare upload_loop.simps [simp del]

text \<open>\<open>Execute\<close> up to the deferred function: the messages sent and the final \<open>err\<close>.\<close>

definition upload_file :: "upload_env \<Rightarrow> File \<Rightarrow> fs \<Rightarrow> upload_msg list \<times> go_error option" where
  "upload_file env f s =
     (case NewReader f s of
        Inl e \<Rightarrow> ([], Some e)
      | Inr content \<Rightarrow>
          (case up_open env of
             Some e \<Rightarrow> ([], Some e)
           | None \<Rightarrow>
               (case up_send env 0 of
                  Some e \<Rightarrow> ([], Some e)
                | None \<Rightarrow>
                    (case upload_loop env 0 content of
                       (ms, e) \<Rightarrow> (Metadata (metadata_of f) # ms, e)))))"

definition Upload_Execute ::
  "'d JobStoreOps \<Rightarrow> int \<Rightarrow> upload_env \<Rightarrow> Job \<Rightarrow> 'd world \<Rightarrow> upload_msg list \<times> 'd world" where
  "Upload_Execute ops maxRetry env j w =
     (case upload_file env (job_File j) (w_fs w) of
        (ms, Some err) \<Rightarrow> (ms, errorJob ops j maxRetry err w)
      | (ms, None) \<Rightarrow> (ms, cleanup ops j w))"

text \<open>\<open>NewUploader\<close>: how many jobs a tick asks for.\<close>

definition uploader_limit :: "int \<Rightarrow> int \<Rightarrow> int" where
  "uploader_limit queue workers = i64 (queue + workers)"

section \<open>What is sent\<close>

fun chunk_bytes :: "upload_msg \<Rightarrow> bytes" where
  "chunk_bytes (Chunk bs) = bs"
| "chunk_bytes _ = []"

fun is_chunk :: "upload_msg \<Rightarrow> bool" where
  "is_chunk (Chunk _) = True"
| "is_chunk _ = False"

lemma ceil_step:
  assumes "rest \<noteq> []"
  shows "Suc ((length rest - buf_size + buf_size - 1) div buf_size) =
    (length rest + buf_size - 1) div buf_size"
proof (cases "length rest \<le> 262144")
  case True
  with assms have "(length rest + 262144 - 1) div 262144 = 1"
    by (intro div_nat_eqI) (cases rest; simp)+
  with True show ?thesis by (simp add: buf_size_def)
next
  case False
  then obtain n where "length rest = 262144 + n" using le_Suc_ex [of 262144 "length rest"] by auto
  then show ?thesis by (simp add: buf_size_def)
qed

lemma upload_loop_complete:
  assumes "\<And>k. up_read env k = None" and "\<And>k. up_send env k = None"
  shows "\<exists>cs. upload_loop env k rest = (cs @ [CloseSend], None) \<and> list_all is_chunk cs \<and>
     concat (List.map chunk_bytes cs) = rest \<and>
     (\<forall>c \<in> set cs. chunk_bytes c \<noteq> [] \<and> length (chunk_bytes c) \<le> buf_size) \<and>
     length cs = (length rest + buf_size - 1) div buf_size"
  using assms
proof (induction env k rest rule: upload_loop.induct)
  case (1 env k rest)
  show ?case
  proof (cases "rest = []")
    case True
    with 1 show ?thesis by (simp add: upload_loop.simps [of env k] buf_size_def)
  next
    case False
    from 1 False obtain cs where IH:
      "upload_loop env (Suc k) (drop buf_size rest) = (cs @ [CloseSend], None)"
      "list_all is_chunk cs" "concat (List.map chunk_bytes cs) = drop buf_size rest"
      "\<forall>c \<in> set cs. chunk_bytes c \<noteq> [] \<and> length (chunk_bytes c) \<le> buf_size"
      "length cs = (length (drop buf_size rest) + buf_size - 1) div buf_size"
      by fastforce
    have "upload_loop env k rest = ((Chunk (take buf_size rest) # cs) @ [CloseSend], None)"
      using 1 False IH(1) by (simp add: upload_loop.simps [of env k])
    moreover have "Suc (length cs) = (length rest + buf_size - 1) div buf_size"
      unfolding IH(5) length_drop by (rule ceil_step [OF False])
    moreover have "take buf_size rest \<noteq> []" using False by (simp add: buf_size_def)
    ultimately show ?thesis using IH(2-4)
      by (intro exI [of _ "Chunk (take buf_size rest) # cs"]) (auto simp: buf_size_def)
  qed
qed

text \<open>Whatever fails, what was sent is a prefix of the file's bytes.\<close>

lemma upload_loop_prefix:
  "prefix (concat (List.map chunk_bytes (fst (upload_loop env k rest)))) rest"
proof (induction env k rest rule: upload_loop.induct)
  case (1 env k rest)
  show ?case
  proof (cases "up_read env k \<noteq> None \<or> rest = [] \<or> up_send env (Suc k) \<noteq> None")
    case True
    then show ?thesis by (auto simp: upload_loop.simps [of env k] split: option.splits)
  next
    case False
    with 1 have "prefix (concat (List.map chunk_bytes (fst (upload_loop env (Suc k) (drop buf_size rest)))))
        (drop buf_size rest)" by auto
    then obtain t where t: "drop buf_size rest =
        concat (List.map chunk_bytes (fst (upload_loop env (Suc k) (drop buf_size rest)))) @ t"
      by (auto simp: prefix_def)
    have "rest = take buf_size rest @ drop buf_size rest" by simp
    also note t
    finally show ?thesis using False
      by (auto simp: upload_loop.simps [of env k] prefix_def split: prod.splits)
  qed
qed

lemma upload_file_complete:
  assumes "NewReader f s = Inr content" and "up_open env = None"
    and "\<And>k. up_send env k = None" and "\<And>k. up_read env k = None"
  shows "\<exists>cs. upload_file env f s = (Metadata (metadata_of f) # cs @ [CloseSend], None) \<and>
     list_all is_chunk cs \<and> concat (List.map chunk_bytes cs) = content \<and>
     (\<forall>c \<in> set cs. chunk_bytes c \<noteq> [] \<and> length (chunk_bytes c) \<le> 262144) \<and>
     length cs = (length content + 262143) div 262144"
proof -
  obtain cs where "upload_loop env 0 content = (cs @ [CloseSend], None)" "list_all is_chunk cs"
    "concat (List.map chunk_bytes cs) = content"
    "\<forall>c \<in> set cs. chunk_bytes c \<noteq> [] \<and> length (chunk_bytes c) \<le> buf_size"
    "length cs = (length content + buf_size - 1) div buf_size"
    using upload_loop_complete [OF assms(4,3)] by blast
  with assms show ?thesis
    by (intro exI [of _ cs]) (simp add: upload_file_def buf_size_def)
qed

text \<open>
  C12. When no call fails, an upload sends the metadata, then the file in order in non-empty
  chunks of at most 256 KiB whose concatenation is the file and whose number is the size
  divided by 256 KiB, rounded up, and then half-closes.
\<close>

theorem upload_sends_whole_file:
  assumes "NewReader f s = Inr content" and "up_open env = None"
    and "\<And>k. up_send env k = None" and "\<And>k. up_read env k = None"
  shows "\<exists>cs. upload_file env f s = (Metadata (metadata_of f) # cs @ [CloseSend], None) \<and>
     list_all is_chunk cs \<and> concat (List.map chunk_bytes cs) = content \<and>
     (\<forall>c \<in> set cs. chunk_bytes c \<noteq> [] \<and> length (chunk_bytes c) \<le> 262144) \<and>
     length cs = (length content + 262143) div 262144"
  by (rule upload_file_complete [OF assms])

definition good_upload :: upload_env where
  "good_upload = \<lparr>up_open = None, up_send = (\<lambda>_. None), up_read = (\<lambda>_. None)\<rparr>"

theorem upload_sends_whole_file_witness:
  "\<exists>cs. upload_file good_upload (sample_File\<lparr>Path := ''/t/b''\<rparr>) stuck_fs =
     (Metadata (metadata_of (sample_File\<lparr>Path := ''/t/b''\<rparr>)) # cs @ [CloseSend], None) \<and>
     concat (List.map chunk_bytes cs) = [2] \<and> length cs = 1"
proof -
  have r: "NewReader (sample_File\<lparr>Path := ''/t/b''\<rparr>) stuck_fs = Inr [2]"
    by (simp add: NewReader_def os_Open_def stuck_fs_def)
  show ?thesis
    using upload_sends_whole_file [OF r, of good_upload] by (auto simp: good_upload_def)
qed

text \<open>The success path never looks at the server's answer: half-closing ends it.\<close>

lemma upload_file_success_shape:
  "upload_file env f s = (ms, None) \<Longrightarrow> ms \<noteq> [] \<and> hd ms = Metadata (metadata_of f) \<and> last ms = CloseSend"
proof -
  have l: "snd (upload_loop env k rest) = None \<Longrightarrow>
      fst (upload_loop env k rest) \<noteq> [] \<and> last (fst (upload_loop env k rest)) = CloseSend" for k rest
  proof (induction env k rest rule: upload_loop.induct)
    case (1 env k rest)
    show ?case
    proof (cases "up_read env k \<noteq> None \<or> rest = [] \<or> up_send env (Suc k) \<noteq> None")
      case True
      with 1 show ?thesis
        by (auto simp: upload_loop.simps [of env k] split: option.splits if_splits)
    next
      case False
      with 1 show ?thesis
        by (auto simp: upload_loop.simps [of env k] split: prod.splits if_splits)
    qed
  qed
  assume "upload_file env f s = (ms, None)"
  with l show ?thesis
    by (auto simp: upload_file_def split: sum.splits option.splits prod.splits)
      (metis fst_conv snd_conv)+
qed

section \<open>The job afterwards\<close>

lemma Upload_Execute_db:
  "w_db (snd (Upload_Execute ops m env j w)) =
     w_db (case snd (upload_file env (job_File j) (w_fs w)) of
             Some err \<Rightarrow> errorJob ops j m err w | None \<Rightarrow> cleanup ops j w)"
  by (simp add: Upload_Execute_def split: prod.split option.split)

lemma handlers_healthy [go_frame, simp]:
  assumes "db_healthy (w_db w)"
  shows "db_healthy (w_db (cleanup (sql_ops s) j w))"
    "db_healthy (w_db (errorJob (sql_ops s) j m err w))"
  using assms by (simp_all add: cleanup_def errorJob_def Let_def)

lemma tick_healthy:
  assumes "db_healthy d" and "listen_tick (sql_ops s) n ty d = (js, d')"
  shows "db_healthy d'"
proof -
  obtain r d1 where f: "op_Fetch (sql_ops s) n ty d = (r, d1)" by fastforce
  with healthy_preserved(5) [OF assms(1), of s n ty] have "db_healthy d1" by simp
  with assms(2) f show ?thesis by (cases r) (auto simp: listen_tick_def)
qed

lemma upload_outcome:
  assumes "wf_db (w_db w)" and "db_healthy (w_db w)"
    and "table_view s (w_db w) (job_ID j) = Some e"
    and "upload_file env (job_File j) (w_fs w) = (ms, err)"
    and "Upload_Execute (sql_ops s) m env j w = (sent, w')"
  shows "sent = ms \<and>
    (if err = None \<or> m \<le> job_Retry j
     then table_view s (w_db w') = (table_view s (w_db w))(job_ID j := None) \<and>
          w_fs w' = snd (DeleteFile (job_File j) (w_fs w))
     else table_view s (w_db w') = (table_view s (w_db w))(job_ID j \<mapsto> e\<lparr>e_state := JobIdle\<rparr>) \<and>
          w_fs w' = w_fs w)"
proof (cases err)
  case None
  with assms sql.cleanup_law [OF assms(1), of s j] show ?thesis by (auto simp: Upload_Execute_def)
next
  case (Some x)
  with assms sql.errorJob_law [OF assms(1), of s j x m] show ?thesis
    by (auto simp: Upload_Execute_def)
qed


lemma upload_exec_settles:
  assumes "wf_db (w_db w)" and "db_healthy (w_db w)"
    and "table_view s (w_db w) (job_ID j) = Some \<lparr>e_state = JobActive, e_mine = True, e_job = j\<rparr>"
  shows "wf_db (w_db (snd (Upload_Execute (sql_ops s) m env j w))) \<and>
    db_healthy (w_db (snd (Upload_Execute (sql_ops s) m env j w))) \<and>
    job_settled ty m j (table_view s (w_db w))
      (table_view s (w_db (snd (Upload_Execute (sql_ops s) m env j w))))"
proof (cases "snd (upload_file env (job_File j) (w_fs w))")
  case None
  with assms sql.cleanup_settles [OF assms(1), of s j ty m] sql.cleanup_law [OF assms(1), of s j]
  show ?thesis unfolding Upload_Execute_db by simp
next
  case (Some err)
  have "job_settled ty m j (table_view s (w_db w)) (table_view s (w_db (errorJob (sql_ops s) j m err w)))"
    by (rule sql.errorJob_settles [OF assms(1) _ _ assms(3)]) (simp_all add: assms(2))
  with Some assms sql.errorJob_law [OF assms(1), of s j err m]
  show ?thesis unfolding Upload_Execute_db by simp
qed

definition sample_job :: "string \<Rightarrow> Job" where
  "sample_job ty = \<lparr>job_ID = 1, job_Type = ty, job_File = sample_File, job_Config = None, job_Retry = 0\<rparr>"

definition sample_world :: "string \<Rightarrow> db world" where
  "sample_world ty =
     \<lparr>w_fs = \<lparr>files = [''/t/a.raw'' \<mapsto> [1]], deny_open = (\<lambda>_. False), deny_remove = (\<lambda>_. False)\<rparr>,
      w_db = one_row_db ''n1'' JobIdle (sample_job ty)\<rparr>"

lemma wf_sample_File [simp]: "wf_File sample_File"
  by (simp add: wf_File_def sample_File_def in_i64_def)

lemma sample_world [simp]:
  "wf_db (w_db (sample_world ty))" "db_healthy (w_db (sample_world ty))"
  "table_view \<lparr>instance_id = ''n1''\<rparr> (w_db (sample_world ty)) =
     [1 \<mapsto> \<lparr>e_state = JobIdle, e_mine = True, e_job = sample_job ty\<rparr>]"
  using one_row_db [of "sample_job ty" "''n1''" JobIdle]
  by (simp_all add: sample_world_def sample_job_def)


text \<open>
  Polling: with a limit above the number of rows and a connection that holds, as many ticks as
  the attempt limit settle every upload job of this instance, whatever the uploads do.
\<close>

definition upload_round ::
  "FileJobStore \<Rightarrow> int \<Rightarrow> int \<Rightarrow> (Job \<Rightarrow> upload_env) \<Rightarrow> db world \<Rightarrow> db world" where
  "upload_round s limit m env =
     service_round (\<lambda>j w. snd (Upload_Execute (sql_ops s) m (env j) j w)) (sql_ops s) limit UploadJobName"

lemma sql_rounds_drain:
  assumes exec: "\<And>j w. \<lbrakk>wf_db (w_db w); db_healthy (w_db w); table_view s (w_db w) (job_ID j) = Some
        \<lparr>e_state = JobActive, e_mine = True, e_job = j\<rparr>\<rbrakk> \<Longrightarrow>
        wf_db (w_db (exec j w)) \<and> db_healthy (w_db (exec j w)) \<and>
        job_settled ty m j (table_view s (w_db w)) (table_view s (w_db (exec j w)))"
    and "wf_db (w_db w)" "db_healthy (w_db w)" "attempts_ok ty m (table_view s (w_db w))"
    and "at_rest ty (table_view s (w_db w))" "attempted ty 0 (table_view s (w_db w))"
    and "int (length (rows (w_db w))) < n" "0 \<le> m"
    and "table_view s (w_db ((service_round exec (sql_ops s) n ty ^^ nat m) w)) i = Some e"
    and "e_mine e"
  shows "job_Type (e_job e) \<noteq> ty"
proof -
  have card: "finite (dom (table_view s (w_db w)))" "int (card (dom (table_view s (w_db w)))) < n"
    using card_table_view [OF assms(2)] assms(7) by simp_all
  have n: "0 \<le> n" using assms(7) by linarith
  have "wf_db (w_db ((service_round exec (sql_ops s) n ty ^^ nat m) w)) \<and>
      db_healthy (w_db ((service_round exec (sql_ops s) n ty ^^ nat m) w)) \<and>
      attempts_ok ty m (table_view s (w_db ((service_round exec (sql_ops s) n ty ^^ nat m) w))) \<and>
      at_rest ty (table_view s (w_db ((service_round exec (sql_ops s) n ty ^^ nat m) w))) \<and>
      attempted ty (int (nat m)) (table_view s (w_db ((service_round exec (sql_ops s) n ty ^^ nat m) w))) \<and>
      dom (table_view s (w_db ((service_round exec (sql_ops s) n ty ^^ nat m) w))) \<subseteq> dom (table_view s (w_db w))"
    by (rule sql.rounds_drain [where P = "\<lambda>w. db_healthy (w_db w)", OF exec _ healthy_Fetch [OF _ _ n]])
       (use assms card tick_healthy in \<open>simp_all\<close>)
  then have "attempts_ok ty m (table_view s (w_db ((service_round exec (sql_ops s) n ty ^^ nat m) w)))"
    "at_rest ty (table_view s (w_db ((service_round exec (sql_ops s) n ty ^^ nat m) w)))"
    "attempted ty m (table_view s (w_db ((service_round exec (sql_ops s) n ty ^^ nat m) w)))"
    using assms(8) by simp_all
  then show ?thesis using assms(9,10) by (rule sql.drained)
qed

text \<open>
  With a fetch limit above the number of rows and a database that answers, as many ticks of
  the uploader as it has attempts leave no upload job of this instance behind, whatever
  storage and files do: every job is uploaded or given up.
\<close>

theorem uploads_drain:
  assumes "wf_db (w_db w)" "db_healthy (w_db w)"
    and "attempts_ok UploadJobName m (table_view s (w_db w))"
    and "at_rest UploadJobName (table_view s (w_db w))"
    and "attempted UploadJobName 0 (table_view s (w_db w))"
    and "int (length (rows (w_db w))) < n" "0 \<le> m"
    and "table_view s (w_db ((upload_round s n m env ^^ nat m) w)) i = Some e" and "e_mine e"
  shows "job_Type (e_job e) \<noteq> UploadJobName"
  by (rule sql_rounds_drain [OF upload_exec_settles assms(1-7) assms(8)[unfolded upload_round_def]
        assms(9)]) assumption+

theorem uploads_drain_witness:
  "\<not> (\<exists>e. table_view \<lparr>instance_id = ''n1''\<rparr> (w_db ((upload_round \<lparr>instance_id = ''n1''\<rparr> 5 3
       (\<lambda>_. good_upload) ^^ nat 3) (sample_world UploadJobName))) 1 = Some e \<and> e_mine e \<and>
     job_Type (e_job e) = UploadJobName)"
proof -
  have h: "attempts_ok UploadJobName 3 [1 \<mapsto> \<lparr>e_state = JobIdle, e_mine = True, e_job = sample_job UploadJobName\<rparr>]"
    "at_rest UploadJobName [1 \<mapsto> \<lparr>e_state = JobIdle, e_mine = True, e_job = sample_job UploadJobName\<rparr>]"
    "attempted UploadJobName 0 [1 \<mapsto> \<lparr>e_state = JobIdle, e_mine = True, e_job = sample_job UploadJobName\<rparr>]"
    by (simp_all add: attempts_ok_def at_rest_def attempted_def sample_job_def)
  have l: "int (length (rows (w_db (sample_world UploadJobName)))) < 5"
    by (simp add: sample_world_def one_row_db_def)
  show ?thesis
    using uploads_drain [of "sample_world UploadJobName" 3 "\<lparr>instance_id = ''n1''\<rparr>" 5 "\<lambda>_. good_upload" 1] h l
    by auto
qed

end
