(* ===== verification/Go_Time.thy ===== *)
theory Go_Time
  imports Go_Strings
begin

text \<open>
  \<open>time.Duration\<close> in nanoseconds and \<open>time.ParseDuration\<close>, which the media probe and the
  resolver use. The fraction of a number is scaled with exact integers where Go multiplies
  floating-point numbers; both agree for the fractions of at most nine digits that occur.
\<close>

definition Second :: int where "Second = 1000000000"
definition Millisecond :: int where "Millisecond = 1000000"

definition dur_err :: "string \<Rightarrow> go_error" where
  "dur_err s = Errorf (''time: invalid duration '' @ s)"

definition two63 :: nat where "two63 = 9223372036854775808"

text \<open>\<open>leadingInt\<close>: \<open>None\<close> is its overflow error.\<close>

fun leading_int :: "nat \<Rightarrow> string \<Rightarrow> nat option" where
  "leading_int x [] = Some x"
| "leading_int x (c # s) =
     (if x > two63 div 10 then None
      else if 10 * x + digit_val c > two63 then None
      else leading_int (10 * x + digit_val c) s)"

text \<open>\<open>leadingFraction\<close>: digits after an overflow are read and ignored.\<close>

fun leading_fraction :: "nat \<Rightarrow> nat \<Rightarrow> string \<Rightarrow> nat \<times> nat" where
  "leading_fraction x scale [] = (x, scale)"
| "leading_fraction x scale (c # s) =
     (if x > (two63 - 1) div 10 \<or> 10 * x + digit_val c > two63 then (x, scale)
      else leading_fraction (10 * x + digit_val c) (10 * scale) s)"

definition unit_ns :: "string \<Rightarrow> nat option" where
  "unit_ns u =
     (if u = ''ns'' then Some 1
      else if u = ''us'' \<or> u = [CHR 0xC2, CHR 0xB5, CHR ''s''] \<or> u = [CHR 0xCE, CHR 0xBC, CHR ''s'']
        then Some 1000
      else if u = ''ms'' then Some 1000000
      else if u = ''s'' then Some 1000000000
      else if u = ''m'' then Some 60000000000
      else if u = ''h'' then Some 3600000000000
      else None)"

definition num_start :: "char \<Rightarrow> bool" where
  "num_start c \<longleftrightarrow> is_digit c \<or> c = CHR ''.''"

text \<open>One \<open>number unit\<close> group: its value and the rest of the input.\<close>

definition dur_group :: "string \<Rightarrow> (nat \<times> string) option" where
  "dur_group s =
     (let ds = takeWhile is_digit s; s1 = dropWhile is_digit s;
          dot = (s1 \<noteq> [] \<and> hd s1 = CHR ''.'');
          fs = (if dot then takeWhile is_digit (tl s1) else []);
          s2 = (if dot then dropWhile is_digit (tl s1) else s1);
          u = takeWhile (\<lambda>c. \<not> num_start c) s2;
          rest = dropWhile (\<lambda>c. \<not> num_start c) s2
      in if s = [] \<or> \<not> num_start (hd s) \<or> (ds = [] \<and> fs = []) \<or> u = [] then None
         else
           (case (leading_int 0 ds, unit_ns u) of
              (Some v, Some k) \<Rightarrow>
                (if v > two63 div k then None
                 else
                   (case leading_fraction 0 1 fs of
                      (f, scale) \<Rightarrow>
                        (let v' = v * k + f * k div scale
                         in if v' > two63 then None else Some (v', rest))))
            | _ \<Rightarrow> None))"

lemma dur_group_shorter: "dur_group s = Some (v, rest) \<Longrightarrow> length rest < length s"
proof -
  assume g: "dur_group s = Some (v, rest)"
  let ?s1 = "dropWhile is_digit s"
  let ?s2 = "if ?s1 \<noteq> [] \<and> hd ?s1 = CHR ''.'' then dropWhile is_digit (tl ?s1) else ?s1"
  from g have rest: "rest = dropWhile (\<lambda>c. \<not> num_start c) ?s2"
    and u: "takeWhile (\<lambda>c. \<not> num_start c) ?s2 \<noteq> []"
    by (auto simp: dur_group_def Let_def split: if_splits option.splits prod.splits)
  have "length ?s2 = length (takeWhile (\<lambda>c. \<not> num_start c) ?s2) + length rest"
    unfolding rest by (metis length_append takeWhile_dropWhile_id)
  with u have "length rest < length ?s2" by simp
  moreover have "length ?s2 \<le> length s"
    using length_dropWhile_le [of is_digit s] length_dropWhile_le [of is_digit "tl ?s1"] by auto
  ultimately show ?thesis by simp
qed

function dur_sum :: "nat \<Rightarrow> string \<Rightarrow> nat option" where
  "dur_sum d s =
     (if s = [] then Some d
      else (case dur_group s of
              None \<Rightarrow> None
            | Some (v, rest) \<Rightarrow> if d + v > two63 then None else dur_sum (d + v) rest))"
  by pat_completeness auto
termination
  by (relation "measure (\<lambda>(d, s). length s)") (auto dest: dur_group_shorter)

declare dur_sum.simps [simp del]

definition ParseDuration :: "string \<Rightarrow> int res" where
  "ParseDuration orig =
     (let neg = (orig \<noteq> [] \<and> hd orig = CHR ''-'');
          signed = (orig \<noteq> [] \<and> (hd orig = CHR ''-'' \<or> hd orig = CHR ''+''));
          s = (if signed then tl orig else orig)
      in if s = ''0'' then Inr 0
         else if s = [] then Inl (dur_err orig)
         else
           (case dur_sum 0 s of
              None \<Rightarrow> Inl (dur_err orig)
            | Some d \<Rightarrow>
                (if neg then Inr (- int d)
                 else if d > two63 - 1 then Inl (dur_err orig) else Inr (int d))))"

definition Milliseconds :: "int \<Rightarrow> int" where
  "Milliseconds d = go_quot d Millisecond"

lemma le_mult_power10: "n \<le> n * 10 ^ k" for n k :: nat
  using mult_le_mono2 [of 1 "10 ^ k" n] by simp

lemma leading_int_small:
  "list_all is_digit s \<Longrightarrow> (x + 1) * 10 ^ length s \<le> 10 ^ 18 \<Longrightarrow> leading_int x s = Some (dec_acc x s)"
proof (induction s arbitrary: x)
  case (Cons c s)
  then have dv: "digit_val c < 10" using digit_val_less by simp
  then have "(10 * x + digit_val c + 1) * 10 ^ length s \<le> (10 * (x + 1)) * 10 ^ length s"
    by (intro mult_right_mono) auto
  also have "\<dots> \<le> 10 ^ 18" using Cons.prems by (simp add: algebra_simps)
  finally have b: "(10 * x + digit_val c + 1) * 10 ^ length s \<le> 10 ^ 18" .
  with le_mult_power10 [of "10 * x + digit_val c + 1" "length s"] have "10 * x + digit_val c < 10 ^ 18" by linarith
  with Cons b show ?case by (simp add: two63_def)
qed simp

lemma leading_fraction_small:
  "list_all is_digit s \<Longrightarrow> (x + 1) * 10 ^ length s \<le> 10 ^ 18 \<Longrightarrow>
   leading_fraction x sc s = (dec_acc x s, sc * 10 ^ length s)"
proof (induction s arbitrary: x sc)
  case (Cons c s)
  then have dv: "digit_val c < 10" using digit_val_less by simp
  then have "(10 * x + digit_val c + 1) * 10 ^ length s \<le> (10 * (x + 1)) * 10 ^ length s"
    by (intro mult_right_mono) auto
  also have "\<dots> \<le> 10 ^ 18" using Cons.prems by (simp add: algebra_simps)
  finally have b: "(10 * x + digit_val c + 1) * 10 ^ length s \<le> 10 ^ 18" .
  with le_mult_power10 [of "10 * x + digit_val c + 1" "length s"] have "10 * x + digit_val c < 10 ^ 18" by linarith
  with Cons b show ?case by (simp add: two63_def)
qed simp

text \<open>The three groups of \<open>HHhMMmSS.fs\<close>.\<close>

lemma dur_group_plain:
  assumes "list_all is_digit ds" "ds \<noteq> []" "length ds \<le> 4" "unit_ns [u] = Some k" "\<not> num_start u"
    and "k \<le> 3600000000000" and "0 < k" and "t = [] \<or> num_start (hd t)"
  shows "dur_group (ds @ u # t) = Some (dec_val ds * k, t)"
proof -
  have nd: "\<not> is_digit u" "u \<noteq> CHR ''.''" using assms(5) by (auto simp: num_start_def)
  have tk: "takeWhile is_digit (ds @ u # t) = ds" "dropWhile is_digit (ds @ u # t) = u # t"
    using assms(1) nd by (induction ds) auto
  have un: "takeWhile (\<lambda>c. \<not> num_start c) t = []" "dropWhile (\<lambda>c. \<not> num_start c) t = t"
    using assms(8) by (cases t; auto)+
  have hd: "num_start (hd (ds @ u # t))" using assms(1,2) by (cases ds) (auto simp: num_start_def)
  have small: "dec_val ds < 10 ^ 4"
    using dec_val_bound [OF assms(1)] assms(3) power_increasing [of "length ds" 4 "10::nat"] by linarith
  have "(10::nat) ^ length ds \<le> 10 ^ 4" using assms(3) by (intro power_increasing) auto
  then have li: "leading_int 0 ds = Some (dec_val ds)"
    using leading_int_small [OF assms(1), of 0] by (simp add: dec_val_def)
  have "dec_val ds * k \<le> 10 ^ 4 * 3600000000000" using small assms(6) by (intro mult_mono) auto
  then have b: "dec_val ds * k \<le> two63" by (simp add: two63_def)
  then have b2: "dec_val ds \<le> two63 div k" using assms(7) by (simp add: less_eq_div_iff_mult_less_eq)
  show ?thesis
    using nd hd assms(2,4,5) b b2 by (simp add: dur_group_def tk un li Let_def)
qed

lemma dur_group_frac:
  assumes "list_all is_digit ds" "ds \<noteq> []" "length ds \<le> 4" and "list_all is_digit fs"
    and "fs \<noteq> []" and "length fs \<le> 18"
  shows "dur_group (ds @ CHR ''.'' # fs @ ''s'') =
     Some (dec_val ds * 1000000000 + dec_val fs * 1000000000 div 10 ^ length fs, [])"
proof -
  have nd: "\<not> is_digit (CHR ''.'')" "\<not> is_digit (CHR ''s'')" "\<not> num_start (CHR ''s'')"
    by (simp_all add: is_digit_def num_start_def)
  have tk: "takeWhile is_digit (ds @ CHR ''.'' # fs @ ''s'') = ds"
    "dropWhile is_digit (ds @ CHR ''.'' # fs @ ''s'') = CHR ''.'' # fs @ ''s''"
    using assms(1) nd by (induction ds) auto
  have tf: "takeWhile is_digit (fs @ ''s'') = fs" "dropWhile is_digit (fs @ ''s'') = ''s''"
    using assms(4) nd by (induction fs) auto
  have hd: "num_start (hd (ds @ CHR ''.'' # fs @ ''s''))"
    using assms(1,2) by (cases ds) (auto simp: num_start_def)
  have small: "dec_val ds < 10 ^ 4"
    using dec_val_bound [OF assms(1)] assms(3) power_increasing [of "length ds" 4 "10::nat"] by linarith
  have "(10::nat) ^ length ds \<le> 10 ^ 4" using assms(3) by (intro power_increasing) auto
  then have li: "leading_int 0 ds = Some (dec_val ds)"
    using leading_int_small [OF assms(1), of 0] by (simp add: dec_val_def)
  have "(10::nat) ^ length fs \<le> 10 ^ 18" using assms(6) by (intro power_increasing) auto
  then have lf: "leading_fraction 0 1 fs = (dec_val fs, 10 ^ length fs)"
    using leading_fraction_small [OF assms(4), of 0 1] by (simp add: dec_val_def)
  have "dec_val fs \<le> 10 ^ length fs" using dec_val_bound [OF assms(4)] by simp
  then have "dec_val fs * 1000000000 div 10 ^ length fs \<le> 10 ^ length fs * 1000000000 div 10 ^ length fs"
    by (intro div_le_mono mult_le_mono1)
  then have fr: "dec_val fs * 1000000000 div 10 ^ length fs \<le> 1000000000" by simp
  have b: "dec_val ds * 1000000000 + dec_val fs * 1000000000 div 10 ^ length fs \<le> two63"
    using fr small by (simp add: two63_def)
  have b2: "dec_val ds \<le> two63 div 1000000000" using small by (simp add: two63_def)
  show ?thesis
    using nd hd assms(2) b b2
    by (simp add: dur_group_def tk tf li lf lf [simplified] Let_def unit_ns_def)
qed

end
