(* ===== verification/Ffmpeg.thy ===== *)
theory Ffmpeg
  imports Complex_Main Temp_Files Go_Time
begin

text \<open>
  \<^verbatim>\<open>internal/utils/transcoding.go\<close>: reading durations from ffmpeg's progress lines, laying the
  video inputs out on a grid, building ffmpeg's arguments and running it. ffmpeg is outside
  the repository: what it prints, whether it starts, how it exits and what it does to the
  file system are fields of an environment record. Scale factors are exact rationals where
  Go computes with \<open>float64\<close>.
\<close>

section \<open>Durations in ffmpeg's output\<close>

text \<open>
  \<open>timeRegex\<close>: \<open>time=\<close>, three pairs of digits separated by colons, a dot and at least one more
  digit. A match is the captured text and the rest of the input; matching is greedy.
\<close>

fun match_clock :: "string \<Rightarrow> (string \<times> string) option" where
  "match_clock (a # b # c # d # e # f # g # h # i # j # s) =
     (if list_all is_digit [a, b, d, e, g, h, j] \<and> c = CHR '':'' \<and> f = CHR '':'' \<and> i = CHR ''.''
      then Some ([a, b, c, d, e, f, g, h, i, j] @ takeWhile is_digit s, dropWhile is_digit s)
      else None)"
| "match_clock _ = None"

definition match_time :: "string \<Rightarrow> (string \<times> string) option" where
  "match_time s = (if HasPrefix s ''time='' then match_clock (drop 5 s) else None)"

lemma match_clock_parts:
  assumes "match_clock s = Some (m, r)"
  shows "s = m @ r \<and> CHR ''t'' \<notin> set m \<and> m \<noteq> []"
proof -
  have t: "\<not> is_digit (CHR ''t'')" by (simp add: is_digit_def)
  have w: "CHR ''t'' \<notin> set (takeWhile is_digit z)" for z
    using t set_takeWhileD by fastforce
  from assms show ?thesis using t w by (cases s rule: match_clock.cases) (auto split: if_splits)
qed

lemma match_time_parts:
  assumes "match_time s = Some (m, r)"
  shows "s = (CHR ''t'' # ''ime='' @ m) @ r \<and> CHR ''t'' \<notin> set (''ime='' @ m)"
proof -
  from assms obtain u where s: "s = ''time='' @ u" and m: "match_clock u = Some (m, r)"
    by (auto simp: match_time_def HasPrefix_iff split: if_splits)
  from match_clock_parts [OF m] s show ?thesis by auto
qed

function find_all :: "string \<Rightarrow> string list" where
  "find_all s =
     (case s of
        [] \<Rightarrow> []
      | _ # cs \<Rightarrow>
          (case match_time s of Some (m, r) \<Rightarrow> m # find_all r | None \<Rightarrow> find_all cs))"
  by pat_completeness auto
termination
  by (relation "measure length") (auto dest: match_time_parts)

declare find_all.simps [simp del]

lemma find_all_Nil [simp]: "find_all [] = []"
  by (simp add: find_all.simps)

lemma find_all_skip: "match_time (c # cs) = None \<Longrightarrow> find_all (c # cs) = find_all cs"
  by (subst find_all.simps) simp

definition parseDurationFromFFmpeg :: "string \<Rightarrow> int" where
  "parseDurationFromFFmpeg out =
     (let matches = find_all out
      in if matches = [] then 0
         else
           (case Split (last matches) (CHR '':'') of
              [h, m, s] \<Rightarrow>
                (case ParseDuration (h @ ''h'' @ m @ ''m'' @ s @ ''s'') of
                   Inr d \<Rightarrow> Milliseconds d
                 | Inl _ \<Rightarrow> 0)
            | _ \<Rightarrow> 0))"

text \<open>A match cannot straddle the start of another one, whatever was printed before it.\<close>

lemma find_all_append:
  "\<exists>ms. find_all (pre @ CHR ''t'' # x) = ms @ find_all (CHR ''t'' # x)"
proof (induction "length pre" arbitrary: pre rule: less_induct)
  case less
  show ?case
  proof (cases pre)
    case Nil
    then show ?thesis by simp
  next
    case (Cons p ps)
    show ?thesis
    proof (cases "match_time (pre @ CHR ''t'' # x)")
      case None
      have "find_all (pre @ CHR ''t'' # x) = find_all (ps @ CHR ''t'' # x)"
        using None Cons by (subst find_all.simps) simp
      with less [of ps] Cons show ?thesis by simp
    next
      case (Some mr)
      obtain m r where mr: "mr = (m, r)" by fastforce
      note parts = match_time_parts [OF Some [unfolded mr]]
      have step: "find_all (pre @ CHR ''t'' # x) = m # find_all r"
        using Some mr Cons by (subst find_all.simps) simp
      have eq: "pre @ CHR ''t'' # x = (CHR ''t'' # ''ime='' @ m) @ r" using parts by blast
      consider us where "pre = (CHR ''t'' # ''ime='' @ m) @ us" "us @ CHR ''t'' # x = r"
        | us where "pre @ us = CHR ''t'' # ''ime='' @ m" "CHR ''t'' # x = us @ r"
        using eq by (auto simp only: append_eq_append_conv2)
      then show ?thesis
      proof cases
        case 1
        then have "length us < length pre" by simp
        from less [OF this] 1(2) step obtain ms where
          "find_all (pre @ CHR ''t'' # x) = m # ms @ find_all (CHR ''t'' # x)" by auto
        then show ?thesis by (intro exI [of _ "m # ms"]) simp
      next
        case 2
        have "us = []"
        proof (rule ccontr)
          assume "us \<noteq> []"
          with 2(2) have "hd us = CHR ''t''" by (cases us) auto
          with \<open>us \<noteq> []\<close> have "CHR ''t'' \<in> set us" by (cases us) auto
          moreover have "ps @ us = ''ime='' @ m" using 2(1) Cons by simp
          ultimately have "CHR ''t'' \<in> set (''ime='' @ m)" by (metis UnCI set_append)
          with parts show False by blast
        qed
        with 2(2) step show ?thesis by (intro exI [of _ "[m]"]) simp
      qed
    qed
  qed
qed

definition two_digits :: "nat \<Rightarrow> string" where
  "two_digits n = [digit (n div 10), digit (n mod 10)]"

lemma two_digits_props:
  "n < 100 \<Longrightarrow> list_all is_digit (two_digits n) \<and> dec_val (two_digits n) = n \<and> length (two_digits n) = 2"
  by (simp add: two_digits_def dec_val_def)

lemma two_digits_not_Nil [simp]: "two_digits n \<noteq> []"
  by (simp add: two_digits_def)

text \<open>The progress line ffmpeg prints for hours, minutes, seconds and a decimal fraction.\<close>

definition clock_text :: "nat \<Rightarrow> nat \<Rightarrow> nat \<Rightarrow> string \<Rightarrow> string" where
  "clock_text h m s fs =
     two_digits h @ '':'' @ two_digits m @ '':'' @ two_digits s @ ''.'' @ fs"

lemma match_clock_text:
  assumes "h < 100" "m < 100" "s < 100" "list_all is_digit fs" "fs \<noteq> []"
    and "rest = [] \<or> \<not> is_digit (hd rest)"
  shows "match_clock (clock_text h m s fs @ rest) = Some (clock_text h m s fs, rest)"
proof -
  obtain f gs where fs: "fs = f # gs" using assms(5) by (cases fs) auto
  have tk: "takeWhile is_digit (gs @ rest) = gs" "dropWhile is_digit (gs @ rest) = rest"
    using assms(4,6) fs by (auto simp: takeWhile_append dropWhile_append list_all_iff
        takeWhile_eq_all_conv dropWhile_eq_Nil_conv) (cases rest; auto)+
  show ?thesis using assms fs tk by (simp add: clock_text_def two_digits_def)
qed

lemma Split_clock_text:
  assumes "h < 100" "m < 100" "s < 100" "list_all is_digit fs"
  shows "Split (clock_text h m s fs) (CHR '':'') = [two_digits h, two_digits m, two_digits s @ ''.'' @ fs]"
proof -
  have nc: "CHR '':'' \<notin> set z" if "list_all is_digit z" for z
    using that by (auto simp: list_all_iff is_digit_def)
  have td: "CHR '':'' \<notin> set (two_digits n)" if "n < 100" for n
    using two_digits_props [OF that] nc by blast
  show ?thesis
    using td [OF assms(1)] td [OF assms(2)] td [OF assms(3)] nc [OF assms(4)]
    by (simp add: clock_text_def Split_append Split_no_sep)
qed

lemma ParseDuration_clock:
  assumes "h < 100" "m < 100" "s < 100" "list_all is_digit fs" "fs \<noteq> []" "length fs \<le> 18"
  shows "ParseDuration (two_digits h @ ''h'' @ two_digits m @ ''m'' @ (two_digits s @ ''.'' @ fs) @ ''s'') =
     Inr (int (((h * 60 + m) * 60 + s) * 1000000000 + dec_val fs * 1000000000 div 10 ^ length fs))"
proof -
  let ?S = "two_digits s @ CHR ''.'' # fs @ ''s''"
  let ?M = "two_digits m @ CHR ''m'' # ?S"
  let ?H = "two_digits h @ CHR ''h'' # ?M"
  let ?fr = "dec_val fs * 1000000000 div 10 ^ length fs"
  have ns: "\<not> num_start (CHR ''h'')" "\<not> num_start (CHR ''m'')"
    by (simp_all add: num_start_def is_digit_def)
  have st: "num_start (hd (two_digits n @ z))" "\<not> is_digit (CHR ''-'')" if "n < 100" for n z
    using that by (simp add: two_digits_def num_start_def, simp add: is_digit_def)
  have g1: "dur_group ?H = Some (h * 3600000000000, ?M)"
    using dur_group_plain [of "two_digits h" "CHR ''h''" 3600000000000 ?M]
      two_digits_props [OF assms(1)] st(1) [OF assms(2)] ns
    by (auto simp: unit_ns_def)
  have g2: "dur_group ?M = Some (m * 60000000000, ?S)"
    using dur_group_plain [of "two_digits m" "CHR ''m''" 60000000000 ?S]
      two_digits_props [OF assms(2)] st(1) [OF assms(3)] ns
    by (auto simp: unit_ns_def)
  have g3: "dur_group ?S = Some (s * 1000000000 + ?fr, [])"
    using dur_group_frac [of "two_digits s" fs] two_digits_props [OF assms(3)] assms(4,5,6)
    by auto
  have "dec_val fs \<le> 10 ^ length fs" using dec_val_bound [OF assms(4)] by simp
  then have "?fr \<le> 10 ^ length fs * 1000000000 div 10 ^ length fs"
    by (intro div_le_mono mult_le_mono1)
  then have fr: "?fr \<le> 1000000000" by simp
  have b: "h * 3600000000000 + m * 60000000000 + (s * 1000000000 + ?fr) \<le> two63 - 1"
    using assms(1-3) fr by (simp add: two63_def)
  have ne: "?H \<noteq> []" "?M \<noteq> []" "?S \<noteq> []" by simp_all
  have "dur_sum 0 ?H = Some (h * 3600000000000 + m * 60000000000 + (s * 1000000000 + ?fr))"
    using b
    by (subst dur_sum.simps, simp only: g1 ne, simp, subst dur_sum.simps, simp only: g2 ne, simp,
        subst dur_sum.simps, simp only: g3 ne, simp, simp add: dur_sum.simps)
  moreover have "hd ?H \<noteq> CHR ''-''" "hd ?H \<noteq> CHR ''+''" "?H \<noteq> ''0''"
    using assms(1) is_digit_not_sign [of "digit (h div 10)"] by (simp_all add: two_digits_def)
  ultimately show ?thesis using b
    by (simp add: ParseDuration_def Let_def algebra_simps)
qed



section \<open>The video grid\<close>

text \<open>
  \<open>int(math.Ceil(math.Sqrt(float64(n))))\<close> is the least \<open>k\<close> with \<open>n \<le> k * k\<close>, and the ceiling of
  \<open>n / cols\<close> is the integer quotient rounded up; both are exact below \<open>2^52\<close>.
\<close>

function ceil_sqrt_from :: "nat \<Rightarrow> nat \<Rightarrow> nat" where
  "ceil_sqrt_from k n = (if n \<le> k * k then k else ceil_sqrt_from (Suc k) n)"
  by pat_completeness auto
termination
proof (relation "measure (\<lambda>(k, n). n - k)")
  fix k n :: nat
  assume "\<not> n \<le> k * k"
  moreover have "k \<le> k * k" by (cases k) auto
  ultimately have "k < n" by linarith
  then show "((Suc k, n), k, n) \<in> measure (\<lambda>(k, n). n - k)" by simp
qed simp

declare ceil_sqrt_from.simps [simp del]

definition grid_cols :: "nat \<Rightarrow> nat" where
  "grid_cols n = ceil_sqrt_from 0 n"

definition grid_rows :: "nat \<Rightarrow> nat \<Rightarrow> nat" where
  "grid_rows n cols = (n + cols - 1) div cols"

text \<open>The two nested loops; the inner one breaks at the first index without an input.\<close>

function layout_row :: "nat \<Rightarrow> nat \<Rightarrow> nat \<Rightarrow> nat \<Rightarrow> nat \<Rightarrow> nat \<Rightarrow> (nat \<times> nat) list" where
  "layout_row n cols w h r c =
     (if c < cols then
        (if r * cols + c \<ge> n then []
         else (c * w, r * h) # layout_row n cols w h r (Suc c))
      else [])"
  by pat_completeness auto
termination
  by (relation "measure (\<lambda>(n, cols, w, h, r, c). cols - c)") auto

function layout_rows :: "nat \<Rightarrow> nat \<Rightarrow> nat \<Rightarrow> nat \<Rightarrow> nat \<Rightarrow> nat \<Rightarrow> (nat \<times> nat) list" where
  "layout_rows n cols rows w h r =
     (if r < rows then layout_row n cols w h r 0 @ layout_rows n cols rows w h (Suc r) else [])"
  by pat_completeness auto
termination
  by (relation "measure (\<lambda>(n, cols, rows, w, h, r). rows - r)") auto

declare layout_row.simps [simp del] layout_rows.simps [simp del]

definition finalWidth :: nat where "finalWidth = 1920"
definition finalHeight :: nat where "finalHeight = 1080"

definition grid_layout :: "nat \<Rightarrow> (nat \<times> nat) list" where
  "grid_layout n =
     (let cols = grid_cols n; rows = grid_rows n cols
      in layout_rows n cols rows (finalWidth div cols) (finalHeight div rows) 0)"

lemma ceil_sqrt_from_ge: "n \<le> ceil_sqrt_from k n * ceil_sqrt_from k n"
proof (induction k n rule: ceil_sqrt_from.induct)
  case (1 k n)
  then show ?case by (cases "n \<le> k * k") (simp_all add: ceil_sqrt_from.simps [of k n])
qed

lemma ceil_sqrt_from_least:
  "(\<forall>j < k. \<not> n \<le> j * j) \<Longrightarrow> j < ceil_sqrt_from k n \<Longrightarrow> \<not> n \<le> j * j"
proof (induction k n rule: ceil_sqrt_from.induct)
  case (1 k n)
  show ?case
  proof (cases "n \<le> k * k")
    case True
    with "1.prems" show ?thesis by (simp add: ceil_sqrt_from.simps [of k n])
  next
    case False
    with "1.prems" have "\<forall>j < Suc k. \<not> n \<le> j * j" by (auto simp: less_Suc_eq)
    with False "1.IH" "1.prems" show ?thesis by (simp add: ceil_sqrt_from.simps [of k n])
  qed
qed

lemma grid_cols_props:
  shows grid_cols_ge: "n \<le> grid_cols n * grid_cols n"
    and grid_cols_least: "j < grid_cols n \<Longrightarrow> j * j < n"
    and grid_cols_pos: "0 < n \<Longrightarrow> 0 < grid_cols n"
proof -
  show "n \<le> grid_cols n * grid_cols n" by (simp add: grid_cols_def ceil_sqrt_from_ge)
  then show "0 < n \<Longrightarrow> 0 < grid_cols n" by (cases "grid_cols n") auto
  show "j < grid_cols n \<Longrightarrow> j * j < n"
    using ceil_sqrt_from_least [of 0 n j] by (auto simp: grid_cols_def)
qed

lemma layout_row_eq:
  "c \<le> cols \<Longrightarrow> layout_row n cols w h r c =
     List.map (\<lambda>c. (c * w, r * h)) [c..<min cols (n - r * cols)]"
proof (induction n cols w h r c rule: layout_row.induct)
  case (1 n cols w h r c)
  show ?case
  proof (cases "c < cols \<and> r * cols + c < n")
    case True
    then have "[c..<min cols (n - r * cols)] = c # [Suc c..<min cols (n - r * cols)]"
      by (intro upt_conv_Cons) auto
    with True "1.IH" show ?thesis by (simp add: layout_row.simps [of n cols w h r c])
  next
    case False
    then have "[c..<min cols (n - r * cols)] = []" by auto
    with False show ?thesis by (auto simp: layout_row.simps [of n cols w h r c])
  qed
qed

text \<open>Row by row is index by index.\<close>

definition cell :: "nat \<Rightarrow> nat \<Rightarrow> nat \<Rightarrow> nat \<Rightarrow> nat \<times> nat" where
  "cell cols w h i = ((i mod cols) * w, (i div cols) * h)"

lemma layout_row_cells:
  assumes "0 < cols"
  shows "layout_row n cols w h r 0 =
     List.map (cell cols w h) [r * cols..<min cols (n - r * cols) + r * cols]"
proof -
  have "List.map (cell cols w h) [r * cols..<min cols (n - r * cols) + r * cols] =
      List.map (\<lambda>c. cell cols w h (c + r * cols)) [0..<min cols (n - r * cols)]"
    by (simp add: map_add_upt [symmetric] comp_def)
  also have "\<dots> = List.map (\<lambda>c. (c * w, r * h)) [0..<min cols (n - r * cols)]"
    using assms by (intro map_cong) (auto simp: cell_def)
  finally show ?thesis by (simp add: layout_row_eq)
qed

lemma layout_rows_cells:
  "0 < cols \<Longrightarrow> r \<le> rows \<Longrightarrow> n \<le> rows * cols \<Longrightarrow>
   layout_rows n cols rows w h r = List.map (cell cols w h) [r * cols..<n]"
proof (induction n cols rows w h r rule: layout_rows.induct)
  case (1 n cols rows w h r)
  show ?case
  proof (cases "r < rows")
    case False
    with 1 have "n \<le> r * cols" by simp
    with False show ?thesis by (simp add: layout_rows.simps [of n cols rows w h r])
  next
    case True
    let ?m = "min cols (n - r * cols) + r * cols"
    have "[r * cols..<?m] @ [Suc r * cols..<n] = [r * cols..<n]"
    proof (cases "Suc r * cols \<le> n")
      case True
      then have "?m = Suc r * cols" by auto
      then show ?thesis using True upt_add_eq_append [of "r * cols" "Suc r * cols" "n - Suc r * cols"] by simp
    next
      case False
      then show ?thesis by (cases "r * cols \<le> n") auto
    qed
    moreover have "layout_rows n cols rows w h (Suc r) = List.map (cell cols w h) [Suc r * cols..<n]"
      using True 1 by simp
    ultimately show ?thesis
      using True 1(2) layout_row_cells [of cols n w h r]
      by (simp add: layout_rows.simps [of n cols rows w h r] flip: map_append)
  qed
qed

lemma grid_rows_props:
  assumes "0 < cols"
  shows "n \<le> grid_rows n cols * cols" and "i < n \<Longrightarrow> i div cols < grid_rows n cols"
proof -
  let ?q = "(n + cols - 1) div cols"
  have "(n + cols - 1) mod cols < cols" using assms by simp
  then have "n + cols - 1 < ?q * cols + cols"
    using div_mult_mod_eq [of "n + cols - 1" cols] by linarith
  then have ge: "n \<le> ?q * cols" using assms by linarith
  then show "n \<le> grid_rows n cols * cols" by (simp add: grid_rows_def)
  show "i div cols < grid_rows n cols" if "i < n"
    using that ge assms by (simp add: grid_rows_def less_mult_imp_div_less)
qed

lemma grid_layout_nth:
  assumes "0 < n" and "k < n"
  shows "grid_layout n ! k =
     cell (grid_cols n) (finalWidth div grid_cols n) (finalHeight div grid_rows n (grid_cols n)) k"
  using assms layout_rows_cells [of "grid_cols n" 0 "grid_rows n (grid_cols n)" n]
    grid_cols_pos [of n] grid_rows_props(1) [of "grid_cols n" n]
  by (simp add: grid_layout_def Let_def)

text \<open>
  C29. The two nested loops with their early break place the inputs row by row: input k is at
  column k modulo and row k divided by the number of columns, for all inputs and no others.
\<close>

theorem grid_layout_cells:
  "0 < n \<Longrightarrow> grid_layout n =
     List.map (cell (grid_cols n) (finalWidth div grid_cols n)
       (finalHeight div grid_rows n (grid_cols n))) [0..<n]"
  using layout_rows_cells [of "grid_cols n" 0 "grid_rows n (grid_cols n)" n]
    grid_cols_pos [of n] grid_rows_props(1) [of "grid_cols n" n]
  by (simp add: grid_layout_def Let_def)

theorem grid_layout_cells_witness:
  "grid_layout 3 = [(0, 0), (960, 0), (0, 540)]"
proof -
  have c: "grid_cols 3 = 2"
    by (simp add: grid_cols_def ceil_sqrt_from.simps)
  show ?thesis
    using grid_layout_cells [of 3]
    by (simp add: c cell_def finalWidth_def finalHeight_def grid_rows_def upt_rec)
qed

text \<open>
  Two windows of the grid share no pixel and every window lies inside the canvas: the windows
  are half-open rectangles at the layout's positions.
\<close>

definition in_window :: "nat \<Rightarrow> nat \<Rightarrow> nat \<times> nat \<Rightarrow> nat \<Rightarrow> nat \<Rightarrow> bool" where
  "in_window w h p x y \<longleftrightarrow> fst p \<le> x \<and> x < fst p + w \<and> snd p \<le> y \<and> y < snd p + h"

lemma band_unique:
  fixes a b w x :: nat
  assumes "a * w \<le> x" "x < a * w + w" "b * w \<le> x" "x < b * w + w"
  shows "a = b"
proof -
  have "0 < w" using assms(1,2) by linarith
  moreover have "x div w = a"
    using assms(1,2) by (intro div_nat_eqI) (simp_all add: mult.commute)
  moreover have "x div w = b"
    using assms(3,4) by (intro div_nat_eqI) (simp_all add: mult.commute)
  ultimately show ?thesis by simp
qed

lemma cells_disjoint:
  assumes "in_window w h (cell cols w h i) x y" "in_window w h (cell cols w h j) x y"
  shows "i = j"
proof -
  have "i mod cols = j mod cols"
    using assms by (intro band_unique [of _ w x]) (auto simp: in_window_def cell_def)
  moreover have "i div cols = j div cols"
    using assms by (intro band_unique [of _ h y]) (auto simp: in_window_def cell_def)
  ultimately show ?thesis by (metis div_mult_mod_eq)
qed

lemma cell_inside:
  assumes "i < n" "0 < cols"
    and "in_window (W div cols) (H div grid_rows n cols) (cell cols (W div cols) (H div grid_rows n cols) i) x y"
  shows "x < W \<and> y < H"
proof -
  have "i mod cols + 1 \<le> cols" using assms(2) by (simp add: Suc_leI)
  then have "(i mod cols + 1) * (W div cols) \<le> cols * (W div cols)" by (rule mult_le_mono1)
  also have "\<dots> \<le> W" by simp
  finally have x: "(i mod cols + 1) * (W div cols) \<le> W" .
  let ?r = "grid_rows n cols"
  have "i div cols + 1 \<le> ?r" using grid_rows_props(2) [OF assms(2,1)] by simp
  then have "(i div cols + 1) * (H div ?r) \<le> ?r * (H div ?r)" by (rule mult_le_mono1)
  also have "\<dots> \<le> H" by simp
  finally have y: "(i div cols + 1) * (H div ?r) \<le> H" .
  from x y assms(3) show ?thesis by (auto simp: in_window_def cell_def algebra_simps)
qed

text \<open>
  C28. The windows of the video grid lie inside the 1920 by 1080 picture and no two of them
  overlap, for every number of inputs.
\<close>

theorem grid_windows_tile:
  assumes "0 < n" and "i < n" and "j < n"
    and "in_window (finalWidth div grid_cols n) (finalHeight div grid_rows n (grid_cols n))
           (grid_layout n ! i) x y"
  shows "x < 1920 \<and> y < 1080 \<and>
     (in_window (finalWidth div grid_cols n) (finalHeight div grid_rows n (grid_cols n))
        (grid_layout n ! j) x y \<longrightarrow> i = j)"
proof -
  let ?c = "grid_cols n" and ?w = "finalWidth div grid_cols n"
  let ?h = "finalHeight div grid_rows n (grid_cols n)"
  note nth = grid_layout_nth [OF assms(1)]
  have "x < finalWidth \<and> y < finalHeight"
    using assms(4) unfolding nth [OF assms(2)]
    by (rule cell_inside [OF assms(2) grid_cols_pos [OF assms(1)]])
  moreover have "i = j" if "in_window ?w ?h (grid_layout n ! j) x y"
    using assms(4) that unfolding nth [OF assms(2)] nth [OF assms(3)] by (rule cells_disjoint)
  ultimately show ?thesis by (simp add: finalWidth_def finalHeight_def)
qed

theorem grid_windows_tile_witness:
  "in_window 960 540 (grid_layout 4 ! 3) 960 540 \<and> \<not> in_window 960 540 (grid_layout 4 ! 0) 960 540"
proof -
  have c: "grid_cols 4 = 2" "grid_rows 4 2 = 2"
    by (simp_all add: grid_cols_def ceil_sqrt_from.simps grid_rows_def)
  have l: "grid_layout 4 ! 3 = (960, 540)"
    using grid_layout_nth [of 4 3] by (simp add: c cell_def finalWidth_def finalHeight_def)
  have w: "in_window (finalWidth div grid_cols 4) (finalHeight div grid_rows 4 (grid_cols 4))
      (grid_layout 4 ! 3) 960 540"
    by (simp add: l c in_window_def finalWidth_def finalHeight_def)
  show ?thesis
    using grid_windows_tile [of 4 3 0 960 540] w by (simp add: c finalWidth_def finalHeight_def)
qed

section \<open>The arguments\<close>

text \<open>
  \<open>%.6f\<close> of a non-negative rational: six decimals, ties to even.
\<close>

definition round_half_even :: "rat \<Rightarrow> int" where
  "round_half_even q =
     (let f = \<lfloor>q\<rfloor>; d = q - of_int f
      in if d < 1 / 2 then f else if d > 1 / 2 then f + 1 else if even f then f else f + 1)"

definition pad_zeros :: "nat \<Rightarrow> string \<Rightarrow> string" where
  "pad_zeros k s = replicate (k - length s) (CHR ''0'') @ s"

definition fmt_6f :: "rat \<Rightarrow> string" where
  "fmt_6f q =
     (let n = round_half_even (q * 1000000)
      in int_dec (n div 1000000) @ ''.'' @ pad_zeros 6 (int_dec (n mod 1000000)))"

definition is_video :: "MediaChannel \<Rightarrow> bool" where
  "is_video c \<longleftrightarrow> HasPrefix (ch_MimeType c) ''video''"

definition is_audio :: "MediaChannel \<Rightarrow> bool" where
  "is_audio c \<longleftrightarrow> HasPrefix (ch_MimeType c) ''audio''"

text \<open>The first loop of \<open>transcodingArgs\<close>: positions of the video and of the audio inputs.\<close>

fun split_channels :: "nat \<Rightarrow> MediaChannel list \<Rightarrow> nat list \<Rightarrow> nat list \<Rightarrow> nat list \<times> nat list" where
  "split_channels i [] vs as = (vs, as)"
| "split_channels i (c # cs) vs as =
     (if is_video c then split_channels (Suc i) cs (vs @ [i]) as
      else if is_audio c then split_channels (Suc i) cs vs (as @ [i])
      else split_channels (Suc i) cs vs as)"

definition set_pts :: "rat \<Rightarrow> string" where
  "set_pts scale = (if \<bar>scale - 1\<bar> > 1 / 1000 then ''setpts='' @ fmt_6f scale @ ''*PTS,'' else [])"

definition single_filter :: "nat \<Rightarrow> string \<Rightarrow> string" where
  "single_filter v pts =
     ''['' @ nat_dec v @ '':v]'' @ pts @
     ''scale=1920:1080:force_original_aspect_ratio=decrease,pad=1920:1080:(ow-iw)/2:(oh-ih)/2[v_out];''"

definition stream_name :: "nat \<Rightarrow> string" where
  "stream_name i = ''v_norm_'' @ nat_dec i"

definition norm_filter :: "string \<Rightarrow> nat \<Rightarrow> nat \<Rightarrow> nat \<Rightarrow> nat \<Rightarrow> string" where
  "norm_filter pts w h i v =
     ''['' @ nat_dec v @ '':v]'' @ pts @ ''scale='' @ nat_dec w @ '':'' @ nat_dec h @
     '':force_original_aspect_ratio=decrease[v_scaled_'' @ nat_dec i @ '']; '' @
     ''[v_scaled_'' @ nat_dec i @ '']pad='' @ nat_dec w @ '':'' @ nat_dec h @
     '':(ow-iw)/2:(oh-ih)/2['' @ stream_name i @ '']; ''"

definition cell_text :: "nat \<times> nat \<Rightarrow> string" where
  "cell_text p = nat_dec (fst p) @ ''_'' @ nat_dec (snd p)"

definition stack_filter :: "nat list \<Rightarrow> string \<Rightarrow> string" where
  "stack_filter vs pts =
     (let n = length vs; cols = grid_cols n; rows = grid_rows n cols;
          w = finalWidth div cols; h = finalHeight div rows
      in concat (List.map (\<lambda>(i, v). norm_filter pts w h i v) (List.enumerate 0 vs)) @
         concat (List.map (\<lambda>i. ''['' @ stream_name i @ '']'') [0..<n]) @
         ''xstack=inputs='' @ nat_dec n @ '':layout='' @
         Join (List.map cell_text (grid_layout n)) ''|'' @ ''[v_out];'')"

definition audio_filter :: "nat list \<Rightarrow> string" where
  "audio_filter as =
     concat (List.map (\<lambda>a. ''['' @ nat_dec a @ '':a]'') as) @
     ''amix=inputs='' @ nat_dec (length as) @ ''[a_out]''"

text \<open>\<open>None\<close> is the pair of nil slices.\<close>

definition transcodingArgs ::
  "MediaChannel list \<Rightarrow> rat \<Rightarrow> (string list \<times> string list) option" where
  "transcodingArgs src videoScale =
     (if src = [] then None
      else
        (case split_channels 0 src [] [] of
           (vs, as) \<Rightarrow>
             if vs = [] \<and> as = [] then None
             else
               (let inputArgs = concat (List.map (\<lambda>c. [''-i'', ch_Path c]) src);
                    pts = set_pts videoScale;
                    video = (if vs = [] then []
                             else if length vs = 1 then single_filter (hd vs) pts
                             else stack_filter vs pts);
                    audio = (if as = [] then [] else audio_filter as);
                    maps = (if vs = [] then [] else [''-map'', ''[v_out]'']) @
                           (if as = [] then [] else [''-map'', ''[a_out]''])
                in Some (inputArgs,
                         [''-filter_complex'', TrimSuffix (video @ audio) '';''] @ maps))))"

section \<open>Running ffmpeg\<close>

record ffmpeg =
  ff_probe :: "string \<Rightarrow> string"
  ff_start :: "string list \<Rightarrow> go_error option"
  ff_wait :: "string list \<Rightarrow> go_error option"
  ff_stderr :: "string list \<Rightarrow> string"
  ff_effect :: "string list \<Rightarrow> fs \<Rightarrow> fs"

text \<open>\<open>probeActualDuration\<close>, in seconds; the exit status of the probe is ignored.\<close>

definition probeActualDuration :: "ffmpeg \<Rightarrow> string \<Rightarrow> rat res" where
  "probeActualDuration env path =
     (let ms = parseDurationFromFFmpeg (ff_probe env path)
      in if ms \<le> 0 then Inl (Errorf ''could not parse duration from ffmpeg output'')
         else Inr (of_int ms / 1000))"

definition scale_step :: "ffmpeg \<Rightarrow> int \<Rightarrow> rat \<Rightarrow> MediaChannel \<Rightarrow> rat" where
  "scale_step env actualDurationMs scale ch =
     (case probeActualDuration env (ch_Path ch) of
        Inl _ \<Rightarrow> scale
      | Inr dur \<Rightarrow>
          if actualDurationMs > 0 \<and> is_video ch \<and> dur > 1 / 2
          then (of_int actualDurationMs / 1000) / dur else scale)"

definition video_scale :: "ffmpeg \<Rightarrow> MediaChannel list \<Rightarrow> int \<Rightarrow> rat" where
  "video_scale env src actualDurationMs = foldl (scale_step env actualDurationMs) 1 src"

definition encode_args :: "string \<Rightarrow> string list" where
  "encode_args dst =
     [''-c:a'', ''aac'', ''-b:a'', ''192k'', ''-c:v'', ''libx264'', ''-tune'', ''animation'',
      ''-preset'', ''fast'', ''-movflags'', ''+faststart'', ''-f'', ''mp4'', dst]"

definition TranscodingByPath ::
  "ffmpeg \<Rightarrow> MediaChannel list \<Rightarrow> string \<Rightarrow> int \<Rightarrow> fs \<Rightarrow> int res \<times> fs" where
  "TranscodingByPath env src dst actualDurationMs s =
     (case transcodingArgs src (video_scale env src actualDurationMs) of
        None \<Rightarrow> (Inr 0, s)
      | Some (inputArgs, finalArgs) \<Rightarrow>
          (let args = [''-nostdin'', ''-threads'', ''1''] @ inputArgs @ finalArgs @ encode_args dst
           in case ff_start env args of
                Some e \<Rightarrow> (Inl e, s)
              | None \<Rightarrow>
                  (case ff_wait env args of
                     Some e \<Rightarrow> (Inl (Errorf (''ffmpeg error: '' @ ff_stderr env args)), ff_effect env args s)
                   | None \<Rightarrow> (Inr (parseDurationFromFFmpeg (ff_stderr env args)), ff_effect env args s))))"

lemma split_channels_eq:
  "split_channels i cs vs as =
     (vs @ filter (\<lambda>k. is_video (cs ! (k - i))) [i..<i + length cs],
      as @ filter (\<lambda>k. \<not> is_video (cs ! (k - i)) \<and> is_audio (cs ! (k - i))) [i..<i + length cs])"
proof (induction cs arbitrary: i vs as)
  case (Cons c cs)
  have up: "[i..<i + length (c # cs)] = i # [Suc i..<Suc i + length cs]"
    by (subst upt_conv_Cons) simp_all
  have sh: "filter (\<lambda>k. P ((c # cs) ! (k - i))) [Suc i..<Suc i + length cs] =
      filter (\<lambda>k. P (cs ! (k - Suc i))) [Suc i..<Suc i + length cs]" for P
    by (rule filter_cong) (auto simp: nth_Cons' Suc_diff_le)
  show ?case
    by (simp only: split_channels.simps up filter.simps sh [of is_video]
        sh [of "\<lambda>c. \<not> is_video c \<and> is_audio c"] Cons.IH) simp
qed simp

text \<open>A MIME type is not both.\<close>

lemma not_video_audio: "is_video c \<Longrightarrow> \<not> is_audio c"
  by (auto simp: is_video_def is_audio_def HasPrefix_iff)

lemma split_channels_ref:
  "split_channels 0 src [] [] =
     (filter (\<lambda>k. is_video (src ! k)) [0..<length src],
      filter (\<lambda>k. is_audio (src ! k)) [0..<length src])"
  using not_video_audio by (auto simp: split_channels_eq intro!: filter_cong)

lemma split_channels_nil:
  "split_channels 0 src [] [] = ([], []) \<longleftrightarrow> (\<forall>c \<in> set src. \<not> is_video c \<and> \<not> is_audio c)"
  by (simp add: split_channels_eq filter_empty_conv all_set_conv_all_nth) auto

lemma transcodingArgs_None:
  "transcodingArgs src scale = None \<longleftrightarrow> (\<forall>c \<in> set src. \<not> is_video c \<and> \<not> is_audio c)"
proof -
  obtain vs as where sc: "split_channels 0 src [] [] = (vs, as)" by fastforce
  have "transcodingArgs src scale = None \<longleftrightarrow> src = [] \<or> vs = [] \<and> as = []"
    by (auto simp: transcodingArgs_def sc Let_def)
  also have "\<dots> \<longleftrightarrow> (\<forall>c \<in> set src. \<not> is_video c \<and> \<not> is_audio c)"
    using split_channels_nil [of src] sc by auto
  finally show ?thesis .
qed

lemma HasSuffix_append_left: "HasSuffix t p \<Longrightarrow> HasSuffix (s @ t) p"
  by (auto simp: HasSuffix_iff simp del: HasSuffix.simps)

lemma TrimSuffix_semicolon: "TrimSuffix (s @ '';'') '';'' = s"
  by (rule TrimSuffix_append)

lemma TrimSuffix_other: "\<not> HasSuffix s p \<Longrightarrow> TrimSuffix s p = s"
  by (simp add: TrimSuffix_def del: HasSuffix.simps)

lemma video_filter_ends:
  "\<exists>u. single_filter v pts = u @ ''_out];''" "\<exists>u. stack_filter vs pts = u @ ''_out];''"
proof -
  show "\<exists>u. single_filter v pts = u @ ''_out];''"
    by (intro exI [of _ "''['' @ nat_dec v @ '':v]'' @ pts @
      ''scale=1920:1080:force_original_aspect_ratio=decrease,pad=1920:1080:(ow-iw)/2:(oh-ih)/2[v''"])
       (simp add: single_filter_def)
  have e: "a @ b @ c @ d @ e @ l @ ''[v_out];'' = (a @ b @ c @ d @ e @ l @ ''[v'') @ ''_out];''"
    for a b c d e l :: string by simp
  show "\<exists>u. stack_filter vs pts = u @ ''_out];''"
    unfolding stack_filter_def Let_def e by blast
qed

lemma audio_filter_ends: "\<exists>u. audio_filter as = u @ ''_out]''"
proof -
  have e: "a @ b @ c @ ''[a_out]'' = (a @ b @ c @ ''[a'') @ ''_out]''" for a b c :: string by simp
  show ?thesis unfolding audio_filter_def e by blast
qed

lemma filter_text_ends:
  assumes "vs \<noteq> [] \<or> as \<noteq> []"
    and "video = (if vs = [] then [] else if length vs = 1 then single_filter (hd vs) pts
          else stack_filter vs pts)"
    and "audio = (if as = [] then [] else audio_filter as)"
  shows "\<exists>u. TrimSuffix (video @ audio) '';'' = u @ ''_out]''"
proof (cases "as = []")
  case True
  with assms obtain u where "video = (u @ ''_out]'') @ '';''"
    using video_filter_ends by (auto split: if_splits) fastforce+
  with True assms(3) TrimSuffix_semicolon [of "u @ ''_out]''"] show ?thesis
    by (intro exI [of _ u]) simp
next
  case False
  then obtain u where a: "video @ audio = (video @ u) @ ''_out]''"
    using audio_filter_ends assms(3) by fastforce
  have "\<not> HasSuffix ((video @ u) @ ''_out]'') '';''" by simp
  then have "TrimSuffix (video @ audio) '';'' = (video @ u) @ ''_out]''"
    unfolding a by (rule TrimSuffix_other)
  then show ?thesis by blast
qed

text \<open>
  The arguments name every input file in order, then one filter graph that ends in an output
  label, and map the video output exactly when an input is video and the audio output exactly
  when an input is audio.
\<close>

theorem transcodingArgs_shape:
  assumes "transcodingArgs src scale = Some (ins, outs)"
  shows "ins = concat (List.map (\<lambda>c. [''-i'', ch_Path c]) src) \<and>
     (\<exists>u. outs = [''-filter_complex'', u @ ''_out]''] @
        (if \<exists>c \<in> set src. is_video c then [''-map'', ''[v_out]''] else []) @
        (if \<exists>c \<in> set src. is_audio c then [''-map'', ''[a_out]''] else []))"
proof -
  obtain vs as where sc: "split_channels 0 src [] [] = (vs, as)" by fastforce
  have vs: "vs = filter (\<lambda>k. is_video (src ! k)) [0..<length src]"
    and as: "as = filter (\<lambda>k. is_audio (src ! k)) [0..<length src]"
    using sc by (simp_all add: split_channels_ref)
  have v: "vs = [] \<longleftrightarrow> \<not> (\<exists>c \<in> set src. is_video c)"
    unfolding vs filter_empty_conv using all_set_conv_all_nth [of src "\<lambda>c. \<not> is_video c"] by auto
  have a: "as = [] \<longleftrightarrow> \<not> (\<exists>c \<in> set src. is_audio c)"
    unfolding as filter_empty_conv
    using all_set_conv_all_nth [of src "\<lambda>c. \<not> is_audio c"] by auto
  define video where "video = (if vs = [] then [] else if length vs = 1
      then single_filter (hd vs) (set_pts scale) else stack_filter vs (set_pts scale))"
  define audio where "audio = (if as = [] then [] else audio_filter as)"
  from assms have ne: "vs \<noteq> [] \<or> as \<noteq> []"
    by (auto simp: transcodingArgs_def sc split: if_splits)
  from assms ne have
    i: "ins = concat (List.map (\<lambda>c. [''-i'', ch_Path c]) src)" and
    o: "outs = [''-filter_complex'', TrimSuffix (video @ audio) '';''] @
        (if vs = [] then [] else [''-map'', ''[v_out]'']) @
        (if as = [] then [] else [''-map'', ''[a_out]''])"
    by (auto simp: transcodingArgs_def sc Let_def video_def audio_def split: if_splits)
  obtain u where "TrimSuffix (video @ audio) '';'' = u @ ''_out]''"
    using filter_text_ends [OF ne video_def audio_def] by blast
  with i o show ?thesis using v a by auto
qed

definition cam :: MediaChannel where
  "cam = \<lparr>ch_Path = ''/t/v'', ch_MimeType = ''video/VP9'', FirstRtpTs = 0, LastRtpTs = 0\<rparr>"

theorem transcodingArgs_shape_witness:
  "\<exists>ins outs. transcodingArgs [cam] 1 = Some (ins, outs) \<and> ins = [''-i'', ''/t/v''] \<and>
     drop 2 outs = [''-map'', ''[v_out]'']"
proof -
  have "transcodingArgs [cam] 1 \<noteq> None" by (simp add: transcodingArgs_None cam_def is_video_def)
  then obtain ins outs where t: "transcodingArgs [cam] 1 = Some (ins, outs)" by auto
  from transcodingArgs_shape [OF t] show ?thesis
    using t by (auto simp: cam_def is_video_def is_audio_def)
qed

text \<open>
  With neither video nor audio among the channels ffmpeg is not run at all, and the function
  still reports success: the destination file is never written.
\<close>

text \<open>
  Without a video or audio channel, TranscodingByPath reports success with a duration of zero
  and neither runs ffmpeg nor writes the destination.
\<close>

theorem TranscodingByPath_without_media:
  "\<forall>c \<in> set src. \<not> is_video c \<and> \<not> is_audio c \<Longrightarrow>
   TranscodingByPath env src dst ms s = (Inr 0, s)"
  using transcodingArgs_None [of src] by (simp add: TranscodingByPath_def)

theorem TranscodingByPath_without_media_witness:
  "TranscodingByPath \<lparr>ff_probe = (\<lambda>_. []), ff_start = (\<lambda>_. None), ff_wait = (\<lambda>_. None),
      ff_stderr = (\<lambda>_. []), ff_effect = (\<lambda>_ s. s)\<rparr>
     [\<lparr>ch_Path = ''/t/a'', ch_MimeType = ''chat'', FirstRtpTs = 0, LastRtpTs = 0\<rparr>] ''/t/b'' 0 stuck_fs
     = (Inr 0, stuck_fs)"
  by (rule TranscodingByPath_without_media) (simp add: is_video_def is_audio_def)

text \<open>The scale is decided by the last video channel whose probe is longer than half a second.\<close>

definition probed_ms :: "ffmpeg \<Rightarrow> MediaChannel \<Rightarrow> int" where
  "probed_ms env c = parseDurationFromFFmpeg (ff_probe env (ch_Path c))"

definition rescaled :: "ffmpeg \<Rightarrow> MediaChannel \<Rightarrow> bool" where
  "rescaled env c \<longleftrightarrow> is_video c \<and> 500 < probed_ms env c"

lemma scale_step_eq:
  "scale_step env actual sc c =
     (if 0 < actual \<and> rescaled env c then of_int actual / of_int (probed_ms env c) else sc)"
proof (cases "probed_ms env c \<le> 0")
  case True
  then show ?thesis
    by (simp add: scale_step_def probeActualDuration_def rescaled_def probed_ms_def Let_def)
next
  case False
  have "(of_int (probed_ms env c) / 1000 > (1 / 2 :: rat)) \<longleftrightarrow> 500 < probed_ms env c"
    by (simp add: field_simps)
  with False show ?thesis
    by (auto simp: scale_step_def probeActualDuration_def rescaled_def probed_ms_def [symmetric] Let_def)
qed

text \<open>
  The video scale is decided by the last video channel whose probed duration is longer than
  half a second, and is 1 when there is none or the session's length is unknown.
\<close>

theorem video_scale_last:
  "video_scale env src actual =
     (if 0 < actual \<and> filter (rescaled env) src \<noteq> []
      then of_int actual / of_int (probed_ms env (last (filter (rescaled env) src))) else 1)"
proof (induction src rule: rev_induct)
  case Nil
  then show ?case by (simp add: video_scale_def)
next
  case (snoc c src)
  have "video_scale env (src @ [c]) actual = scale_step env actual (video_scale env src actual) c"
    by (simp add: video_scale_def)
  with snoc show ?case by (auto simp: scale_step_eq)
qed

section \<open>The piped transcoder\<close>

text \<open>
  \<open>NewTranscoding\<close> only assembles a command; its \<open>stdin\<close> field is never set. \<open>Close\<close> closes
  \<open>stdin\<close> if there is one, and waits for the process only when that worked.
\<close>

record Transcoding_cmd =
  t_args :: "string list"
  t_stdin :: "go_error option option"

definition NewTranscoding :: Transcoding_cmd where
  "NewTranscoding =
     \<lparr>t_args = [''-nostdin'', ''-fflags'', ''+genpts'', ''-i'', ''pipe:0'', ''-f'', ''mp4'',
        ''-movflags'', ''frag_keyframe+empty_moov'', ''pipe:1''], t_stdin = None\<rparr>"

definition Transcoding_Close :: "Transcoding_cmd \<Rightarrow> go_error option \<Rightarrow> go_error option" where
  "Transcoding_Close t wait =
     (case t_stdin t of Some (Some e) \<Rightarrow> Some e | _ \<Rightarrow> wait)"

lemma Transcoding_Close_new: "Transcoding_Close NewTranscoding wait = wait"
  by (simp add: Transcoding_Close_def NewTranscoding_def)

end
