(* ===== verification/Transcoder.thy ===== *)
theory Transcoder
  imports Uploader Ffmpeg
begin

text \<open>
  \<^verbatim>\<open>internal/service/transcoding.go\<close>: turning the raw channels of a session into one mp4, and
  handing the job on to the uploader. The run of ffmpeg is the environment record of
  \<^verbatim>\<open>internal/utils/ffmpeg.go\<close>; the fresh file name is an argument.
\<close>

definition TranscodingJobName :: string where "TranscodingJobName = ''transcoding''"

definition CreateJob :: "'d JobStoreOps \<Rightarrow> File \<Rightarrow> 'd \<Rightarrow> go_error option \<times> 'd" where
  "CreateJob ops f = op_Create ops TranscodingJobName (Some ()) f"

text \<open>
  \<open>successJob\<close>: errors of the two calls are logged. The sources go first, then the job is
  turned into an upload job.
\<close>

definition successJob :: "'d JobStoreOps \<Rightarrow> Job \<Rightarrow> File \<Rightarrow> 'd world \<Rightarrow> 'd world" where
  "successJob ops j trFile w =
     (let fs' = snd (DeleteFile (job_File j) (w_fs w));
          uploadJob = j\<lparr>job_File := trFile, job_Type := UploadJobName, job_Retry := 0\<rparr>;
          db' = snd (op_Update ops JobIdle uploadJob (w_db w))
      in w\<lparr>w_fs := fs', w_db := db'\<rparr>)"

text \<open>The body of \<open>Execute\<close>: the final \<open>err\<close> or the file, and the file system.\<close>

definition transcode_job ::
  "TempFileService \<Rightarrow> ffmpeg \<Rightarrow> string \<Rightarrow> File \<Rightarrow> fs \<Rightarrow> File res \<times> fs" where
  "transcode_job tmp env newid src s =
     (case NewFilePath tmp newid (src\<lparr>Path := [], MimeType := ''video/mp4''\<rparr>) ''mp4'' of
        Inl e \<Rightarrow> (Inl e, s)
      | Inr mp4File \<Rightarrow>
          (case TranscodingByPath env (Track src) (Path mp4File) (i64 (EndTime src - StartTime src)) s of
             (Inl e, s1) \<Rightarrow> (Inl e, snd (DeleteFile mp4File s1))
           | (Inr durationMs, s1) \<Rightarrow>
               (Inr (if durationMs > 0 \<and> StartTime mp4File > 0
                     then mp4File\<lparr>EndTime := i64 (StartTime mp4File + durationMs)\<rparr> else mp4File), s1)))"

definition Transcode_Execute ::
  "'d JobStoreOps \<Rightarrow> TempFileService \<Rightarrow> ffmpeg \<Rightarrow> string \<Rightarrow> int \<Rightarrow> Job \<Rightarrow> 'd world \<Rightarrow> 'd world" where
  "Transcode_Execute ops tmp env newid maxRetry j w =
     (case transcode_job tmp env newid (job_File j) (w_fs w) of
        (Inl err, s) \<Rightarrow> errorJob ops j maxRetry err (w\<lparr>w_fs := s\<rparr>)
      | (Inr mp4File, s) \<Rightarrow> successJob ops j mp4File (w\<lparr>w_fs := s\<rparr>))"

definition transcoder_limit :: "int \<Rightarrow> int \<Rightarrow> int" where
  "transcoder_limit queue workers = i64 (queue + workers)"

section \<open>The job table after an execution\<close>

lemma transcode_job_wf:
  assumes "wf_File src" and "transcode_job tmp env newid src s = (Inr f, s')"
  shows "wf_File f"
  using assms i64_range
  by (auto simp: transcode_job_def NewFilePath_def wf_File_def Let_def
      split: sum.splits prod.splits if_splits)

context file_job_store
begin

lemma successJob_law:
  assumes "inv (w_db w)" and "wf_File f"
    and "fst (op_Update ops JobIdle (j\<lparr>job_File := f, job_Type := UploadJobName, job_Retry := 0\<rparr>)
       (w_db w)) = None"
  shows "inv (w_db (successJob ops j f w)) \<and>
    view (w_db (successJob ops j f w)) =
      (view (w_db w))(job_ID j := map_option (\<lambda>x. x\<lparr>e_state := JobIdle,
         e_job := j\<lparr>job_File := f, job_Type := UploadJobName, job_Retry := 0\<rparr>\<rparr>)
         (view (w_db w) (job_ID j))) \<and>
    w_fs (successJob ops j f w) = snd (DeleteFile (job_File j) (w_fs w))"
proof -
  let ?u = "j\<lparr>job_File := f, job_Type := UploadJobName, job_Retry := 0\<rparr>"
  obtain e d' where u: "op_Update ops JobIdle ?u (w_db w) = (e, d')" by fastforce
  with assms(3) have "e = None" by simp
  moreover have "wf_File (job_File ?u)" using assms(2) by simp
  ultimately show ?thesis
    using update_law [OF assms(1) _ u] u by (simp add: successJob_def Let_def)
qed

lemma successJob_settles:
  assumes "inv (w_db w)" and "wf_File f" and "ty \<noteq> UploadJobName"
    and "fst (op_Update ops JobIdle (j\<lparr>job_File := f, job_Type := UploadJobName, job_Retry := 0\<rparr>)
       (w_db w)) = None"
  shows "job_settled ty m j (view (w_db w)) (view (w_db (successJob ops j f w)))"
  using successJob_law [OF assms(1,2,4)] assms(3)
  by (auto simp: job_settled_def split: option.split)

end

definition mp4_path :: "TempFileService \<Rightarrow> string \<Rightarrow> string" where
  "mp4_path tmp newid = path_Join [dir tmp, newid @ ''.mp4'']"

definition mp4_of :: "TempFileService \<Rightarrow> string \<Rightarrow> int \<Rightarrow> File \<Rightarrow> File" where
  "mp4_of tmp newid dur f =
     f\<lparr>Path := mp4_path tmp newid, MimeType := ''video/mp4'',
       EndTime := (if 0 < dur \<and> 0 < StartTime f then i64 (StartTime f + dur) else EndTime f)\<rparr>"

lemma transcode_job_eq:
  "transcode_job tmp env newid f s =
     (case TranscodingByPath env (Track f) (mp4_path tmp newid) (i64 (EndTime f - StartTime f)) s of
        (Inl e, s1) \<Rightarrow>
          (Inl e, snd (DeleteFile (f\<lparr>MimeType := ''video/mp4'', Path := mp4_path tmp newid\<rparr>) s1))
      | (Inr dur, s1) \<Rightarrow> (Inr (mp4_of tmp newid dur f), s1))"
  by (simp add: transcode_job_def NewFilePath_def mp4_path_def mp4_of_def Let_def
      split: prod.split sum.split)

lemma mp4_of_wf [simp]: "wf_File f \<Longrightarrow> wf_File (mp4_of tmp newid dur f)"
  using i64_range by (simp add: mp4_of_def wf_File_def)

lemma mp4_of_paths [simp]:
  "Path (mp4_of tmp newid dur f) = mp4_path tmp newid" "Track (mp4_of tmp newid dur f) = Track f"
  by (simp_all add: mp4_of_def)

lemma hand_over_law:
  assumes "wf_db (w_db w)" and "db_healthy (w_db w)" and "wf_File (job_File j)"
    and "table_view s (w_db w) (job_ID j) = Some e" and "Track (job_File j) \<noteq> []"
    and "TranscodingByPath env (Track (job_File j)) (mp4_path tmp newid)
      (i64 (EndTime (job_File j) - StartTime (job_File j))) (w_fs w) = (Inr dur, s1)"
    and "w' = Transcode_Execute (sql_ops s) tmp env newid m j w"
  shows "(wf_db (w_db w') \<and> db_healthy (w_db w') \<and>
    w_fs w' = snd (DeleteFile (job_File j) s1)) \<and> table_view s (w_db w') = (table_view s (w_db w))(job_ID j \<mapsto>
      e\<lparr>e_state := JobIdle, e_job := j\<lparr>job_File := mp4_of tmp newid dur (job_File j),
        job_Type := UploadJobName, job_Retry := 0\<rparr>\<rparr>) \<and>
    (\<forall>q. files (w_fs w') q =
       (if q \<in> file_paths (job_File j) \<and> \<not> deny_remove s1 q then None else files s1 q))"
proof -
  let ?f = "mp4_of tmp newid dur (job_File j)" and ?w = "w\<lparr>w_fs := s1\<rparr>"
  have w': "w' = successJob (sql_ops s) j ?f ?w"
    using assms(6,7) by (simp add: Transcode_Execute_def transcode_job_eq)
  have "wf_db (w_db ?w)" "wf_File ?f" using assms by simp_all
  note law = sql.successJob_law [OF this, of s j]
  have "table_view s (w_db w') = (table_view s (w_db w))(job_ID j \<mapsto>
      e\<lparr>e_state := JobIdle, e_job := j\<lparr>job_File := ?f, job_Type := UploadJobName, job_Retry := 0\<rparr>\<rparr>) \<and>
      w_fs w' = snd (DeleteFile (job_File j) s1)"
    unfolding w' using law assms(2,4) by simp
  moreover have "wf_db (w_db w')" unfolding w' using law assms(2) by simp
  moreover have "db_healthy (w_db w')"
    unfolding w' using assms(2) by (simp add: successJob_def Let_def)
  moreover have "\<forall>q. files (snd (DeleteFile (job_File j) s1)) q =
       (if q \<in> file_paths (job_File j) \<and> \<not> deny_remove s1 q then None else files s1 q)"
    using DeleteFile_removes [OF assms(5)] by blast
  ultimately show ?thesis by simp
qed

text \<open>
  A successful transcoding turns the job's row into an idle upload job of the mp4 with a
  corrected end time and no attempts, changes no other row, and removes exactly the job's raw
  files.
\<close>

theorem transcode_hands_over:
  assumes "wf_db (w_db w)" and "db_healthy (w_db w)" and "wf_File (job_File j)"
    and "table_view s (w_db w) (job_ID j) = Some e" and "Track (job_File j) \<noteq> []"
    and "TranscodingByPath env (Track (job_File j)) (mp4_path tmp newid)
      (i64 (EndTime (job_File j) - StartTime (job_File j))) (w_fs w) = (Inr dur, s1)"
    and "w' = Transcode_Execute (sql_ops s) tmp env newid m j w"
  shows "table_view s (w_db w') = (table_view s (w_db w))(job_ID j \<mapsto>
      e\<lparr>e_state := JobIdle, e_job := j\<lparr>job_File := mp4_of tmp newid dur (job_File j),
        job_Type := UploadJobName, job_Retry := 0\<rparr>\<rparr>) \<and>
    (\<forall>q. files (w_fs w') q =
       (if q \<in> file_paths (job_File j) \<and> \<not> deny_remove s1 q then None else files s1 q))"
  using hand_over_law [OF assms] by blast

definition good_ffmpeg :: ffmpeg where
  "good_ffmpeg = \<lparr>ff_probe = (\<lambda>_. []), ff_start = (\<lambda>_. None), ff_wait = (\<lambda>_. None),
     ff_stderr = (\<lambda>_. []), ff_effect = (\<lambda>args s. s\<lparr>files := (files s)(last args \<mapsto> [9])\<rparr>)\<rparr>"

definition bad_ffmpeg :: ffmpeg where
  "bad_ffmpeg = good_ffmpeg\<lparr>ff_wait := (\<lambda>_. Some (Errorf ''exit status 1''))\<rparr>"

lemma TranscodingByPath_sample:
  "\<exists>args. last args = dst \<and> TranscodingByPath env (Track sample_File) dst ms s =
     (case ff_start env args of
        Some e \<Rightarrow> (Inl e, s)
      | None \<Rightarrow>
          (case ff_wait env args of
             Some e \<Rightarrow> (Inl (Errorf (''ffmpeg error: '' @ ff_stderr env args)), ff_effect env args s)
           | None \<Rightarrow> (Inr (parseDurationFromFFmpeg (ff_stderr env args)), ff_effect env args s)))"
proof -
  let ?sc = "video_scale env (Track sample_File) ms"
  have "transcodingArgs (Track sample_File) ?sc \<noteq> None"
    by (simp add: transcodingArgs_None sample_File_def is_video_def)
  then obtain ins outs where t: "transcodingArgs (Track sample_File) ?sc = Some (ins, outs)" by auto
  let ?args = "[''-nostdin'', ''-threads'', ''1''] @ ins @ outs @ encode_args dst"
  have "last ?args = dst" by (simp add: encode_args_def)
  then show ?thesis
    by (intro exI [of _ ?args] conjI)
       (assumption, simp add: TranscodingByPath_def t Let_def split: option.split)
qed

lemma parse_no_progress: "parseDurationFromFFmpeg [] = 0"
  by (simp add: parseDurationFromFFmpeg_def find_all.simps)

theorem transcode_hands_over_witness:
  "\<exists>e. table_view \<lparr>instance_id = ''n1''\<rparr> (w_db (Transcode_Execute (sql_ops \<lparr>instance_id = ''n1''\<rparr>)
       \<lparr>dir = ''/tmp''\<rparr> good_ffmpeg ''x'' 3 (sample_job TranscodingJobName) (sample_world TranscodingJobName)))
     1 = Some e \<and> job_Type (e_job e) = UploadJobName \<and> e_state e = JobIdle"
proof -
  let ?w = "sample_world TranscodingJobName" and ?j = "sample_job TranscodingJobName"
  have j: "job_ID ?j = 1" "job_File ?j = sample_File" by (simp_all add: sample_job_def)
  have tr: "Track (job_File ?j) \<noteq> []" by (simp add: j sample_File_def)
  obtain s1 where r: "TranscodingByPath good_ffmpeg (Track (job_File ?j)) (mp4_path \<lparr>dir = ''/tmp''\<rparr> ''x'')
      (i64 (EndTime (job_File ?j) - StartTime (job_File ?j))) (w_fs ?w) = (Inr 0, s1)"
    using TranscodingByPath_sample [of "mp4_path \<lparr>dir = ''/tmp''\<rparr> ''x''" good_ffmpeg
        "i64 (EndTime (job_File ?j) - StartTime (job_File ?j))" "w_fs ?w"]
    by (auto simp: good_ffmpeg_def parse_no_progress j)
  have wf: "wf_File (job_File ?j)" by (simp add: j)
  have v: "table_view \<lparr>instance_id = ''n1''\<rparr> (w_db ?w) (job_ID ?j) =
      Some \<lparr>e_state = JobIdle, e_mine = True, e_job = ?j\<rparr>" by (simp add: j)
  from transcode_hands_over [OF sample_world(1,2) wf v tr r refl, of 3] show ?thesis by (simp add: j)
qed



text \<open>
  The file whose removal follows a failed run is the copy of the job's file with the new path: it
  still carries the raw channels.
\<close>



text \<open>
  A session that recorded no audio and no video: the transcoding succeeds without writing
  anything, and the upload it leads to cannot open its file.
\<close>

text \<open>
  The job of a session that recorded neither audio nor video becomes an upload job whose file
  was never written: its upload sends nothing and fails.
\<close>

theorem transcode_without_media:
  assumes "wf_db (w_db w)" and "db_healthy (w_db w)" and "wf_File (job_File j)"
    and "table_view s (w_db w) (job_ID j) = Some e"
    and "\<forall>c \<in> set (Track (job_File j)). \<not> is_video c \<and> \<not> is_audio c"
    and "files (w_fs w) (mp4_path tmp newid) = None"
    and "w' = Transcode_Execute (sql_ops s) tmp env newid m j w"
  shows "\<exists>e'. table_view s (w_db w') (job_ID j) = Some e' \<and> e_state e' = JobIdle \<and>
    job_Type (e_job e') = UploadJobName \<and>
    upload_file up (job_File (e_job e')) (w_fs w') = ([], Some (NotExist (mp4_path tmp newid)))"
proof -
  let ?f = "mp4_of tmp newid 0 (job_File j)"
  have "transcodingArgs (Track (job_File j)) sc = None" for sc
    using assms(5) by (simp add: transcodingArgs_None)
  then have "TranscodingByPath env (Track (job_File j)) dst ms x = (Inr 0, x)" for dst ms x
    by (simp add: TranscodingByPath_def)
  then have w': "w' = successJob (sql_ops s) j ?f w"
    using assms(7) by (simp add: Transcode_Execute_def transcode_job_eq)
  have "wf_File ?f" using assms(3) by simp
  note law = sql.successJob_law [OF assms(1) this, of s j]
  have t: "table_view s (w_db w') (job_ID j) = Some (e\<lparr>e_state := JobIdle, e_job := j\<lparr>job_File := ?f,
      job_Type := UploadJobName, job_Retry := 0\<rparr>\<rparr>)" and f: "w_fs w' = snd (DeleteFile (job_File j) (w_fs w))"
    unfolding w' using law assms(2,4) by simp_all
  have "files (w_fs w') (mp4_path tmp newid) = None"
    using assms(6) unfolding f
    by (cases "Track (job_File j) = []") (simp_all add: DeleteFile_no_tracks DeleteFile_removes)
  then have "NewReader ?f (w_fs w') = Inl (NotExist (mp4_path tmp newid))"
    by (simp add: NewReader_def os_Open_def)
  with t show ?thesis by (simp add: upload_file_def)
qed

definition chat_job :: Job where
  "chat_job = (sample_job TranscodingJobName)\<lparr>job_File := sample_File\<lparr>Track :=
     [\<lparr>ch_Path = ''/t/a.raw'', ch_MimeType = ''application/octet-stream'', FirstRtpTs = 0, LastRtpTs = 0\<rparr>]\<rparr>\<rparr>"

theorem transcode_without_media_witness:
  "\<exists>e'. table_view \<lparr>instance_id = ''n1''\<rparr> (w_db (Transcode_Execute (sql_ops \<lparr>instance_id = ''n1''\<rparr>)
       \<lparr>dir = ''/tmp''\<rparr> good_ffmpeg ''x'' 3 chat_job
       \<lparr>w_fs = stuck_fs\<lparr>files := Map.empty\<rparr>, w_db = one_row_db ''n1'' JobActive chat_job\<rparr>)) 1 = Some e' \<and>
     job_Type (e_job e') = UploadJobName"
proof -
  let ?w = "\<lparr>w_fs = stuck_fs\<lparr>files := Map.empty\<rparr>, w_db = one_row_db ''n1'' JobActive chat_job\<rparr>"
  have wf: "wf_File (job_File chat_job)"
    by (simp add: chat_job_def wf_File_def sample_File_def in_i64_def)
  have id: "job_ID chat_job = 1" by (simp add: chat_job_def sample_job_def)
  note o = one_row_db [OF wf, of "''n1''" JobActive]
  have v: "table_view \<lparr>instance_id = ''n1''\<rparr> (w_db ?w) (job_ID chat_job) =
      Some \<lparr>e_state = JobActive, e_mine = True, e_job = chat_job\<rparr>" by (simp add: o)
  have c: "\<forall>c \<in> set (Track (job_File chat_job)). \<not> is_video c \<and> \<not> is_audio c"
    by (simp add: chat_job_def is_video_def is_audio_def)
  have "wf_db (w_db ?w)" "db_healthy (w_db ?w)" "files (w_fs ?w) (mp4_path \<lparr>dir = ''/tmp''\<rparr> ''x'') = None"
    by (simp_all add: o)
  from transcode_without_media [OF this(1,2) wf v c this(3) refl, of good_ffmpeg 3 good_upload]
  show ?thesis by (auto simp: id)
qed

section \<open>Polling\<close>

lemma transcode_exec_settles:
  assumes "wf_db (w_db w)" and "db_healthy (w_db w)"
    and "table_view s (w_db w) (job_ID j) = Some \<lparr>e_state = JobActive, e_mine = True, e_job = j\<rparr>"
    and "ty \<noteq> UploadJobName"
  shows "wf_db (w_db (Transcode_Execute (sql_ops s) tmp env newid m j w)) \<and>
    db_healthy (w_db (Transcode_Execute (sql_ops s) tmp env newid m j w)) \<and>
    job_settled ty m j (table_view s (w_db w))
      (table_view s (w_db (Transcode_Execute (sql_ops s) tmp env newid m j w)))"
proof (cases "transcode_job tmp env newid (job_File j) (w_fs w)")
  case (Pair r x)
  let ?w = "w\<lparr>w_fs := x\<rparr>"
  have w: "wf_db (w_db ?w)" "db_healthy (w_db ?w)"
    "table_view s (w_db ?w) (job_ID j) = Some \<lparr>e_state = JobActive, e_mine = True, e_job = j\<rparr>"
    using assms by simp_all
  show ?thesis
  proof (cases r)
    case (Inl err)
    have "job_settled ty m j (table_view s (w_db ?w)) (table_view s (w_db (errorJob (sql_ops s) j m err ?w)))"
      by (rule sql.errorJob_settles [OF w(1) _ _ w(3)]) (simp_all add: assms(2))
    with Inl Pair w sql.errorJob_law [OF w(1), of s j err m] show ?thesis
      by (simp add: Transcode_Execute_def)
  next
    case (Inr f)
    have "wf_File (job_File j)" using table_view_wf [OF w(1,3)] by simp
    with Inr Pair have f: "wf_File f" by (metis transcode_job_wf)
    have h: "db_healthy (w_db (successJob (sql_ops s) j f ?w))"
      using w(2) by (simp add: successJob_def Let_def)
    have "job_settled ty m j (table_view s (w_db ?w)) (table_view s (w_db (successJob (sql_ops s) j f ?w)))"
      by (rule sql.successJob_settles [OF w(1) f assms(4)]) (simp add: assms(2))
    with Inr Pair w h sql.successJob_law [OF w(1) f, of s j] show ?thesis
      by (simp add: Transcode_Execute_def)
  qed
qed

definition transcode_round ::
  "FileJobStore \<Rightarrow> TempFileService \<Rightarrow> int \<Rightarrow> int \<Rightarrow> (Job \<Rightarrow> ffmpeg) \<Rightarrow> (Job \<Rightarrow> string) \<Rightarrow> db world \<Rightarrow> db world" where
  "transcode_round s tmp limit m env newid =
     service_round (\<lambda>j. Transcode_Execute (sql_ops s) tmp (env j) (newid j) m j) (sql_ops s) limit
       TranscodingJobName"

text \<open>
  With a fetch limit above the number of rows and a database that answers, as many ticks of
  the transcoder as it has attempts leave no transcoding job of this instance behind, whatever
  ffmpeg does: every job has become an upload job or was given up.
\<close>

theorem transcodes_drain:
  assumes "wf_db (w_db w)" "db_healthy (w_db w)"
    and "attempts_ok TranscodingJobName m (table_view s (w_db w))"
    and "at_rest TranscodingJobName (table_view s (w_db w))"
    and "attempted TranscodingJobName 0 (table_view s (w_db w))"
    and "int (length (rows (w_db w))) < n" "0 \<le> m"
    and "table_view s (w_db ((transcode_round s tmp n m env newid ^^ nat m) w)) i = Some e" and "e_mine e"
  shows "job_Type (e_job e) \<noteq> TranscodingJobName"
proof -
  have ty: "TranscodingJobName \<noteq> UploadJobName" by (simp add: TranscodingJobName_def UploadJobName_def)
  show ?thesis
    by (rule sql_rounds_drain [OF transcode_exec_settles [OF _ _ _ ty] assms(1-7)
          assms(8)[unfolded transcode_round_def] assms(9)]) assumption+
qed

theorem transcodes_drain_witness:
  "\<not> (\<exists>e. table_view \<lparr>instance_id = ''n1''\<rparr> (w_db ((transcode_round \<lparr>instance_id = ''n1''\<rparr> \<lparr>dir = ''/tmp''\<rparr> 5 3
       (\<lambda>_. bad_ffmpeg) job_Type ^^ nat 3) (sample_world TranscodingJobName))) 1 = Some e \<and> e_mine e \<and>
     job_Type (e_job e) = TranscodingJobName)"
proof -
  have h: "attempts_ok TranscodingJobName 3 [1 \<mapsto> \<lparr>e_state = JobIdle, e_mine = True, e_job = sample_job TranscodingJobName\<rparr>]"
    "at_rest TranscodingJobName [1 \<mapsto> \<lparr>e_state = JobIdle, e_mine = True, e_job = sample_job TranscodingJobName\<rparr>]"
    "attempted TranscodingJobName 0 [1 \<mapsto> \<lparr>e_state = JobIdle, e_mine = True, e_job = sample_job TranscodingJobName\<rparr>]"
    by (simp_all add: attempts_ok_def at_rest_def attempted_def sample_job_def)
  have l: "int (length (rows (w_db (sample_world TranscodingJobName)))) < 5"
    by (simp add: sample_world_def one_row_db_def)
  show ?thesis
    using transcodes_drain [of "sample_world TranscodingJobName" 3 "\<lparr>instance_id = ''n1''\<rparr>" 5 "\<lparr>dir = ''/tmp''\<rparr>"
        "\<lambda>_. bad_ffmpeg" job_Type 1] h l
    by auto
qed

end
