(* ===== verification/Session_Store.thy ===== *)
theory Session_Store
  imports Prelude
begin

text \<open>
  \<^verbatim>\<open>internal/store/session.go\<close>: the sessions by id, in a cache of bounded size. The cache is
  \<open>simplelru\<close> of \<^verbatim>\<open>hashicorp/golang-lru\<close>, a package outside the repository: its operations are a
  record, its documented behaviour the locale \<open>lru_cache\<close>. What the recorder relies on is the
  weaker contract \<open>session_store\<close>, its interface \<open>SessionStore\<close> of \<^verbatim>\<open>internal/service/webrtc.go\<close>.
\<close>

section \<open>The interface of the recorder\<close>

record ('s, 'v) SessionStoreOps =
  ss_Get :: "string \<Rightarrow> 's \<Rightarrow> 'v res \<times> 's"
  ss_Add :: "string \<Rightarrow> 'v \<Rightarrow> 's \<Rightarrow> go_error option \<times> 's"
  ss_Remove :: "string \<Rightarrow> 's \<Rightarrow> bool \<times> 's"

text \<open>An \<open>Add\<close> may push another session out: the contract promises no more than that.\<close>

locale session_store =
  fixes ops :: "('s, 'v) SessionStoreOps"
    and sview :: "'s \<Rightarrow> string \<rightharpoonup> 'v"
    and sinv :: "'s \<Rightarrow> bool"
  assumes get_law: "\<lbrakk>sinv s; ss_Get ops k s = (r, s')\<rbrakk> \<Longrightarrow> sinv s' \<and> sview s' = sview s \<and>
      (case sview s k of Some v \<Rightarrow> r = Inr v | None \<Rightarrow> \<not> is_ok r)"
    and add_law: "\<lbrakk>sinv s; ss_Add ops k v s = (e, s')\<rbrakk> \<Longrightarrow> sinv s' \<and> e = None \<and>
      sview s' k = Some v \<and> (\<forall>i. i \<noteq> k \<longrightarrow> sview s' i = sview s i \<or> sview s' i = None)"
    and remove_law: "\<lbrakk>sinv s; ss_Remove ops k s = (b, s')\<rbrakk> \<Longrightarrow> sinv s' \<and>
      sview s' = (sview s)(k := None) \<and> b = (sview s k \<noteq> None)"
begin

text \<open>Only the first \<open>Remove\<close> of a session succeeds.\<close>

lemma remove_once:
  assumes "sinv s" and "ss_Remove ops k s = (b, s')" and "ss_Remove ops k s' = (b', s'')"
  shows "\<not> b' \<and> sview s'' = sview s'"
  using remove_law [OF assms(1,2)] remove_law [OF _ assms(3)] by auto

lemma remove_other:
  assumes "sinv s" and "ss_Remove ops k s = (b, s')" and "i \<noteq> k"
  shows "sview s' i = sview s i"
  using remove_law [OF assms(1,2)] assms(3) by simp

lemma add_get:
  assumes "sinv s" and "ss_Add ops k v s = (e, s')" and "ss_Get ops k s' = (r, s'')"
  shows "r = Inr v"
  using add_law [OF assms(1,2)] get_law [OF _ assms(3)] by auto

end

section \<open>The cache\<close>

record ('c, 'v) LruOps =
  lru_Add :: "string \<Rightarrow> 'v \<Rightarrow> 'c \<Rightarrow> bool \<times> 'c"
  lru_Get :: "string \<Rightarrow> 'c \<Rightarrow> 'v option \<times> 'c"
  lru_Remove :: "string \<Rightarrow> 'c \<Rightarrow> bool \<times> 'c"

definition without :: "string \<Rightarrow> (string \<times> 'v) list \<Rightarrow> (string \<times> 'v) list" where
  "without k xs = filter (\<lambda>x. fst x \<noteq> k) xs"

text \<open>The documented behaviour: entries in order of their last use, the oldest evicted.\<close>

locale lru_cache =
  fixes lru :: "('c, 'v) LruOps"
    and entries :: "'c \<Rightarrow> (string \<times> 'v) list"
    and cap :: nat
    and cinv :: "'c \<Rightarrow> bool"
  assumes cap_pos: "0 < cap"
    and cinv_entries: "cinv c0 \<Longrightarrow> distinct (List.map fst (entries c0)) \<and> length (entries c0) \<le> cap"
    and lru_add_law: "\<lbrakk>cinv c; lru_Add lru k v c = (ev, c')\<rbrakk> \<Longrightarrow>
       cinv c' \<and> entries c' = take cap ((k, v) # without k (entries c))"
    and lru_get_law: "\<lbrakk>cinv c; lru_Get lru k c = (r, c')\<rbrakk> \<Longrightarrow>
       cinv c' \<and> r = map_of (entries c) k \<and>
       entries c' = (case r of None \<Rightarrow> entries c | Some w \<Rightarrow> (k, w) # without k (entries c))"
    and lru_remove_law: "\<lbrakk>cinv c; lru_Remove lru k c = (b, c')\<rbrakk> \<Longrightarrow>
       cinv c' \<and> entries c' = without k (entries c) \<and> b = (k \<in> fst ` set (entries c))"

section \<open>SessionStore\<close>

definition cacheClientsSize :: int where "cacheClientsSize = 2000"

definition ErrSessionNotFound :: go_error where
  "ErrSessionNotFound = Errorf ''session not found in cache''"

definition NewSessionStore :: "(int \<Rightarrow> 'c res) \<Rightarrow> 'c outcome" where
  "NewSessionStore NewLRU =
     (case NewLRU cacheClientsSize of Inl e \<Rightarrow> Panics ''lru'' | Inr c \<Rightarrow> Returns c)"

definition SessionStore_Get :: "('c, 'v) LruOps \<Rightarrow> string \<Rightarrow> 'c \<Rightarrow> 'v res \<times> 'c" where
  "SessionStore_Get lru i c =
     (case lru_Get lru i c of
        (Some sess, c') \<Rightarrow> (Inr sess, c')
      | (None, c') \<Rightarrow> (Inl ErrSessionNotFound, c'))"

definition SessionStore_Remove :: "('c, 'v) LruOps \<Rightarrow> string \<Rightarrow> 'c \<Rightarrow> bool \<times> 'c" where
  "SessionStore_Remove lru i c = lru_Remove lru i c"

definition SessionStore_Add :: "('c, 'v) LruOps \<Rightarrow> string \<Rightarrow> 'v \<Rightarrow> 'c \<Rightarrow> go_error option \<times> 'c" where
  "SessionStore_Add lru i sess c = (None, snd (lru_Add lru i sess c))"

definition lru_store :: "('c, 'v) LruOps \<Rightarrow> ('c, 'v) SessionStoreOps" where
  "lru_store lru = \<lparr>ss_Get = SessionStore_Get lru, ss_Add = SessionStore_Add lru,
     ss_Remove = SessionStore_Remove lru\<rparr>"

lemma map_of_without: "map_of (without k xs) i = (if i = k then None else map_of xs i)"
  by (induction xs) (auto simp: without_def)

lemma map_of_take: "map_of (take n xs) i = Some v \<Longrightarrow> map_of xs i = Some v"
  using map_of_append [of "take n xs" "drop n xs"] by (simp add: map_add_find_right)

lemma map_of_take_cases: "map_of (take n xs) i = map_of xs i \<or> map_of (take n xs) i = None"
  using map_of_take [of n xs i] by (cases "map_of (take n xs) i") auto

lemma distinct_without: "distinct (List.map fst xs) \<Longrightarrow> distinct (List.map fst (without k xs))"
  by (simp add: without_def distinct_map_filter)

lemma length_without_member: "(k, v) \<in> set xs \<Longrightarrow> length (without k xs) < length xs"
  unfolding without_def by (rule length_filter_less) auto

lemma take_Cons_take: "take n (x # take n xs) = take n (x # xs)"
  by (cases n) simp_all

lemma without_fresh: "k \<notin> fst ` set xs \<Longrightarrow> without k xs = xs"
  by (induction xs) (auto simp: without_def)

lemma not_in_without: "k \<notin> fst ` set (without k xs)"
  by (auto simp: without_def)

context lru_cache
begin

lemma store_get_law:
  assumes "cinv c" and "SessionStore_Get lru k c = (r, c')"
  shows "cinv c' \<and> map_of (entries c') = map_of (entries c) \<and>
    (case map_of (entries c) k of Some v \<Rightarrow> r = Inr v | None \<Rightarrow> \<not> is_ok r)"
proof -
  obtain x d where g: "lru_Get lru k c = (x, d)" by fastforce
  from lru_get_law [OF assms(1) g] assms(2) g show ?thesis
    by (cases "map_of (entries c) k") (auto simp: SessionStore_Get_def map_of_without fun_eq_iff)
qed

lemma store_add_law:
  assumes "cinv c" and "SessionStore_Add lru k v c = (e, c')"
  shows "cinv c' \<and> e = None \<and> map_of (entries c') k = Some v \<and>
    (\<forall>i. i \<noteq> k \<longrightarrow> map_of (entries c') i = map_of (entries c) i \<or> map_of (entries c') i = None)"
proof -
  obtain ev d where a: "lru_Add lru k v c = (ev, d)" by fastforce
  let ?xs = "(k, v) # without k (entries c)"
  have c': "e = None" "c' = d" using assms(2) a by (simp_all add: SessionStore_Add_def)
  have d: "cinv d" "entries d = take cap ?xs" using lru_add_law [OF assms(1) a] by simp_all
  obtain n where "cap = Suc n" using cap_pos gr0_implies_Suc by blast
  then have "map_of (entries d) k = Some v" unfolding d(2) by simp
  moreover have "map_of (entries d) i = map_of (entries c) i \<or> map_of (entries d) i = None" if "i \<noteq> k" for i
    using map_of_take_cases [of cap ?xs i] d that by (simp add: map_of_without)
  ultimately show ?thesis unfolding c' using d(1) by (intro conjI allI impI) simp_all
qed

lemma store_remove_law:
  assumes "cinv c" and "SessionStore_Remove lru k c = (b, c')"
  shows "cinv c' \<and> map_of (entries c') = (map_of (entries c))(k := None) \<and>
    b = (map_of (entries c) k \<noteq> None)"
  using lru_remove_law [OF assms(1)] assms(2)
  by (auto simp: SessionStore_Remove_def map_of_without fun_eq_iff map_of_eq_None_iff)

end

text \<open>Any such cache gives the recorder the contract it relies on.\<close>

sublocale lru_cache \<subseteq> st: session_store "lru_store lru" "\<lambda>c. map_of (entries c)" cinv
  by (unfold_locales, unfold lru_store_def SessionStoreOps.select_convs)
     (erule (1) store_get_law, erule (1) store_add_law, erule (1) store_remove_law)

context lru_cache
begin

lemma is_store: "session_store (lru_store lru) (\<lambda>c. map_of (entries c)) cinv"
  by (rule st.session_store_axioms)

end

lemmas lru_is_store = lru_cache.is_store

section \<open>A cache with the documented behaviour\<close>

definition list_NewLRU :: "int \<Rightarrow> (string \<times> 'v) list res" where
  "list_NewLRU n = (if n \<le> 0 then Inl (Errorf ''must provide a positive size'') else Inr [])"

definition list_lru :: "nat \<Rightarrow> ((string \<times> 'v) list, 'v) LruOps" where
  "list_lru n =
     \<lparr>lru_Add = (\<lambda>k v c. (k \<notin> fst ` set c \<and> length c \<ge> n, take n ((k, v) # without k c))),
      lru_Get = (\<lambda>k c. (map_of c k,
        case map_of c k of None \<Rightarrow> c | Some w \<Rightarrow> (k, w) # without k c)),
      lru_Remove = (\<lambda>k c. (k \<in> fst ` set c, without k c))\<rparr>"

interpretation lru2000: lru_cache "list_lru (nat cacheClientsSize)" "\<lambda>c. c" "nat cacheClientsSize"
  "\<lambda>c. distinct (List.map fst c) \<and> length c \<le> nat cacheClientsSize"
proof (unfold_locales, unfold list_lru_def LruOps.select_convs)
  show "0 < nat cacheClientsSize" by (simp add: cacheClientsSize_def)
next
  fix c c' :: "(string \<times> 'v) list" and k v ev
  assume d: "distinct (List.map fst c) \<and> length c \<le> nat cacheClientsSize"
    and e: "(k \<notin> fst ` set c \<and> nat cacheClientsSize \<le> length c,
             take (nat cacheClientsSize) ((k, v) # without k c)) = (ev, c')"
  have "distinct (List.map fst ((k, v) # without k c))"
    using distinct_without [of c k] d not_in_without [of k c] by simp
  from distinct_take [OF this, of "nat cacheClientsSize"]
  have "distinct (List.map fst (take (nat cacheClientsSize) ((k, v) # without k c)))"
    by (simp only: take_map)
  with e show "(distinct (List.map fst c') \<and> length c' \<le> nat cacheClientsSize) \<and>
      c' = take (nat cacheClientsSize) ((k, v) # without k c)"
    by auto
next
  fix c c' :: "(string \<times> 'v) list" and k r
  assume d: "distinct (List.map fst c) \<and> length c \<le> nat cacheClientsSize"
    and "(map_of c k, case map_of c k of None \<Rightarrow> c | Some w \<Rightarrow> (k, w) # without k c) = (r, c')"
  moreover have "length ((k, w) # without k c) \<le> length c" if "map_of c k = Some w" for w
    using length_without_member [OF map_of_SomeD [OF that]] by simp
  ultimately show "(distinct (List.map fst c') \<and> length c' \<le> nat cacheClientsSize) \<and> r = map_of c k \<and>
      c' = (case r of None \<Rightarrow> c | Some w \<Rightarrow> (k, w) # without k c)"
    using distinct_without [of c k] not_in_without [of k c] by (fastforce split: option.splits)
next
  fix c c' :: "(string \<times> 'v) list" and k b
  assume "distinct (List.map fst c) \<and> length c \<le> nat cacheClientsSize"
    and "(k \<in> fst ` set c, without k c) = (b, c')"
  then show "(distinct (List.map fst c') \<and> length c' \<le> nat cacheClientsSize) \<and> c' = without k c \<and>
      b = (k \<in> fst ` set c)"
    using distinct_without [of c k] length_filter_le [of "\<lambda>x. fst x \<noteq> k" c] by (auto simp: without_def)
qed simp

lemma list_lru_cache:
  "lru_cache (list_lru 2000) (\<lambda>c. c) 2000 (\<lambda>c. distinct (List.map fst c) \<and> length c \<le> 2000)"
  using lru2000.lru_cache_axioms by (simp add: cacheClientsSize_def)

section \<open>Eviction\<close>

fun add_all :: "('c, 'v) LruOps \<Rightarrow> (string \<times> 'v) list \<Rightarrow> 'c \<Rightarrow> 'c" where
  "add_all lru [] c = c"
| "add_all lru ((k, v) # kvs) c = add_all lru kvs (snd (SessionStore_Add lru k v c))"

context lru_cache
begin

text \<open>As many new sessions as the cache has places leave none of the older ones.\<close>

lemma add_all_entries:
  "\<lbrakk>cinv c; distinct (List.map fst kvs); fst ` set kvs \<inter> fst ` set (entries c) = {}\<rbrakk> \<Longrightarrow>
   cinv (add_all lru kvs c) \<and> entries (add_all lru kvs c) = take cap (rev kvs @ entries c)"
proof (induction kvs rule: rev_induct)
  case Nil
  then show ?case using cinv_entries [of c] by simp
next
  case (snoc kv kvs)
  obtain k v where kv: "kv = (k, v)" by fastforce
  have snoc_add: "add_all lru (xs @ [(k, v)]) x = snd (SessionStore_Add lru k v (add_all lru xs x))" for xs x
    by (induction xs arbitrary: x) auto
  let ?d = "add_all lru kvs c"
  have d: "cinv ?d" "entries ?d = take cap (rev kvs @ entries c)" using snoc by auto
  obtain ev d' where a: "lru_Add lru k v ?d = (ev, d')" by fastforce
  have fresh: "k \<notin> fst ` set (rev kvs @ entries c)" using snoc.prems kv by auto
  have "fst ` set (entries ?d) \<subseteq> fst ` set (rev kvs @ entries c)"
    unfolding d(2) by (rule image_mono) (rule set_take_subset)
  with fresh have w: "without k (entries ?d) = entries ?d" by (intro without_fresh) blast
  have e: "cinv d'" "entries d' = take cap ((k, v) # without k (entries ?d))"
    by (rule conjunct1 [OF lru_add_law [OF d(1) a]], rule conjunct2 [OF lru_add_law [OF d(1) a]])
  have "entries d' = take cap ((k, v) # rev kvs @ entries c)"
    by (simp only: e(2) w) (simp only: d(2) take_Cons_take)
  with e(1) show ?case by (simp add: kv snoc_add SessionStore_Add_def a)
qed

lemma evicted:
  assumes "cinv c" "distinct (List.map fst kvs)" "fst ` set kvs \<inter> fst ` set (entries c) = {}"
    and "cap \<le> length kvs" and "k \<in> fst ` set (entries c)"
  shows "fst (SessionStore_Get lru k (add_all lru kvs c)) = Inl ErrSessionNotFound \<and>
    \<not> fst (SessionStore_Remove lru k (add_all lru kvs c))"
proof -
  let ?d = "add_all lru kvs c"
  have d: "cinv ?d" "entries ?d = take cap (rev kvs)"
    using add_all_entries [OF assms(1-3)] assms(4) by simp_all
  have "fst ` set (entries ?d) \<subseteq> fst ` set kvs"
    using image_mono [OF set_take_subset [of cap "rev kvs"], of fst] by (simp add: d(2))
  with assms(3,5) have k: "k \<notin> fst ` set (entries ?d)" by blast
  then have "map_of (entries ?d) k = None" by (simp add: map_of_eq_None_iff)
  moreover obtain r x b y where g: "lru_Get lru k ?d = (r, x)" and r: "lru_Remove lru k ?d = (b, y)"
    by fastforce
  ultimately have "r = None" "\<not> b" using lru_get_law [OF d(1) g] lru_remove_law [OF d(1) r] k by auto
  then show ?thesis by (simp add: SessionStore_Get_def SessionStore_Remove_def g r)
qed

end

text \<open>
  After 2000 newer sessions an old one is gone from the store: its id is not found, and
  closing it will not find it either, so no job is ever created for it.
\<close>

theorem old_session_lost:
  fixes c :: "(string \<times> 'v) list"
  assumes "distinct (List.map fst c)" "length c \<le> 2000" "distinct (List.map fst kvs)"
    and "fst ` set kvs \<inter> fst ` set c = {}" and "2000 \<le> length kvs" and "k \<in> fst ` set c"
  shows "fst (SessionStore_Get (list_lru 2000) k (add_all (list_lru 2000) kvs c)) = Inl ErrSessionNotFound \<and>
    \<not> fst (SessionStore_Remove (list_lru 2000) k (add_all (list_lru 2000) kvs c))"
  using lru2000.evicted [of c kvs k] assms by (simp add: cacheClientsSize_def)

theorem old_session_lost_witness:
  "\<not> fst (SessionStore_Remove (list_lru 2000) ''s''
      (add_all (list_lru 2000) (List.map (\<lambda>n. (replicate (n + 2) CHR ''x'', ())) [0..<2000]) [(''s'', ())]))"
proof -
  let ?kvs = "List.map (\<lambda>n. (replicate (n + 2) CHR ''x'', ())) [0..<2000]"
  have "inj_on (\<lambda>n. replicate (n + 2) CHR ''x'') (set [0..<2000])" by (auto simp: inj_on_def)
  then have "distinct (List.map fst ?kvs)" by (simp only: map_map comp_def fst_conv distinct_map) simp
  moreover have "fst ` set ?kvs \<inter> fst ` set [(''s'', ())] = {}" by (auto simp: numeral_2_eq_2)
  ultimately show ?thesis
    using old_session_lost [of "[(''s'', ())]" ?kvs "''s''"] by simp
qed

end
