(* ===== verification/Go_Slice.thy ===== *)
theory Go_Slice
  imports Prelude
begin

text \<open>
  Go slices: a header over a backing array, and \<open>append\<close>, which writes into the array while it
  has room and moves to a new one otherwise. Headers that were copied share the array.
\<close>

record slice =
  sl_arr :: nat
  sl_len :: nat

type_synonym 'a arrays = "'a option list list"

definition make_slice :: "nat \<Rightarrow> 'a arrays \<Rightarrow> slice \<times> 'a arrays" where
  "make_slice cap h = (\<lparr>sl_arr = length h, sl_len = 0\<rparr>, h @ [replicate cap None])"

text \<open>The capacity doubles; only the new header refers to the new array.\<close>

definition append_slice :: "'a \<Rightarrow> slice \<Rightarrow> 'a arrays \<Rightarrow> slice \<times> 'a arrays" where
  "append_slice x s h =
     (let arr = h ! sl_arr s; n = sl_len s
      in if n < length arr
         then (s\<lparr>sl_len := Suc n\<rparr>, h[sl_arr s := arr[n := Some x]])
         else (\<lparr>sl_arr = length h, sl_len = Suc n\<rparr>, h @ [take n arr @ Some x # replicate (n - 1) None]))"

definition slice_list :: "slice \<Rightarrow> 'a arrays \<Rightarrow> 'a option list" where
  "slice_list s h = take (sl_len s) (h ! sl_arr s)"

definition wf_slice :: "slice \<Rightarrow> 'a arrays \<Rightarrow> bool" where
  "wf_slice s h \<longleftrightarrow> sl_arr s < length h \<and> sl_len s \<le> length (h ! sl_arr s)"

lemma make_slice_wf: "make_slice cap h = (s, h') \<Longrightarrow> wf_slice s h' \<and> slice_list s h' = []"
  by (auto simp: make_slice_def wf_slice_def slice_list_def)

lemma append_slice_own:
  assumes "wf_slice s h" and "append_slice x s h = (s', h')"
  shows "wf_slice s' h' \<and> slice_list s' h' = slice_list s h @ [Some x]"
proof (cases "sl_len s < length (h ! sl_arr s)")
  case True
  with assms show ?thesis
    by (auto simp: append_slice_def wf_slice_def slice_list_def Let_def take_Suc_conv_app_nth)
next
  case False
  with assms have "sl_len s = length (h ! sl_arr s)" by (simp add: wf_slice_def)
  with assms show ?thesis
    by (auto simp: append_slice_def wf_slice_def slice_list_def Let_def)
qed

text \<open>A copied empty header over the same array: its append replaces the first element.\<close>

lemma append_slice_alias:
  assumes "wf_slice s h" and "0 < sl_len s"
    and "append_slice x \<lparr>sl_arr = sl_arr s, sl_len = 0\<rparr> h = (s', h')"
  shows "slice_list s h' = Some x # tl (slice_list s h)"
proof -
  from assms(1,2) have "0 < length (h ! sl_arr s)" unfolding wf_slice_def by linarith
  with assms have h': "h' = h[sl_arr s := (h ! sl_arr s)[0 := Some x]]"
    by (auto simp: append_slice_def Let_def)
  obtain y ys where y: "h ! sl_arr s = y # ys"
    using \<open>0 < length (h ! sl_arr s)\<close> by (cases "h ! sl_arr s") auto
  obtain n where "sl_len s = Suc n" using assms(2) gr0_implies_Suc by blast
  with y assms(1) show ?thesis by (simp add: h' slice_list_def wf_slice_def)
qed

lemma append_slice_wf_other:
  assumes "wf_slice t h" and "append_slice x s h = (s', h')" and "sl_arr s < length h"
  shows "wf_slice t h'"
  using assms by (auto simp: append_slice_def wf_slice_def Let_def nth_append nth_list_update split: if_splits)

end
