(* ===== verification/Media_Session.thy ===== *)
theory Media_Session
  imports Transcoder Session_Store Go_Slice
begin

text \<open>
  \<^verbatim>\<open>internal/service/media.go\<close>, with \<open>stopVideoSession\<close> of \<^verbatim>\<open>internal/service/webrtc.go\<close>, which
  \<open>close\<close> calls: one recording session, its tracks and its end. The callbacks of the peer
  connection run in goroutines of their own; they are split at the points where they wait, and
  the pieces are interleaved by an event list. The media writers and the sample builder of pion
  are outside the repository: an environment record, and the packets the builder releases.
\<close>

section \<open>State\<close>

datatype enc_kind = IVF | H264W | OGG

text \<open>
  \<open>enc_nil\<close>: an interface holding a nil pointer, which is what a failing constructor leaves; it
  is not the nil interface.
\<close>

record encoder =
  enc_kind :: enc_kind
  enc_nil :: bool
  enc_path :: string

record rtp =
  SequenceNumber :: u16
  Timestamp :: u32
  Payload :: bytes

record media_env =
  me_new :: "enc_kind \<Rightarrow> string \<Rightarrow> go_error option"
  me_write :: "encoder \<Rightarrow> rtp \<Rightarrow> fs \<Rightarrow> go_error option \<times> fs"
  me_close :: "encoder \<Rightarrow> fs \<Rightarrow> go_error option \<times> fs"

record track_obj =
  t_file :: File
  t_writer :: "writer option"
  t_encoder :: "encoder option"
  countPkg :: int

text \<open>
  \<open>s_bound\<close> is the slice header in the copy of the session that \<open>pc.OnDataChannel\<close> binds:
  \<open>onDataChannel\<close> has a value receiver. \<open>s_objs\<close> are the tracks by address.
\<close>

record session =
  s_id :: string
  s_answer :: "string option"
  s_offer :: string
  s_pc :: nat
  s_file :: File
  s_cancelled :: bool
  s_track :: slice
  s_bound :: slice
  s_arrays :: "nat arrays"
  s_objs :: "track_obj list"
  s_count :: int

datatype kind = Video | Audio

record peer =
  pc_transceivers :: "kind list"
  pc_closed :: bool

text \<open>What sessions share: files, jobs, the session store, the clock and the connections.\<close>

record ('d, 's) rec_world =
  rw_fs :: fs
  rw_db :: 'd
  rw_store :: 's
  rw_now :: int
  rw_pcs :: "peer list"

definition NewWebRtcUploadSession :: "string \<Rightarrow> nat \<Rightarrow> File \<Rightarrow> session" where
  "NewWebRtcUploadSession i pc file =
     (case make_slice 2 [] of
        (sl, arrs) \<Rightarrow>
          \<lparr>s_id = i, s_answer = None, s_offer = [], s_pc = pc, s_file = file, s_cancelled = False,
           s_track = sl, s_bound = sl, s_arrays = arrs, s_objs = [], s_count = 0\<rparr>)"

definition AnswerSDP :: "session \<Rightarrow> string" where
  "AnswerSDP s = (case s_answer s of None \<Rightarrow> [] | Some sdp \<Rightarrow> sdp)"

definition ID :: "session \<Rightarrow> string" where
  "ID s = s_id s"

section \<open>Ending a session\<close>

text \<open>
  \<open>stopVideoSession\<close>: who removes the session from the store creates the job. An error of
  \<open>CreateJob\<close> deletes the recording.
\<close>

definition final_file :: "int \<Rightarrow> File \<Rightarrow> File" where
  "final_file now f = (if StartTime f > 0 then f\<lparr>EndTime := now\<rparr> else f)"

definition stopVideoSession ::
  "'d JobStoreOps \<Rightarrow> ('s, 'v) SessionStoreOps \<Rightarrow> session \<Rightarrow> ('d, 's) rec_world \<Rightarrow>
   session \<times> ('d, 's) rec_world" where
  "stopVideoSession ops ss s w =
     (case ss_Remove ss (s_id s) (rw_store w) of
        (False, st) \<Rightarrow> (s, w\<lparr>rw_store := st\<rparr>)
      | (True, st) \<Rightarrow>
          (let file = final_file (rw_now w) (s_file s);
               s1 = s\<lparr>s_file := file\<rparr>
           in case CreateJob ops file (rw_db w) of
                (None, d) \<Rightarrow> (s1, w\<lparr>rw_store := st, rw_db := d\<rparr>)
              | (Some e, d) \<Rightarrow>
                  (s1, w\<lparr>rw_store := st, rw_db := d, rw_fs := snd (DeleteFile file (rw_fs w))\<rparr>)))"

text \<open>Closing one track: the fields become nil whatever the calls return.\<close>

definition close_track :: "media_env \<Rightarrow> track_obj \<Rightarrow> fs \<Rightarrow> track_obj \<times> fs" where
  "close_track env t f =
     (let f1 = (case t_encoder t of None \<Rightarrow> f | Some e \<Rightarrow> snd (me_close env e f))
      in (t\<lparr>t_encoder := None, t_writer := None\<rparr>, f1))"

fun close_tracks :: "media_env \<Rightarrow> nat list \<Rightarrow> track_obj list \<Rightarrow> fs \<Rightarrow> track_obj list \<times> fs" where
  "close_tracks env [] objs f = (objs, f)"
| "close_tracks env (k # ks) objs f =
     (case close_track env (objs ! k) f of (t, f1) \<Rightarrow> close_tracks env ks (objs[k := t]) f1)"

definition session_tracks :: "session \<Rightarrow> nat list" where
  "session_tracks s = List.map the (slice_list (s_track s) (s_arrays s))"

definition pc_Close :: "nat \<Rightarrow> ('d, 's) rec_world \<Rightarrow> ('d, 's) rec_world" where
  "pc_Close i w = w\<lparr>rw_pcs := (rw_pcs w)[i := (rw_pcs w ! i)\<lparr>pc_closed := True\<rparr>]\<rparr>"

definition session_close ::
  "media_env \<Rightarrow> 'd JobStoreOps \<Rightarrow> ('s, 'v) SessionStoreOps \<Rightarrow> session \<Rightarrow> ('d, 's) rec_world \<Rightarrow>
   session \<times> ('d, 's) rec_world" where
  "session_close env ops ss s w =
     (if s_count s \<noteq> 0 then (s, w)
      else
        (case close_tracks env (session_tracks s) (s_objs s) (rw_fs w) of
           (objs, f) \<Rightarrow>
             stopVideoSession ops ss (s\<lparr>s_cancelled := True, s_objs := objs\<rparr>)
               (pc_Close (s_pc s) (w\<lparr>rw_fs := f\<rparr>))))"

section \<open>Data channels\<close>

text \<open>
  \<open>onDataChannel\<close>: the receiver is a copy, so the grown slice and the counter belong to the
  copy, while the backing array and the file are the session's. The address of the track stays
  in the handlers of the channel. \<open>OnClose\<close> only counts down the copy.
\<close>

definition onDataChannel ::
  "TempFileService \<Rightarrow> string \<Rightarrow> string \<Rightarrow> session \<Rightarrow> ('d, 's) rec_world \<Rightarrow>
   nat option \<times> session \<times> ('d, 's) rec_world" where
  "onDataChannel tmp newid label s w =
     (case NewWriter tmp newid (s_file s) ''raw'' (rw_fs w) of
        (Inl e, _, f) \<Rightarrow> (None, s, w\<lparr>rw_fs := f\<rparr>)
      | (Inr wr, file, f) \<Rightarrow>
          (let k = length (s_objs s);
               t = \<lparr>t_file = file, t_writer = Some wr, t_encoder = None, countPkg = 0\<rparr>;
               ch = \<lparr>ch_Path = Path file, ch_MimeType = label, FirstRtpTs = 0, LastRtpTs = 0\<rparr>
           in (Some k,
               s\<lparr>s_objs := s_objs s @ [t], s_arrays := snd (append_slice k (s_bound s) (s_arrays s)),
                 s_file := (s_file s)\<lparr>Track := Track (s_file s) @ [ch]\<rparr>\<rparr>,
               w\<lparr>rw_fs := f\<rparr>)))"

text \<open>\<open>OnMessage\<close>: the writer of the track may have become nil.\<close>

definition onMessage ::
  "nat \<Rightarrow> bytes \<Rightarrow> session \<Rightarrow> ('d, 's) rec_world \<Rightarrow> (session \<times> ('d, 's) rec_world) outcome" where
  "onMessage k msg s w =
     (case t_writer (s_objs s ! k) of
        None \<Rightarrow> Panics ''nil pointer dereference''
      | Some wr \<Rightarrow>
          (case file_Write wr msg (rw_fs w) of
             (wr', f) \<Rightarrow>
               Returns (s\<lparr>s_objs := (s_objs s)[k := (s_objs s ! k)\<lparr>t_writer := Some wr'\<rparr>]\<rparr>, w\<lparr>rw_fs := f\<rparr>)))"

section \<open>Media tracks\<close>

definition MimeTypeVP9 :: string where "MimeTypeVP9 = ''video/VP9''"
definition MimeTypeH264 :: string where "MimeTypeH264 = ''video/H264''"
definition MimeTypeOpus :: string where "MimeTypeOpus = ''audio/opus''"

definition codec_kind :: "string \<Rightarrow> enc_kind option" where
  "codec_kind m =
     (if m = MimeTypeVP9 then Some IVF else if m = MimeTypeH264 then Some H264W
      else if m = MimeTypeOpus then Some OGG else None)"

text \<open>
  \<open>onTrack\<close> up to its loop. \<open>None\<close>: the writer could not be created, and the function returns
  before the track is counted. \<open>Some (k, False)\<close>: the track is registered, but no loop is
  entered and the deferred function is next. The writer for H264 cannot fail, the error of the
  Opus writer is dropped.
\<close>

definition onTrack ::
  "media_env \<Rightarrow> TempFileService \<Rightarrow> string \<Rightarrow> string \<Rightarrow> session \<Rightarrow> ('d, 's) rec_world \<Rightarrow>
   (nat \<times> bool) option \<times> session \<times> ('d, 's) rec_world" where
  "onTrack env tmp newid mime s w =
     (case NewWriter tmp newid (s_file s) ''raw'' (rw_fs w) of
        (Inl e, _, f) \<Rightarrow> (None, s, w\<lparr>rw_fs := f\<rparr>)
      | (Inr wr, file, f) \<Rightarrow>
          (let k = length (s_objs s);
               ch = \<lparr>ch_Path = Path file, ch_MimeType = mime, FirstRtpTs = 0, LastRtpTs = 0\<rparr>;
               cfg = (s_file s)\<lparr>Track := Track (s_file s) @ [ch]\<rparr>;
               cfg' = (if StartTime cfg = 0 then cfg\<lparr>StartTime := rw_now w\<rparr> else cfg);
               (enc, loop) =
                 (case codec_kind mime of
                    None \<Rightarrow> (None, False)
                  | Some IVF \<Rightarrow>
                      (Some \<lparr>enc_kind = IVF, enc_nil = me_new env IVF (Path file) \<noteq> None, enc_path = Path file\<rparr>,
                       me_new env IVF (Path file) = None)
                  | Some H264W \<Rightarrow> (Some \<lparr>enc_kind = H264W, enc_nil = False, enc_path = Path file\<rparr>, True)
                  | Some OGG \<Rightarrow>
                      (Some \<lparr>enc_kind = OGG, enc_nil = me_new env OGG (Path file) \<noteq> None, enc_path = Path file\<rparr>,
                       True));
               file' = (if codec_kind mime = None then file else file\<lparr>MimeType := mime\<rparr>);
               t = \<lparr>t_file = file', t_writer = Some wr, t_encoder = enc, countPkg = 0\<rparr>;
               (sl, arrs) = append_slice k (s_track s) (s_arrays s)
           in (Some (k, loop),
               s\<lparr>s_objs := s_objs s @ [t], s_track := sl, s_arrays := arrs, s_file := cfg',
                 s_count := s_count s + 1\<rparr>,
               w\<lparr>rw_fs := f\<rparr>)))"

text \<open>The variables of the reading loop: which channel of the file it describes is fixed when it starts.\<close>

record track_loop =
  tl_track :: nat
  lsn :: u16
  isVideo :: bool
  trackIdx :: int

definition start_loop :: "nat \<Rightarrow> string \<Rightarrow> session \<Rightarrow> track_loop" where
  "start_loop k mime s =
     \<lparr>tl_track = k, lsn = 0, isVideo = HasPrefix mime ''video'',
      trackIdx = int (length (Track (s_file s))) - 1\<rparr>"

text \<open>The packet release handler. The number of lost packets is only logged; it is the first component.\<close>

definition lost_packets :: "u16 \<Rightarrow> u16 \<Rightarrow> u16 option" where
  "lost_packets prev seq = (if prev \<noteq> 0 \<and> seq \<noteq> prev + 1 then Some (seq - (prev + 1)) else None)"

definition stamp :: "u32 \<Rightarrow> MediaChannel \<Rightarrow> MediaChannel" where
  "stamp ts ch = (if FirstRtpTs ch = 0 then ch\<lparr>FirstRtpTs := ts, LastRtpTs := ts\<rparr> else ch\<lparr>LastRtpTs := ts\<rparr>)"

definition stamp_file :: "track_loop \<Rightarrow> u32 \<Rightarrow> File \<Rightarrow> File" where
  "stamp_file lp ts f =
     (if isVideo lp \<and> trackIdx lp < int (length (Track f))
      then f\<lparr>Track := (Track f)[nat (trackIdx lp) := stamp ts (Track f ! nat (trackIdx lp))]\<rparr> else f)"

definition release ::
  "media_env \<Rightarrow> rtp \<Rightarrow> track_loop \<Rightarrow> session \<Rightarrow> ('d, 's) rec_world \<Rightarrow>
   (u16 option \<times> track_loop \<times> session \<times> ('d, 's) rec_world) outcome" where
  "release env pkt lp s w =
     (let s1 = s\<lparr>s_file := stamp_file lp (Timestamp pkt) (s_file s)\<rparr>;
          lp1 = lp\<lparr>lsn := SequenceNumber pkt\<rparr>
      in case t_encoder (s_objs s ! tl_track lp) of
           None \<Rightarrow> Panics ''nil pointer dereference''
         | Some enc \<Rightarrow>
             (case me_write env enc pkt (rw_fs w) of
                (e, f) \<Rightarrow>
                  Returns (lost_packets (lsn lp) (SequenceNumber pkt), lp1,
                    (if e = None then s1 else s1\<lparr>s_cancelled := True\<rparr>), w\<lparr>rw_fs := f\<rparr>)))"

fun release_all ::
  "media_env \<Rightarrow> rtp list \<Rightarrow> track_loop \<Rightarrow> session \<Rightarrow> ('d, 's) rec_world \<Rightarrow>
   (track_loop \<times> session \<times> ('d, 's) rec_world) outcome" where
  "release_all env [] lp s w = Returns (lp, s, w)"
| "release_all env (p # ps) lp s w =
     (case release env p lp s w of
        Panics m \<Rightarrow> Panics m
      | Returns (_, lp', s', w') \<Rightarrow> release_all env ps lp' s' w')"

text \<open>
  One turn of the loop, with what \<open>ReadRTP\<close> returned and the packets the builder released for
  it. The flag says whether the loop goes on; when it does not, the deferred function is next.
\<close>

definition loop_turn ::
  "media_env \<Rightarrow> go_error option \<Rightarrow> rtp list \<Rightarrow> track_loop \<Rightarrow> session \<Rightarrow> ('d, 's) rec_world \<Rightarrow>
   (bool \<times> track_loop \<times> session \<times> ('d, 's) rec_world) outcome" where
  "loop_turn env read released lp s w =
     (if s_cancelled s then Returns (False, lp, s, w)
      else
        (case read of
           Some e \<Rightarrow> Returns (False, lp, s, w)
         | None \<Rightarrow>
             (let t = s_objs s ! tl_track lp;
                  s1 = s\<lparr>s_objs := (s_objs s)[tl_track lp := t\<lparr>countPkg := countPkg t + 1\<rparr>]\<rparr>
              in case release_all env released lp s1 w of
                   Panics m \<Rightarrow> Panics m
                 | Returns (lp', s2, w2) \<Rightarrow> Returns (True, lp', s2, w2))))"

text \<open>The deferred function of \<open>onTrack\<close>, and the state change of the connection.\<close>

definition track_exit ::
  "media_env \<Rightarrow> 'd JobStoreOps \<Rightarrow> ('s, 'v) SessionStoreOps \<Rightarrow> session \<Rightarrow> ('d, 's) rec_world \<Rightarrow>
   session \<times> ('d, 's) rec_world" where
  "track_exit env ops ss s w = session_close env ops ss (s\<lparr>s_count := s_count s - 1\<rparr>) w"

definition onICEConnectionStateChange ::
  "media_env \<Rightarrow> 'd JobStoreOps \<Rightarrow> ('s, 'v) SessionStoreOps \<Rightarrow> string \<Rightarrow> session \<Rightarrow> ('d, 's) rec_world \<Rightarrow>
   session \<times> ('d, 's) rec_world" where
  "onICEConnectionStateChange env ops ss st s w =
     (if st = ''failed'' then session_close env ops ss (s\<lparr>s_count := 0\<rparr>) w else (s, w))"

section \<open>Negotiation\<close>

record sdp_env =
  sdp_remote :: "string \<Rightarrow> go_error option"
  sdp_answer :: "string res"
  sdp_local :: "string \<Rightarrow> go_error option"
  sdp_result :: "string option"

definition negotiate :: "sdp_env \<Rightarrow> string \<Rightarrow> session \<Rightarrow> go_error option \<times> session" where
  "negotiate env sdpOffer s =
     (let s1 = s\<lparr>s_offer := sdpOffer\<rparr>
      in case sdp_remote env sdpOffer of
           Some e \<Rightarrow> (Some e, s1)
         | None \<Rightarrow>
             (case sdp_answer env of
                Inl e \<Rightarrow> (Some e, s1)
              | Inr answer \<Rightarrow>
                  (case sdp_local env answer of
                     Some e \<Rightarrow> (Some e, s1)
                   | None \<Rightarrow> (None, s1\<lparr>s_answer := sdp_result env\<rparr>))))"

section \<open>One job for one session\<close>

text \<open>The pieces of a session's callbacks, as events.\<close>

datatype session_event =
    Ev_Close
  | Ev_Ice string
  | Ev_DataChannel string string
  | Ev_Message nat bytes
  | Ev_Track string string
  | Ev_TrackExit
  | Ev_Turn "go_error option" "rtp list" track_loop
  | Ev_Negotiate sdp_env string
  | Ev_Clock int

definition session_step ::
  "media_env \<Rightarrow> TempFileService \<Rightarrow> 'd JobStoreOps \<Rightarrow> ('s, 'v) SessionStoreOps \<Rightarrow> session_event \<Rightarrow>
   session \<times> ('d, 's) rec_world \<Rightarrow> (session \<times> ('d, 's) rec_world) outcome" where
  "session_step env tmp ops ss ev sw =
     (case sw of (s, w) \<Rightarrow>
       (case ev of
          Ev_Close \<Rightarrow> Returns (session_close env ops ss s w)
        | Ev_Ice st \<Rightarrow> Returns (onICEConnectionStateChange env ops ss st s w)
        | Ev_DataChannel n l \<Rightarrow> Returns (snd (onDataChannel tmp n l s w))
        | Ev_Message k m \<Rightarrow> onMessage k m s w
        | Ev_Track n m \<Rightarrow> Returns (snd (onTrack env tmp n m s w))
        | Ev_TrackExit \<Rightarrow> Returns (track_exit env ops ss s w)
        | Ev_Turn r ps lp \<Rightarrow>
            (case loop_turn env r ps lp s w of
               Panics m \<Rightarrow> Panics m | Returns (_, _, sw') \<Rightarrow> Returns sw')
        | Ev_Negotiate e o' \<Rightarrow> Returns (snd (negotiate e o' s), w)
        | Ev_Clock t \<Rightarrow> Returns (s, w\<lparr>rw_now := t\<rparr>)))"

fun session_run ::
  "media_env \<Rightarrow> TempFileService \<Rightarrow> 'd JobStoreOps \<Rightarrow> ('s, 'v) SessionStoreOps \<Rightarrow> session_event list \<Rightarrow>
   session \<times> ('d, 's) rec_world \<Rightarrow> (session \<times> ('d, 's) rec_world) outcome" where
  "session_run env tmp ops ss [] sw = Returns sw"
| "session_run env tmp ops ss (ev # evs) sw =
     (case session_step env tmp ops ss ev sw of
        Panics m \<Rightarrow> Panics m | Returns sw' \<Rightarrow> session_run env tmp ops ss evs sw')"

text \<open>All but the end of a session leaves the job table, the session store and the id alone.\<close>

lemma onTrack_frame [go_frame]:
  "rw_db (snd (snd (onTrack env tmp n m s w))) = rw_db w"
  "rw_store (snd (snd (onTrack env tmp n m s w))) = rw_store w"
  "s_id (fst (snd (onTrack env tmp n m s w))) = s_id s"
  by (simp_all add: onTrack_def Let_def split: prod.split sum.split)

lemma onDataChannel_frame [go_frame]:
  "rw_db (snd (snd (onDataChannel tmp n l s w))) = rw_db w"
  "rw_store (snd (snd (onDataChannel tmp n l s w))) = rw_store w"
  "s_id (fst (snd (onDataChannel tmp n l s w))) = s_id s"
  by (simp_all add: onDataChannel_def Let_def split: prod.split sum.split)

lemma release_all_frame:
  "release_all env ps lp s w = Returns (lp', s', w') \<Longrightarrow>
   rw_db w' = rw_db w \<and> rw_store w' = rw_store w \<and> s_id s' = s_id s"
proof (induction env ps lp s w rule: release_all.induct)
  case (2 env p ps lp s w)
  then show ?case
    by (auto simp: release_def Let_def split: outcome.splits option.splits prod.splits)
qed simp

lemma loop_turn_frame:
  "loop_turn env r ps lp s w = Returns (b, lp', s', w') \<Longrightarrow>
   rw_db w' = rw_db w \<and> rw_store w' = rw_store w \<and> s_id s' = s_id s"
  by (auto simp: loop_turn_def Let_def split: if_splits option.splits outcome.splits prod.splits
      dest!: release_all_frame)

lemma onMessage_frame:
  "onMessage k m s w = Returns (s', w') \<Longrightarrow> rw_db w' = rw_db w \<and> rw_store w' = rw_store w \<and> s_id s' = s_id s"
  by (auto simp: onMessage_def split: option.splits prod.splits)

lemma negotiate_frame: "s_id (snd (negotiate e sdp s)) = s_id s"
  by (simp add: negotiate_def Let_def split: option.split sum.split)

lemma pc_Close_frame [simp]:
  "rw_db (pc_Close i w) = rw_db w" "rw_store (pc_Close i w) = rw_store w"
  "rw_now (pc_Close i w) = rw_now w" "rw_fs (pc_Close i w) = rw_fs w"
  by (simp_all add: pc_Close_def)

text \<open>
  What one step may do to the job table: nothing, or, when the session was still in the store,
  one call of \<open>CreateJob\<close> that goes with its removal.
\<close>

definition job_change ::
  "'d JobStoreOps \<Rightarrow> ('s \<Rightarrow> string \<rightharpoonup> 'v) \<Rightarrow> string \<Rightarrow> ('d, 's) rec_world \<Rightarrow> ('d, 's) rec_world \<Rightarrow> bool" where
  "job_change ops sv i w w' \<longleftrightarrow>
     (rw_db w' = rw_db w \<and> sv (rw_store w') i = sv (rw_store w) i) \<or>
     (sv (rw_store w) i \<noteq> None \<and> sv (rw_store w') i = None \<and>
      (\<exists>f. rw_db w' = snd (CreateJob ops f (rw_db w))))"

lemma job_change_same: "rw_db w' = rw_db w \<Longrightarrow> rw_store w' = rw_store w \<Longrightarrow> job_change ops sv i w w'"
  by (simp add: job_change_def)

lemma job_change_trans:
  "job_change ops sv i w w' \<Longrightarrow> job_change ops sv i w' w'' \<Longrightarrow> job_change ops sv i w w''"
  by (auto simp: job_change_def)

context session_store
begin

lemma stop_change:
  assumes "sinv (rw_store w)" and "stopVideoSession jobs ops s w = (s', w')"
  shows "s_id s' = s_id s \<and> sinv (rw_store w') \<and> job_change jobs sview (s_id s) w w'"
proof -
  obtain b st where r: "ss_Remove ops (s_id s) (rw_store w) = (b, st)" by fastforce
  note law = remove_law [OF assms(1) r]
  show ?thesis
  proof (cases b)
    case False
    with law assms(2) r show ?thesis by (auto simp: stopVideoSession_def job_change_def)
  next
    case True
    define fl where "fl = final_file (rw_now w) (s_file s)"
    obtain e d where c: "CreateJob jobs fl (rw_db w) = (e, d)" by fastforce
    have d: "d = snd (CreateJob jobs fl (rw_db w))" by (simp add: c)
    have "s' = s\<lparr>s_file := fl\<rparr> \<and> rw_store w' = st \<and> rw_db w' = d"
      using assms(2) r True c
      by (cases e) (auto simp: stopVideoSession_def Let_def fl_def [symmetric])
    with law True d show ?thesis by (auto simp: job_change_def)
  qed
qed

lemma close_change:
  assumes "sinv (rw_store w)" and "session_close env jobs ops s w = (s', w')"
  shows "s_id s' = s_id s \<and> sinv (rw_store w') \<and> job_change jobs sview (s_id s) w w'"
proof (cases "s_count s = 0")
  case True
  obtain objs f where c: "close_tracks env (session_tracks s) (s_objs s) (rw_fs w) = (objs, f)" by fastforce
  let ?w = "pc_Close (s_pc s) (w\<lparr>rw_fs := f\<rparr>)"
  have "stopVideoSession jobs ops (s\<lparr>s_cancelled := True, s_objs := objs\<rparr>) ?w = (s', w')"
    using assms(2) True c by (simp add: session_close_def)
  from stop_change [OF _ this] assms(1) show ?thesis by (simp add: job_change_def)
next
  case False
  with assms show ?thesis by (auto simp: session_close_def job_change_def)
qed

lemma step_change:
  assumes "sinv (rw_store w)" and "session_step env tmp jobs ops ev (s, w) = Returns (s', w')"
  shows "s_id s' = s_id s \<and> sinv (rw_store w') \<and> job_change jobs sview (s_id s) w w'"
proof (cases ev)
  case Ev_Close
  with assms have "session_close env jobs ops s w = (s', w')" by (simp add: session_step_def)
  from close_change [OF assms(1) this] show ?thesis .
next
  case (Ev_Ice st)
  show ?thesis
  proof (cases "st = ''failed''")
    case True
    with assms Ev_Ice have "session_close env jobs ops (s\<lparr>s_count := 0\<rparr>) w = (s', w')"
      by (simp add: session_step_def onICEConnectionStateChange_def)
    from close_change [OF assms(1) this] show ?thesis by simp
  next
    case False
    with assms Ev_Ice show ?thesis
      by (simp add: session_step_def onICEConnectionStateChange_def job_change_same)
  qed
next
  case (Ev_DataChannel n l)
  with assms have "(s', w') = snd (onDataChannel tmp n l s w)" by (simp add: session_step_def)
  with assms(1) onDataChannel_frame [of tmp n l s w] show ?thesis
    by (metis fst_conv snd_conv job_change_same)
next
  case (Ev_Message k m)
  with assms have "onMessage k m s w = Returns (s', w')" by (simp add: session_step_def)
  from onMessage_frame [OF this] assms(1) show ?thesis by (simp add: job_change_same)
next
  case (Ev_Track n m)
  with assms have "(s', w') = snd (onTrack env tmp n m s w)" by (simp add: session_step_def)
  with assms(1) onTrack_frame [of env tmp n m s w] show ?thesis
    by (metis fst_conv snd_conv job_change_same)
next
  case Ev_TrackExit
  with assms have "session_close env jobs ops (s\<lparr>s_count := s_count s - 1\<rparr>) w = (s', w')"
    by (simp add: session_step_def track_exit_def)
  from close_change [OF assms(1) this] show ?thesis by simp
next
  case (Ev_Turn r ps lp)
  with assms obtain b lp' where "loop_turn env r ps lp s w = Returns (b, lp', s', w')"
    by (auto simp: session_step_def split: outcome.splits)
  from loop_turn_frame [OF this] assms(1) show ?thesis by (simp add: job_change_same)
next
  case (Ev_Negotiate e sdp)
  with assms negotiate_frame show ?thesis by (auto simp: session_step_def job_change_same)
next
  case (Ev_Clock t)
  with assms show ?thesis by (auto simp: session_step_def job_change_same)
qed

lemma run_change:
  "\<lbrakk>sinv (rw_store w); session_run env tmp jobs ops evs (s, w) = Returns (s', w')\<rbrakk> \<Longrightarrow>
   s_id s' = s_id s \<and> sinv (rw_store w') \<and> job_change jobs sview (s_id s) w w'"
proof (induction evs arbitrary: s w)
  case Nil
  then show ?case by (simp add: job_change_same)
next
  case (Cons ev evs)
  then obtain s1 w1 where "session_step env tmp jobs ops ev (s, w) = Returns (s1, w1)"
    "session_run env tmp jobs ops evs (s1, w1) = Returns (s', w')"
    by (auto split: outcome.splits)
  with step_change [OF Cons.prems(1)] Cons.IH job_change_trans show ?case by metis
qed

end

text \<open>
  C6. However the callbacks of a session interleave - tracks, data channels, messages, failed
  connections, several closes - a run that does not panic creates at most one transcoding job
  for the session, and creates it exactly when it removes the session from the store.
\<close>

theorem one_job_per_session:
  assumes "lru_cache lru entries cap cinv" "cinv (rw_store w)"
    and "session_run env tmp jobs (lru_store lru) evs (s, w) = Returns (s', w')"
  shows "(rw_db w' = rw_db w \<and> map_of (entries (rw_store w')) (s_id s) = map_of (entries (rw_store w)) (s_id s)) \<or>
    (map_of (entries (rw_store w)) (s_id s) \<noteq> None \<and> map_of (entries (rw_store w')) (s_id s) = None \<and>
     (\<exists>f. rw_db w' = snd (CreateJob jobs f (rw_db w))))"
  using session_store.run_change [OF lru_is_store [OF assms(1)] assms(2,3)] by (simp add: job_change_def)

definition quiet_env :: media_env where
  "quiet_env = \<lparr>me_new = (\<lambda>_ _. None), me_write = (\<lambda>_ _ f. (None, f)), me_close = (\<lambda>_ f. (None, f))\<rparr>"

definition demo_world :: "(db, (string \<times> nat) list) rec_world" where
  "demo_world = \<lparr>rw_fs = \<lparr>files = Map.empty, deny_open = (\<lambda>_. False), deny_remove = (\<lambda>_. False)\<rparr>,
     rw_db = one_row_db ''n1'' JobIdle (sample_job UploadJobName), rw_store = [(''s1'', 0)], rw_now = 1000,
     rw_pcs = [\<lparr>pc_transceivers = [], pc_closed = False\<rparr>]\<rparr>"

definition demo_session :: session where
  "demo_session = NewWebRtcUploadSession ''s1'' 0 (sample_File\<lparr>Track := []\<rparr>)"

theorem one_job_per_session_witness:
  "\<exists>s' w' f. session_run quiet_env \<lparr>dir = ''/tmp''\<rparr> (sql_ops \<lparr>instance_id = ''n1''\<rparr>) (lru_store (list_lru 2000))
       [Ev_Close, Ev_Ice ''failed'', Ev_Close] (demo_session, demo_world) = Returns (s', w') \<and>
     map_of (rw_store w') ''s1'' = None \<and>
     rw_db w' = snd (CreateJob (sql_ops \<lparr>instance_id = ''n1''\<rparr>) f (rw_db demo_world))"
proof -
  let ?ops = "sql_ops \<lparr>instance_id = ''n1''\<rparr>"
  have i: "distinct (List.map fst (rw_store demo_world)) \<and> length (rw_store demo_world) \<le> 2000"
    by (simp add: demo_world_def)
  have id: "s_id demo_session = ''s1''"
    by (simp add: demo_session_def NewWebRtcUploadSession_def make_slice_def)
  have st: "map_of (rw_store demo_world) ''s1'' = Some 0" by (simp add: demo_world_def)
  obtain s1 w1 where c: "session_close quiet_env ?ops (lru_store (list_lru 2000)) demo_session demo_world = (s1, w1)"
    by fastforce
  obtain s2 w2 where c2: "onICEConnectionStateChange quiet_env ?ops (lru_store (list_lru 2000)) ''failed'' s1 w1 = (s2, w2)"
    by fastforce
  obtain s' w' where c3: "session_close quiet_env ?ops (lru_store (list_lru 2000)) s2 w2 = (s', w')"
    by fastforce
  have r: "session_run quiet_env \<lparr>dir = ''/tmp''\<rparr> ?ops (lru_store (list_lru 2000))
      [Ev_Close, Ev_Ice ''failed'', Ev_Close] (demo_session, demo_world) = Returns (s', w')"
    by (simp add: session_step_def c c2 c3)
  have gone: "map_of (rw_store w1) ''s1'' = None"
  proof -
    have "s_count demo_session = 0"
      by (simp add: demo_session_def NewWebRtcUploadSession_def make_slice_def)
    moreover obtain objs f where "close_tracks quiet_env (session_tracks demo_session) (s_objs demo_session)
        (rw_fs demo_world) = (objs, f)" by fastforce
    ultimately show ?thesis using c
      by (auto simp: session_close_def stopVideoSession_def lru_store_def SessionStore_Remove_def list_lru_def
          id demo_world_def without_def pc_Close_def Let_def split: prod.splits option.splits)
  qed
  have "session_run quiet_env \<lparr>dir = ''/tmp''\<rparr> ?ops (lru_store (list_lru 2000)) [Ev_Close]
      (demo_session, demo_world) = Returns (s1, w1)" by (simp add: session_step_def c)
  from one_job_per_session [OF list_lru_cache i this] gone st
  have d1: "\<exists>f. rw_db w1 = snd (CreateJob ?ops f (rw_db demo_world))" by (auto simp: id)
  have r2: "session_run quiet_env \<lparr>dir = ''/tmp''\<rparr> ?ops (lru_store (list_lru 2000)) [Ev_Ice ''failed'', Ev_Close]
      (s1, w1) = Returns (s', w')" using r by (simp add: session_step_def c)
  have i1: "distinct (List.map fst (rw_store w1)) \<and> length (rw_store w1) \<le> 2000"
    using lru2000.st.close_change [of demo_world quiet_env ?ops demo_session s1 w1] c i
    by (simp add: cacheClientsSize_def)
  have "s_id s1 = ''s1''"
    using lru2000.st.close_change [of demo_world quiet_env ?ops demo_session s1 w1] c i id
    by (simp add: cacheClientsSize_def)
  with one_job_per_session [OF list_lru_cache i1 r2] gone d1 r show ?thesis by auto
qed

end
