(* ===== verification/Media_Tracks.thy ===== *)
theory Media_Tracks
  imports Media_Session
begin

text \<open>
  What closing a session does to its tracks and to the job table, how data channels and media
  tracks share the session, and which RTP timestamps end up in the recorded channels.
\<close>

section \<open>Closing\<close>

definition closed_obj :: "track_obj \<Rightarrow> track_obj" where
  "closed_obj t = t\<lparr>t_encoder := None, t_writer := None\<rparr>"

lemma closed_obj_idem [simp]: "closed_obj (closed_obj t) = closed_obj t"
  by (simp add: closed_obj_def)

lemma close_tracks_objs:
  "\<forall>k \<in> set ks. k < length objs \<Longrightarrow>
   length (fst (close_tracks env ks objs f)) = length objs \<and>
   (\<forall>k < length objs. fst (close_tracks env ks objs f) ! k =
      (if k \<in> set ks then closed_obj (objs ! k) else objs ! k))"
proof (induction env ks objs f rule: close_tracks.induct)
  case (2 env k ks objs f)
  obtain f1 where c: "close_track env (objs ! k) f = (closed_obj (objs ! k), f1)"
    by (simp add: close_track_def closed_obj_def Let_def)
  from 2(1) [OF c [symmetric]] 2(2) show ?case by (auto simp: c nth_list_update)
qed simp

lemma session_close_law:
  assumes "lru_cache lru entries cap cinv" "cinv (rw_store w)"
    and "s_count s = 0" and "map_of (entries (rw_store w)) (s_id s) \<noteq> None"
    and "wf_db (rw_db w)" "db_healthy (rw_db w)" "wf_File (final_file (rw_now w) (s_file s))"
    and "\<forall>k \<in> set (session_tracks s). k < length (s_objs s)" and "s_pc s < length (rw_pcs w)"
    and "session_close env (sql_ops st) (lru_store lru) s w = (s', w')"
  shows "s_cancelled s' \<and> pc_closed (rw_pcs w' ! s_pc s) \<and> map_of (entries (rw_store w')) (s_id s) = None \<and>
    (\<forall>k \<in> set (session_tracks s). t_encoder (s_objs s' ! k) = None \<and> t_writer (s_objs s' ! k) = None) \<and>
    (\<exists>i. table_view st (rw_db w) i = None \<and>
       table_view st (rw_db w') = (table_view st (rw_db w))(i \<mapsto>
         \<lparr>e_state = JobIdle, e_mine = True, e_job = \<lparr>job_ID = i, job_Type = TranscodingJobName,
            job_File = final_file (rw_now w) (s_file s), job_Config = Some (), job_Retry = 0\<rparr>\<rparr>))"
proof -
  let ?file = "final_file (rw_now w) (s_file s)"
  obtain objs f where c: "close_tracks env (session_tracks s) (s_objs s) (rw_fs w) = (objs, f)" by fastforce
  obtain e d where j: "op_Create (sql_ops st) TranscodingJobName (Some ()) ?file (rw_db w) = (e, d)" by fastforce
  with healthy_ops(4) [OF assms(6), of st TranscodingJobName "Some ()" ?file] have "e = None" by simp
  with sql.create_law [OF assms(5,7) j] have tab:
    "\<exists>i. table_view st (rw_db w) i = None \<and> table_view st d = (table_view st (rw_db w))(i \<mapsto>
         \<lparr>e_state = JobIdle, e_mine = True, e_job = \<lparr>job_ID = i, job_Type = TranscodingJobName,
            job_File = ?file, job_Config = Some (), job_Retry = 0\<rparr>\<rparr>)" by simp
  obtain b sto where rm: "ss_Remove (lru_store lru) (s_id s) (rw_store w) = (b, sto)" by fastforce
  have b: "b" "map_of (entries sto) = (map_of (entries (rw_store w)))(s_id s := None)"
    using session_store.remove_law [OF lru_is_store [OF assms(1)] assms(2) rm] assms(4) by simp_all
  have r: "s' = s\<lparr>s_cancelled := True, s_objs := objs, s_file := ?file\<rparr>" "rw_db w' = d"
    "rw_store w' = sto"
    "rw_pcs w' = (rw_pcs w)[s_pc s := (rw_pcs w ! s_pc s)\<lparr>pc_closed := True\<rparr>]"
    using assms(10,3) c rm b(1) j \<open>e = None\<close>
    by (auto simp: session_close_def stopVideoSession_def CreateJob_def pc_Close_def Let_def)
  have "t_encoder (objs ! k) = None \<and> t_writer (objs ! k) = None" if "k \<in> set (session_tracks s)" for k
    using close_tracks_objs [OF assms(8), of env "rw_fs w"] assms(8) that c by (simp add: closed_obj_def)
  with tab show ?thesis
    using assms(9) by (simp add: r b(2))
qed

lemma session_close_db:
  assumes "wf_db (rw_db w)" "db_healthy (rw_db w)" "wf_File (final_file (rw_now w) (s_file s))"
    and "session_close env (sql_ops st) ss s w = (s', w')"
  shows "wf_db (rw_db w') \<and> db_healthy (rw_db w')"
proof -
  obtain e d where c: "op_Create (sql_ops st) TranscodingJobName (Some ())
      (final_file (rw_now w) (s_file s)) (rw_db w) = (e, d)" by fastforce
  from sql.create_law [OF assms(1,3) this] have "wf_db d" by blast
  moreover from c have "db_healthy d"
    using healthy_preserved(4) [OF assms(2), of st TranscodingJobName "Some ()" "final_file (rw_now w) (s_file s)"] by simp
  ultimately show ?thesis using assms(1,2,4)
    by (auto simp: session_close_def stopVideoSession_def CreateJob_def pc_Close_def Let_def c
        split: if_splits prod.splits bool.splits option.splits)
qed



section \<open>Data channels and tracks\<close>

text \<open>
  The header bound at construction is empty, so the first element of the shared array is
  replaced: the media track that was there is no longer among the tracks \<open>close\<close> visits, and
  its encoder is never closed. The session does not count the channel.
\<close>

lemma session_tracks_alias:
  assumes "wf_slice (s_track s) (s_arrays s)" and "session_tracks s = k0 # ks"
    and "s_bound s = \<lparr>sl_arr = sl_arr (s_track s), sl_len = 0\<rparr>"
    and "onDataChannel tmp newid label s w = (Some k, s', w')"
  shows "session_tracks s' = k # ks \<and> s_count s' = s_count s \<and> k = length (s_objs s) \<and>
    length (s_objs s') = Suc (length (s_objs s)) \<and> (\<forall>i < length (s_objs s). s_objs s' ! i = s_objs s ! i) \<and>
    s_track s' = s_track s \<and> t_writer (s_objs s' ! k) \<noteq> None"
proof -
  from assms(4) have k: "k = length (s_objs s)" "s_count s' = s_count s" "s_track s' = s_track s"
    "s_arrays s' = snd (append_slice k (s_bound s) (s_arrays s))"
    "\<exists>t. s_objs s' = s_objs s @ [t] \<and> t_writer t \<noteq> None"
    by (auto simp: onDataChannel_def Let_def split: sum.splits prod.splits)
  have "sl_len (s_track s) > 0"
    using assms(2) by (cases "sl_len (s_track s)") (simp_all add: session_tracks_def slice_list_def)
  from append_slice_alias [OF assms(1) this, of k] have
    "slice_list (s_track s) (s_arrays s') = Some k # tl (slice_list (s_track s) (s_arrays s))"
    unfolding k(4) assms(3) by (metis surjective_pairing)
  then have "session_tracks s' = k # ks"
    using assms(2) by (simp add: session_tracks_def k(3) map_tl)
  with k show ?thesis by (auto simp: nth_append)
qed

lemma session_close_objs:
  assumes "session_close env jobs ss s w = (s', w')"
  shows "s_objs s' = (if s_count s = 0
     then fst (close_tracks env (session_tracks s) (s_objs s) (rw_fs w)) else s_objs s)"
  using assms
  by (auto simp: session_close_def stopVideoSession_def Let_def
      split: prod.splits bool.splits option.splits if_splits)

lemma session_tracks_count [simp]: "session_tracks (s\<lparr>s_count := c\<rparr>) = session_tracks s"
  by (simp add: session_tracks_def)

text \<open>
  A data channel that opens after a media track overwrites that track's place in the backing
  array, because the handler works on a copy of the session made before any track: when the
  session ends, the media track's encoder and writer are never closed.
\<close>

theorem data_channel_leaves_encoder_open:
  assumes "wf_slice (s_track s) (s_arrays s)" and "session_tracks s = k0 # ks"
    and "s_bound s = \<lparr>sl_arr = sl_arr (s_track s), sl_len = 0\<rparr>"
    and "\<forall>i \<in> set (session_tracks s). i < length (s_objs s)" and "k0 \<notin> set ks"
    and "onDataChannel tmp newid label s w = (Some k, s1, w1)"
    and "track_exit env jobs ss s1 w1 = (s2, w2)"
  shows "s_objs s2 ! k0 = s_objs s ! k0"
proof -
  note a = session_tracks_alias [OF assms(1-3,6)]
  have lt: "\<forall>i \<in> set (session_tracks s1). i < length (s_objs s1)" using a assms(2,4) by auto
  have k0: "k0 < length (s_objs s)" "k0 \<notin> set (session_tracks s1)" using a assms(2,4,5) by auto
  have "s_objs s2 = (if s_count s1 - 1 = 0
      then fst (close_tracks env (session_tracks s1) (s_objs s1) (rw_fs w1)) else s_objs s1)"
    using session_close_objs [OF assms(7)[unfolded track_exit_def]] by simp
  with close_tracks_objs [OF lt, of env "rw_fs w1"] a k0 show ?thesis by auto
qed

text \<open>
  The media track ends last: the session closes, and with it the writer of the data channel,
  which still has a handler. Its next message dereferences nil.
\<close>

lemma message_after_close:
  assumes "wf_slice (s_track s) (s_arrays s)" and "session_tracks s = k0 # ks"
    and "s_bound s = \<lparr>sl_arr = sl_arr (s_track s), sl_len = 0\<rparr>"
    and "\<forall>i \<in> set (session_tracks s). i < length (s_objs s)" and "s_count s = 1"
    and "onDataChannel tmp newid label s w = (Some k, s1, w1)"
    and "track_exit env jobs ss s1 w1 = (s2, w2)"
  shows "onMessage k msg s2 w2 = Panics ''nil pointer dereference''"
proof -
  note a = session_tracks_alias [OF assms(1-3,6)]
  have lt: "\<forall>i \<in> set (session_tracks s1). i < length (s_objs s1)" using a assms(2,4) by auto
  have "s_objs s2 = fst (close_tracks env (session_tracks s1) (s_objs s1) (rw_fs w1))"
    using session_close_objs [OF assms(7)[unfolded track_exit_def]] a assms(5) by simp
  with close_tracks_objs [OF lt, of env "rw_fs w1"] a have "t_writer (s_objs s2 ! k) = None"
    by (simp add: closed_obj_def)
  then show ?thesis by (simp add: onMessage_def)
qed

text \<open>
  C26. When a data channel opens while a media track is recorded, and the media track ends, a
  message that then arrives on the data channel dereferences a nil writer and panics: the
  channel's track took the media track's place in the shared array and is not counted, so the
  session closes it while the channel is open.
\<close>

theorem data_message_after_close_panics:
  assumes "wf_slice (s_track s) (s_arrays s)" and "session_tracks s = k0 # ks"
    and "s_bound s = \<lparr>sl_arr = sl_arr (s_track s), sl_len = 0\<rparr>"
    and "\<forall>i \<in> set (session_tracks s). i < length (s_objs s)" and "s_count s = 1"
    and "onDataChannel tmp newid label s w = (Some k, s1, w1)"
  shows "session_run env tmp jobs ss [Ev_TrackExit, Ev_Message k msg] (s1, w1) =
    Panics ''nil pointer dereference''"
proof -
  obtain s2 w2 where t: "track_exit env jobs ss s1 w1 = (s2, w2)" by fastforce
  with message_after_close [OF assms this] show ?thesis by (simp add: session_step_def)
qed

text \<open>A session with one video track, and the data channel that follows.\<close>

definition tmp_svc :: TempFileService where "tmp_svc = \<lparr>dir = ''/tmp''\<rparr>"

definition video_session :: session where
  "video_session = fst (snd (onTrack quiet_env tmp_svc ''v'' MimeTypeVP9 demo_session demo_world))"

definition video_world :: "(db, (string \<times> nat) list) rec_world" where
  "video_world = snd (snd (onTrack quiet_env tmp_svc ''v'' MimeTypeVP9 demo_session demo_world))"

lemma NewWriter_demo:
  assumes "Path f = []" and "deny_open x = (\<lambda>_. False)"
  shows "\<exists>wr file' x'. NewWriter svc n f ''raw'' x = (Inr wr, file', x') \<and> deny_open x' = (\<lambda>_. False) \<and>
     file' = f\<lparr>Path := Path file'\<rparr>"
  using assms by (simp add: NewWriter_def NewFilePath_def os_OpenFile_def split: option.split)

lemma demo_session [simp]:
  "s_id demo_session = ''s1''" "s_count demo_session = 0" "s_objs demo_session = []" "s_pc demo_session = 0"
  "s_file demo_session = sample_File\<lparr>Track := []\<rparr>" "s_track demo_session = \<lparr>sl_arr = 0, sl_len = 0\<rparr>"
  "s_bound demo_session = \<lparr>sl_arr = 0, sl_len = 0\<rparr>" "s_arrays demo_session = [[None, None]]"
  by (simp_all add: demo_session_def NewWebRtcUploadSession_def make_slice_def numeral_2_eq_2)

lemma demo_open: "Path (sample_File\<lparr>Track := []\<rparr>) = []" "deny_open (rw_fs demo_world) = (\<lambda>_. False)"
  by (simp_all add: sample_File_def demo_world_def)

lemma quiet_new [simp]: "me_new quiet_env k p = None"
  by (simp add: quiet_env_def)

lemma codec_kind_simps [simp]:
  "codec_kind MimeTypeVP9 = Some IVF" "codec_kind MimeTypeH264 = Some H264W" "codec_kind MimeTypeOpus = Some OGG"
  by (simp_all add: codec_kind_def MimeTypeVP9_def MimeTypeH264_def MimeTypeOpus_def)

lemma video_session:
  "session_tracks video_session = [0]" "wf_slice (s_track video_session) (s_arrays video_session)"
  "s_bound video_session = \<lparr>sl_arr = sl_arr (s_track video_session), sl_len = 0\<rparr>"
  "length (s_objs video_session) = 1" "s_count video_session = 1"
  "t_encoder (s_objs video_session ! 0) \<noteq> None" "Path (s_file video_session) = []"
  "deny_open (rw_fs video_world) = (\<lambda>_. False)"
  "length (Track (s_file video_session)) = 1" "FirstRtpTs (Track (s_file video_session) ! 0) = 0"
proof -
  obtain wr file' x' where n: "NewWriter tmp_svc ''v'' (sample_File\<lparr>Track := []\<rparr>) ''raw'' (rw_fs demo_world) = (Inr wr, file', x')"
    "deny_open x' = (\<lambda>_. False)"
    using NewWriter_demo [OF demo_open] by blast
  note d = video_session_def video_world_def onTrack_def n(1) Let_def append_slice_def
    session_tracks_def slice_list_def wf_slice_def
  show "session_tracks video_session = [0]" "wf_slice (s_track video_session) (s_arrays video_session)"
    "s_bound video_session = \<lparr>sl_arr = sl_arr (s_track video_session), sl_len = 0\<rparr>"
    "length (s_objs video_session) = 1" "s_count video_session = 1"
    "t_encoder (s_objs video_session ! 0) \<noteq> None" "Path (s_file video_session) = []"
    "deny_open (rw_fs video_world) = (\<lambda>_. False)"
    "length (Track (s_file video_session)) = 1" "FirstRtpTs (Track (s_file video_session) ! 0) = 0"
    using n(2) demo_open(1) by (simp_all add: d)
qed

lemma video_data_channel:
  "\<exists>k s1 w1. onDataChannel tmp_svc ''c'' ''chat'' video_session video_world = (Some k, s1, w1)"
  using NewWriter_demo [OF video_session(7,8), of tmp_svc "''c''"]
  by (auto simp: onDataChannel_def Let_def)

theorem data_channel_leaves_encoder_open_witness:
  "\<exists>k s1 w1 s2 w2. onDataChannel tmp_svc ''c'' ''chat'' video_session video_world = (Some k, s1, w1) \<and>
     track_exit quiet_env (sql_ops \<lparr>instance_id = ''n1''\<rparr>) (lru_store (list_lru 2000)) s1 w1 = (s2, w2) \<and>
     t_encoder (s_objs s2 ! 0) \<noteq> None"
proof -
  obtain k s1 w1 where d: "onDataChannel tmp_svc ''c'' ''chat'' video_session video_world = (Some k, s1, w1)"
    using video_data_channel by blast
  obtain s2 w2 where t: "track_exit quiet_env (sql_ops \<lparr>instance_id = ''n1''\<rparr>) (lru_store (list_lru 2000)) s1 w1 = (s2, w2)"
    by fastforce
  have lt: "\<forall>i \<in> set (session_tracks video_session). i < length (s_objs video_session)"
    by (simp add: video_session(1,4))
  from data_channel_leaves_encoder_open [OF video_session(2,1,3) lt _ d t] show ?thesis
    using d t video_session(6) by auto
qed

theorem data_message_after_close_panics_witness:
  "\<exists>k s1 w1. onDataChannel tmp_svc ''c'' ''chat'' video_session video_world = (Some k, s1, w1) \<and>
     session_run quiet_env tmp_svc (sql_ops \<lparr>instance_id = ''n1''\<rparr>) (lru_store (list_lru 2000))
       [Ev_TrackExit, Ev_Message k [1]] (s1, w1) = Panics ''nil pointer dereference''"
proof -
  obtain k s1 w1 where d: "onDataChannel tmp_svc ''c'' ''chat'' video_session video_world = (Some k, s1, w1)"
    using video_data_channel by blast
  have lt: "\<forall>i \<in> set (session_tracks video_session). i < length (s_objs video_session)"
    by (simp add: video_session(1,4))
  from data_message_after_close_panics [OF video_session(2,1,3) lt video_session(5) d] d show ?thesis by blast
qed

section \<open>Timestamps and losses\<close>

text \<open>The first stamp that is not zero, and the last one.\<close>

definition first_ts :: "u32 list \<Rightarrow> u32" where
  "first_ts ts = (case filter (\<lambda>t. t \<noteq> 0) ts of [] \<Rightarrow> 0 | t # _ \<Rightarrow> t)"

lemma fold_stamp:
  "fold stamp ts ch =
     (if ts = [] then ch
      else ch\<lparr>FirstRtpTs := (if FirstRtpTs ch = 0 then first_ts ts else FirstRtpTs ch), LastRtpTs := last ts\<rparr>)"
  by (induction ts arbitrary: ch) (auto simp: stamp_def first_ts_def)

lemma release_all_stamps:
  "\<lbrakk>release_all env ps lp s w = Returns (lp', s', w'); isVideo lp; 0 \<le> trackIdx lp;
    trackIdx lp < int (length (Track (s_file s)))\<rbrakk> \<Longrightarrow>
   s_file s' = (s_file s)\<lparr>Track := (Track (s_file s))[nat (trackIdx lp) :=
     fold stamp (List.map Timestamp ps) (Track (s_file s) ! nat (trackIdx lp))]\<rparr>"
proof (induction env ps lp s w rule: release_all.induct)
  case (1 env lp s w)
  then show ?case by simp
next
  case (2 env p ps lp s w)
  from 2(2) obtain x lp1 s1 w1 where r: "release env p lp s w = Returns (x, lp1, s1, w1)"
    "release_all env ps lp1 s1 w1 = Returns (lp', s', w')"
    by (auto split: outcome.splits)
  let ?i = "nat (trackIdx lp)"
  have lp1: "isVideo lp1 = isVideo lp" "trackIdx lp1 = trackIdx lp"
    and f1: "s_file s1 = (s_file s)\<lparr>Track := (Track (s_file s))[?i := stamp (Timestamp p) (Track (s_file s) ! ?i)]\<rparr>"
    using r(1) 2(3-5) by (auto simp: release_def stamp_file_def Let_def split: option.splits prod.splits if_splits)
  have i: "?i < length (Track (s_file s))" using 2(4,5) by linarith
  have "s_file s' = (s_file s1)\<lparr>Track := (Track (s_file s1))[?i :=
     fold stamp (List.map Timestamp ps) (Track (s_file s1) ! ?i)]\<rparr>"
    using 2(1) [OF r(1)] r(2) 2(3-5) lp1 f1 by simp
  then show ?case using i by (simp add: f1)
qed

text \<open>
  For the packets released to a video track, the channel of the file keeps the first timestamp
  that is not zero and the timestamp of the last packet, and the other channels are untouched.
\<close>

theorem recorded_timestamps:
  assumes "release_all env ps lp s w = Returns (lp', s', w')" and "isVideo lp" and "ps \<noteq> []"
    and "trackIdx lp = int i" and "i < length (Track (s_file s))"
    and "FirstRtpTs (Track (s_file s) ! i) = 0"
  shows "FirstRtpTs (Track (s_file s') ! i) = first_ts (List.map Timestamp ps) \<and>
    LastRtpTs (Track (s_file s') ! i) = Timestamp (last ps) \<and>
    (\<forall>k. k \<noteq> i \<longrightarrow> k < length (Track (s_file s)) \<longrightarrow> Track (s_file s') ! k = Track (s_file s) ! k)"
  using release_all_stamps [OF assms(1,2)] assms(3-6) by (simp add: fold_stamp last_map)

definition demo_loop :: track_loop where
  "demo_loop = start_loop 0 MimeTypeVP9 video_session"

definition two_packets :: "rtp list" where
  "two_packets = [\<lparr>SequenceNumber = 1, Timestamp = 0, Payload = []\<rparr>, \<lparr>SequenceNumber = 2, Timestamp = 90, Payload = []\<rparr>]"

theorem recorded_timestamps_witness:
  "\<exists>lp' s' w'. release_all quiet_env two_packets demo_loop video_session video_world = Returns (lp', s', w') \<and>
     FirstRtpTs (Track (s_file s') ! 0) = 90 \<and> LastRtpTs (Track (s_file s') ! 0) = 90"
proof -
  note tr = video_session(9,10)
  have lp: "isVideo demo_loop" "trackIdx demo_loop = int 0" "tl_track demo_loop = 0"
    using tr by (simp_all add: demo_loop_def start_loop_def MimeTypeVP9_def)
  obtain enc where e: "t_encoder (s_objs video_session ! 0) = Some enc" using video_session(6) by blast
  have "\<exists>lp' s' w'. release_all quiet_env two_packets demo_loop video_session video_world = Returns (lp', s', w')"
    by (simp add: two_packets_def release_def e lp quiet_env_def Let_def)
  then obtain lp' s' w' where r: "release_all quiet_env two_packets demo_loop video_session video_world = Returns (lp', s', w')"
    by blast
  have ne: "two_packets \<noteq> []" by (simp add: two_packets_def)
  have i: "0 < length (Track (s_file video_session))" using tr by simp
  from recorded_timestamps [OF r lp(1) ne lp(2) i tr(2)] r show ?thesis
    by (auto simp: two_packets_def first_ts_def)
qed

text \<open>
  The index is read after the channel was appended, so between the two another track may have
  come: then the timestamps of the first go to the channel of the second.
\<close>

text \<open>
  Two tracks that start together: if the second is registered before the first one's loop
  begins, the first loop takes the second's channel for its own.
\<close>

theorem track_index_race:
  assumes "onTrack env tmp n1 m1 s w = (Some (k1, b1), s1, w1)"
    and "onTrack env tmp n2 m2 s1 w1 = (Some (k2, b2), s2, w2)"
  shows "trackIdx (start_loop k1 m1 s1) = int (length (Track (s_file s))) \<and>
    trackIdx (start_loop k1 m1 s2) = int (length (Track (s_file s))) + 1 \<and>
    ch_MimeType (Track (s_file s2) ! nat (trackIdx (start_loop k1 m1 s1))) = m1 \<and>
    ch_MimeType (Track (s_file s2) ! nat (trackIdx (start_loop k1 m1 s2))) = m2"
proof -
  have t: "\<exists>p. Track (s_file s') = Track (s_file s) @ [\<lparr>ch_Path = p, ch_MimeType = m, FirstRtpTs = 0, LastRtpTs = 0\<rparr>]"
    if "onTrack env tmp n m s w = (Some (k, b), s', w')" for n m s k b s' and w w' :: "('e, 'f) rec_world"
    using that by (auto simp: onTrack_def Let_def split: sum.splits prod.splits)
  obtain p1 p2 where
    "Track (s_file s1) = Track (s_file s) @ [\<lparr>ch_Path = p1, ch_MimeType = m1, FirstRtpTs = 0, LastRtpTs = 0\<rparr>]"
    "Track (s_file s2) = Track (s_file s1) @ [\<lparr>ch_Path = p2, ch_MimeType = m2, FirstRtpTs = 0, LastRtpTs = 0\<rparr>]"
    using t [OF assms(1)] t [OF assms(2)] by blast
  then show ?thesis by (simp add: start_loop_def nth_append nat_add_distrib)
qed

theorem track_index_race_witness:
  "\<exists>k1 s1 w1 k2 s2 w2. onTrack quiet_env tmp_svc ''v'' MimeTypeVP9 demo_session demo_world = (Some (k1, True), s1, w1) \<and>
     onTrack quiet_env tmp_svc ''a'' MimeTypeOpus s1 w1 = (Some (k2, True), s2, w2) \<and>
     ch_MimeType (Track (s_file s2) ! nat (trackIdx (start_loop k1 MimeTypeVP9 s2))) = MimeTypeOpus"
proof -
  have ok: "\<exists>k s' w'. onTrack quiet_env tmp_svc n m s w = (Some (k, True), s', w') \<and>
      Path (s_file s') = [] \<and> deny_open (rw_fs w') = (\<lambda>_. False)"
    if "Path (s_file s) = []" "deny_open (rw_fs w) = (\<lambda>_. False)" "codec_kind m \<noteq> None"
    for n m s and w :: "(db, (string \<times> nat) list) rec_world"
    using NewWriter_demo [OF that(1,2), of tmp_svc n] that
    by (fastforce simp: onTrack_def Let_def split: enc_kind.splits prod.splits)
  obtain k1 s1 w1 where a: "onTrack quiet_env tmp_svc ''v'' MimeTypeVP9 demo_session demo_world = (Some (k1, True), s1, w1)"
    and p1: "Path (s_file s1) = []" "deny_open (rw_fs w1) = (\<lambda>_. False)"
    using ok [of demo_session demo_world MimeTypeVP9 "''v''"] demo_open by auto
  obtain k2 s2 w2 where b: "onTrack quiet_env tmp_svc ''a'' MimeTypeOpus s1 w1 = (Some (k2, True), s2, w2)"
    using ok [OF p1, of MimeTypeOpus "''a''"] by auto
  from track_index_race [OF a b] a b show ?thesis by blast
qed

text \<open>The reported loss is the number of missing packets, across the wrap of the sequence number.\<close>

text \<open>
  The number of lost packets that is logged is the number missing between two sequence
  numbers, also across the wrap-around of the 16-bit counter.
\<close>

theorem lost_packets_count:
  assumes "prev \<noteq> 0" and "m < 65536"
  shows "lost_packets prev (prev + 1 + of_nat m) = (if m = 0 then None else Some (of_nat m)) \<and>
    unat (of_nat m :: u16) = m"
proof -
  have m: "unat (of_nat m :: u16) = m" using assms(2) by (simp add: unat_of_nat)
  then have z: "(of_nat m :: u16) = 0 \<longleftrightarrow> m = 0" by fastforce
  have e: "(prev + 1 + x = prev + 1) = (x = 0)" "prev + 1 + x - (prev + 1) = x" for x :: u16 by simp_all
  have "lost_packets prev (prev + 1 + of_nat m) = (if m = 0 then None else Some (of_nat m))"
    unfolding lost_packets_def e z using assms(1) by simp
  with m show ?thesis by (intro conjI)
qed

theorem lost_packets_count_witness:
  "lost_packets 65535 2 = Some 2"
proof -
  have e: "(65535 + 1 + of_nat 2 :: u16) = 2" by simp
  have "lost_packets 65535 (65535 + 1 + of_nat 2) = Some 2"
    using lost_packets_count [of 65535 2] by simp
  then show ?thesis unfolding e .
qed

end
