(* ===== verification/Recorder.thy ===== *)
theory Recorder
  imports Media_Tracks
begin

text \<open>
  \<^verbatim>\<open>internal/service/webrtc.go\<close>: starting, renegotiating and stopping sessions. The WebRTC
  stack is outside the repository: which of its calls fail, and the descriptions it produces,
  are an environment record. Sessions live on a heap; the store holds their addresses.
\<close>

record rec_env =
  re_new_pc :: "go_error option"
  re_transceiver :: "nat \<Rightarrow> go_error option"
  re_sdp :: sdp_env

record ('d, 's) recorder =
  rc_heap :: "session list"
  rc_world :: "('d, 's) rec_world"

text \<open>\<open>AddTransceiverFromKind\<close>, the \<open>n\<close>-th call.\<close>

definition add_transceiver ::
  "rec_env \<Rightarrow> nat \<Rightarrow> nat \<Rightarrow> kind \<Rightarrow> ('d, 's) rec_world \<Rightarrow> go_error option \<times> ('d, 's) rec_world" where
  "add_transceiver env n pc k w =
     (case re_transceiver env n of
        Some e \<Rightarrow> (Some e, w)
      | None \<Rightarrow> (None, w\<lparr>rw_pcs := (rw_pcs w)[pc :=
          (rw_pcs w ! pc)\<lparr>pc_transceivers := pc_transceivers (rw_pcs w ! pc) @ [k]\<rparr>]\<rparr>))"

fun add_transceivers ::
  "rec_env \<Rightarrow> nat \<Rightarrow> nat \<Rightarrow> kind list \<Rightarrow> ('d, 's) rec_world \<Rightarrow> go_error option \<times> ('d, 's) rec_world" where
  "add_transceivers env n pc [] w = (None, w)"
| "add_transceivers env n pc (k # ks) w =
     (case add_transceiver env n pc k w of
        (Some e, w') \<Rightarrow> (Some e, w')
      | (None, w') \<Rightarrow> add_transceivers env (Suc n) pc ks w')"

definition wanted_kinds :: "string \<Rightarrow> kind list" where
  "wanted_kinds sdpOffer =
     [Video] @ (if str_Index sdpOffer ''m=video'' \<noteq> None then [Video] else []) @
     (if str_Index sdpOffer ''m=audio'' \<noteq> None then [Audio] else [])"

definition UploadP2PVideo ::
  "media_env \<Rightarrow> rec_env \<Rightarrow> 'd JobStoreOps \<Rightarrow> ('s, nat) SessionStoreOps \<Rightarrow> string \<Rightarrow> string \<Rightarrow> File \<Rightarrow>
   ('d, 's) recorder \<Rightarrow> nat res \<times> ('d, 's) recorder" where
  "UploadP2PVideo menv env ops ss newid sdpOffer file rc =
     (case re_new_pc env of
        Some e \<Rightarrow> (Inl e, rc)
      | None \<Rightarrow>
          (let w = rc_world rc; pc = length (rw_pcs w);
               w0 = w\<lparr>rw_pcs := rw_pcs w @ [\<lparr>pc_transceivers = [], pc_closed = False\<rparr>]\<rparr>
           in case add_transceivers env 0 pc (wanted_kinds sdpOffer) w0 of
                (Some e, w1) \<Rightarrow> (Inl e, rc\<lparr>rc_world := w1\<rparr>)
              | (None, w1) \<Rightarrow>
                  (let a = length (rc_heap rc); s = NewWebRtcUploadSession newid pc file
                   in case negotiate (re_sdp env) sdpOffer s of
                        (Some e, s1) \<Rightarrow>
                          (case session_close menv ops ss s1 w1 of
                             (s2, w2) \<Rightarrow> (Inl e, \<lparr>rc_heap = rc_heap rc @ [s2], rc_world = w2\<rparr>))
                      | (None, s1) \<Rightarrow>
                          (case ss_Add ss newid a (rw_store w1) of
                             (Some e, st) \<Rightarrow>
                               (Inl e, \<lparr>rc_heap = rc_heap rc @ [s1], rc_world = w1\<lparr>rw_store := st\<rparr>\<rparr>)
                           | (None, st) \<Rightarrow>
                               (Inr a, \<lparr>rc_heap = rc_heap rc @ [s1], rc_world = w1\<lparr>rw_store := st\<rparr>\<rparr>)))))"

definition RenegotiateP2P ::
  "media_env \<Rightarrow> sdp_env \<Rightarrow> 'd JobStoreOps \<Rightarrow> ('s, nat) SessionStoreOps \<Rightarrow> string \<Rightarrow> string \<Rightarrow>
   ('d, 's) recorder \<Rightarrow> nat res \<times> ('d, 's) recorder" where
  "RenegotiateP2P menv env ops ss i sdpOffer rc =
     (case ss_Get ss i (rw_store (rc_world rc)) of
        (Inl e, st) \<Rightarrow>
          (Inl (Errorf (''p2p session with id '' @ i @ '' not found'')),
           rc\<lparr>rc_world := (rc_world rc)\<lparr>rw_store := st\<rparr>\<rparr>)
      | (Inr a, st) \<Rightarrow>
          (let w = (rc_world rc)\<lparr>rw_store := st\<rparr>
           in case negotiate env sdpOffer (rc_heap rc ! a) of
                (None, s1) \<Rightarrow> (Inr a, \<lparr>rc_heap = (rc_heap rc)[a := s1], rc_world = w\<rparr>)
              | (Some e, s1) \<Rightarrow>
                  (case session_close menv ops ss s1 w of
                     (s2, w2) \<Rightarrow> (Inl e, \<lparr>rc_heap = (rc_heap rc)[a := s2], rc_world = w2\<rparr>))))"

definition CloseP2P ::
  "media_env \<Rightarrow> 'd JobStoreOps \<Rightarrow> ('s, nat) SessionStoreOps \<Rightarrow> string \<Rightarrow>
   ('d, 's) recorder \<Rightarrow> go_error option \<times> ('d, 's) recorder" where
  "CloseP2P menv ops ss i rc =
     (case ss_Get ss i (rw_store (rc_world rc)) of
        (Inl e, st) \<Rightarrow> (Some e, rc\<lparr>rc_world := (rc_world rc)\<lparr>rw_store := st\<rparr>\<rparr>)
      | (Inr a, st) \<Rightarrow>
          (case session_close menv ops ss (rc_heap rc ! a) ((rc_world rc)\<lparr>rw_store := st\<rparr>) of
             (s2, w2) \<Rightarrow> (None, \<lparr>rc_heap = (rc_heap rc)[a := s2], rc_world = w2\<rparr>)))"

section \<open>Starting a session\<close>

lemma add_transceivers_ok:
  "\<lbrakk>add_transceivers env n pc ks w = (None, w'); pc < length (rw_pcs w)\<rbrakk> \<Longrightarrow>
   w' = w\<lparr>rw_pcs := (rw_pcs w)[pc :=
     (rw_pcs w ! pc)\<lparr>pc_transceivers := pc_transceivers (rw_pcs w ! pc) @ ks\<rparr>]\<rparr>"
proof (induction env n pc ks w rule: add_transceivers.induct)
  case (2 env n pc k ks w)
  then obtain w1 where a: "add_transceiver env n pc k w = (None, w1)" "add_transceivers env (Suc n) pc ks w1 = (None, w')"
    by (auto split: prod.splits option.splits)
  then have w1: "w1 = w\<lparr>rw_pcs := (rw_pcs w)[pc :=
      (rw_pcs w ! pc)\<lparr>pc_transceivers := pc_transceivers (rw_pcs w ! pc) @ [k]\<rparr>]\<rparr>"
    by (auto simp: add_transceiver_def split: option.splits)
  with 2(1) [OF a(1) [symmetric] refl a(2)] 2(3) show ?case by simp
qed simp

lemma pc_closed_update: "pc_closed (xs[k := (xs ! k)\<lparr>pc_transceivers := t\<rparr>] ! i) = pc_closed (xs ! i)"
  by (cases "k < length xs"; cases "i = k") (simp_all add: list_update_beyond)

lemma add_transceiver_frame:
  assumes "add_transceiver env n pc k w = (e, w')"
  shows "rw_db w' = rw_db w \<and> rw_store w' = rw_store w \<and> rw_fs w' = rw_fs w \<and>
   length (rw_pcs w') = length (rw_pcs w) \<and>
   (\<forall>i. pc_closed (rw_pcs w' ! i) = pc_closed (rw_pcs w ! i))"
proof (cases "re_transceiver env n")
  case None
  with assms have "w' = w\<lparr>rw_pcs := (rw_pcs w)[pc :=
      (rw_pcs w ! pc)\<lparr>pc_transceivers := pc_transceivers (rw_pcs w ! pc) @ [k]\<rparr>]\<rparr>"
    by (simp add: add_transceiver_def)
  then show ?thesis by (simp add: pc_closed_update)
next
  case (Some x)
  with assms show ?thesis by (simp add: add_transceiver_def)
qed

lemma add_transceivers_frame:
  "add_transceivers env n pc ks w = (e, w') \<Longrightarrow>
   rw_db w' = rw_db w \<and> rw_store w' = rw_store w \<and> rw_fs w' = rw_fs w \<and>
   length (rw_pcs w') = length (rw_pcs w) \<and>
   (\<forall>i. pc_closed (rw_pcs w' ! i) = pc_closed (rw_pcs w ! i))"
proof (induction env n pc ks w rule: add_transceivers.induct)
  case (2 env n pc k ks w)
  obtain e1 w1 where a: "add_transceiver env n pc k w = (e1, w1)" by fastforce
  have f: "rw_db w1 = rw_db w" "rw_store w1 = rw_store w" "rw_fs w1 = rw_fs w"
    "length (rw_pcs w1) = length (rw_pcs w)" "pc_closed (rw_pcs w1 ! i) = pc_closed (rw_pcs w ! i)" for i
    using add_transceiver_frame [OF a] by blast+
  show ?case
  proof (cases e1)
    case None
    with 2 a f show ?thesis by fastforce
  next
    case (Some x)
    with 2(2) a f show ?thesis by simp
  qed
qed simp

lemma upload_registered:
  assumes "lru_cache lru entries cap cinv" "cinv (rw_store (rc_world rc))"
    and "UploadP2PVideo menv env ops (lru_store lru) newid offer file rc = (Inr a, rc')"
  shows "fst (ss_Get (lru_store lru) newid (rw_store (rc_world rc'))) = Inr a \<and>
    a < length (rc_heap rc') \<and> s_id (rc_heap rc' ! a) = newid \<and>
    s_answer (rc_heap rc' ! a) = sdp_result (re_sdp env) \<and> s_file (rc_heap rc' ! a) = file \<and>
    rw_pcs (rc_world rc') ! s_pc (rc_heap rc' ! a) =
      \<lparr>pc_transceivers = wanted_kinds offer, pc_closed = False\<rparr> \<and>
    rw_db (rc_world rc') = rw_db (rc_world rc)"
proof -
  let ?w = "rc_world rc" and ?pc = "length (rw_pcs (rc_world rc))"
  let ?w0 = "?w\<lparr>rw_pcs := rw_pcs ?w @ [\<lparr>pc_transceivers = [], pc_closed = False\<rparr>]\<rparr>"
  let ?s = "NewWebRtcUploadSession newid ?pc file"
  from assms(3) obtain w1 where t: "add_transceivers env 0 ?pc (wanted_kinds offer) ?w0 = (None, w1)"
    by (auto simp: UploadP2PVideo_def Let_def split: option.splits prod.splits)
  from assms(3) t obtain s1 where n: "negotiate (re_sdp env) offer ?s = (None, s1)"
    by (auto simp: UploadP2PVideo_def Let_def split: option.splits prod.splits)
  obtain e st where add: "ss_Add (lru_store lru) newid (length (rc_heap rc)) (rw_store w1) = (e, st)"
    by fastforce
  have w1: "w1 = ?w0\<lparr>rw_pcs := (rw_pcs ?w0)[?pc := \<lparr>pc_transceivers = wanted_kinds offer, pc_closed = False\<rparr>]\<rparr>"
    using add_transceivers_ok [OF t] by simp
  have s1: "s_id s1 = newid" "s_pc s1 = ?pc" "s_file s1 = file" "s_answer s1 = sdp_result (re_sdp env)"
    using n by (auto simp: negotiate_def NewWebRtcUploadSession_def make_slice_def Let_def
        split: option.splits sum.splits)
  have st: "cinv (rw_store w1)" using assms(2) by (simp add: w1)
  have r: "a = length (rc_heap rc)" "rc' = \<lparr>rc_heap = rc_heap rc @ [s1], rc_world = w1\<lparr>rw_store := st\<rparr>\<rparr>"
    using assms(3) t n add by (auto simp: UploadP2PVideo_def Let_def split: option.splits)
  have "fst (ss_Get (lru_store lru) newid st) = Inr (length (rc_heap rc))"
    using session_store.add_get [OF lru_is_store [OF assms(1)] st add] by (metis surjective_pairing)
  then show ?thesis by (simp add: r s1 w1 nth_append)
qed

text \<open>
  C27. A successful UploadP2PVideo adds a session to the store under the new id, with the
  negotiated answer, the given file and an open connection that has one video transceiver plus
  one for each kind of media the offer names, and creates no job.
\<close>

theorem upload_registers_session:
  assumes "lru_cache lru entries cap cinv" "cinv (rw_store (rc_world rc))"
    and "UploadP2PVideo menv env ops (lru_store lru) newid offer file rc = (Inr a, rc')"
  shows "fst (ss_Get (lru_store lru) newid (rw_store (rc_world rc'))) = Inr a \<and>
    a < length (rc_heap rc') \<and> s_id (rc_heap rc' ! a) = newid \<and>
    s_answer (rc_heap rc' ! a) = sdp_result (re_sdp env) \<and> s_file (rc_heap rc' ! a) = file \<and>
    rw_pcs (rc_world rc') ! s_pc (rc_heap rc' ! a) =
      \<lparr>pc_transceivers = wanted_kinds offer, pc_closed = False\<rparr> \<and>
    rw_db (rc_world rc') = rw_db (rc_world rc)"
  using assms by (rule upload_registered)

definition demo_rec :: "(db, (string \<times> nat) list) recorder" where
  "demo_rec = \<lparr>rc_heap = [demo_session], rc_world = demo_world\<rparr>"

definition good_sdp :: sdp_env where
  "good_sdp = \<lparr>sdp_remote = (\<lambda>_. None), sdp_answer = Inr ''answer'', sdp_local = (\<lambda>_. None), sdp_result = Some ''answer''\<rparr>"

definition good_rec :: rec_env where
  "good_rec = \<lparr>re_new_pc = None, re_transceiver = (\<lambda>_. None), re_sdp = good_sdp\<rparr>"

lemma demo_rec_store:
  "distinct (List.map fst (rw_store (rc_world demo_rec))) \<and> length (rw_store (rc_world demo_rec)) \<le> 2000"
  by (simp add: demo_rec_def demo_world_def)

theorem upload_registers_session_witness:
  "\<exists>a rc'. UploadP2PVideo quiet_env good_rec (sql_ops \<lparr>instance_id = ''n1''\<rparr>) (lru_store (list_lru 2000))
       ''s2'' ''m=video'' sample_File demo_rec = (Inr a, rc') \<and>
     pc_transceivers (rw_pcs (rc_world rc') ! s_pc (rc_heap rc' ! a)) = [Video, Video]"
proof -
  have "\<exists>a rc'. UploadP2PVideo quiet_env good_rec (sql_ops \<lparr>instance_id = ''n1''\<rparr>) (lru_store (list_lru 2000))
       ''s2'' ''m=video'' sample_File demo_rec = (Inr a, rc')"
    by (simp add: UploadP2PVideo_def good_rec_def good_sdp_def negotiate_def wanted_kinds_def add_transceiver_def
        lru_store_def SessionStore_Add_def Let_def)
  then obtain a rc' where u: "UploadP2PVideo quiet_env good_rec (sql_ops \<lparr>instance_id = ''n1''\<rparr>)
      (lru_store (list_lru 2000)) ''s2'' ''m=video'' sample_File demo_rec = (Inr a, rc')" by blast
  from upload_registers_session [OF list_lru_cache demo_rec_store u] u show ?thesis
    by (auto simp: wanted_kinds_def)
qed

text \<open>
  A failing \<open>AddTransceiverFromKind\<close> returns with the new connection still open; no session
  refers to it.
\<close>

text \<open>
  When adding a transceiver fails, UploadP2PVideo returns the error and forgets the peer
  connection it has just opened without closing it.
\<close>

theorem failed_transceiver_leaks_connection:
  assumes "re_new_pc env = None"
    and "\<exists>n < length (wanted_kinds offer). re_transceiver env n \<noteq> None"
    and "UploadP2PVideo menv env ops ss newid offer file rc = (r, rc')"
  shows "\<not> is_ok r \<and> rc_heap rc' = rc_heap rc \<and>
    length (rw_pcs (rc_world rc')) = Suc (length (rw_pcs (rc_world rc))) \<and>
    \<not> pc_closed (rw_pcs (rc_world rc') ! length (rw_pcs (rc_world rc)))"
proof -
  let ?w = "rc_world rc" and ?pc = "length (rw_pcs (rc_world rc))"
  let ?w0 = "?w\<lparr>rw_pcs := rw_pcs ?w @ [\<lparr>pc_transceivers = [], pc_closed = False\<rparr>]\<rparr>"
  have fails: "fst (add_transceivers env m pc ks w) \<noteq> None"
    if "\<exists>n < length ks. re_transceiver env (m + n) \<noteq> None" for m pc ks and w :: "('c, 'd) rec_world"
    using that
  proof (induction ks arbitrary: m w)
    case (Cons k ks)
    show ?case
    proof (cases "re_transceiver env m")
      case None
      from Cons.prems obtain n where n: "n < length (k # ks)" "re_transceiver env (m + n) \<noteq> None" by blast
      with None have "n \<noteq> 0" by (metis add_0_right)
      with n obtain l where "l < length ks" "re_transceiver env (Suc m + l) \<noteq> None"
        by (cases n) auto
      then have "\<exists>n < length ks. re_transceiver env (Suc m + n) \<noteq> None" by blast
      from Cons.IH [OF this] None show ?thesis by (simp add: add_transceiver_def)
    qed (simp add: add_transceiver_def)
  qed simp
  obtain e w1 where t: "add_transceivers env 0 ?pc (wanted_kinds offer) ?w0 = (Some e, w1)"
    using fails [of "wanted_kinds offer" 0 ?pc ?w0] assms(2) by (cases "add_transceivers env 0 ?pc (wanted_kinds offer) ?w0") auto
  have "r = Inl e" "rc' = rc\<lparr>rc_world := w1\<rparr>"
    using assms(1,3) t by (simp_all add: UploadP2PVideo_def Let_def)
  with add_transceivers_frame [OF t] show ?thesis by (simp add: nth_append)
qed

theorem failed_transceiver_leaks_connection_witness:
  "\<exists>r rc'. UploadP2PVideo quiet_env (good_rec\<lparr>re_transceiver := (\<lambda>n. Some EOF)\<rparr>) (sql_ops \<lparr>instance_id = ''n1''\<rparr>)
       (lru_store (list_lru 2000)) ''s2'' [] sample_File demo_rec = (r, rc') \<and>
     \<not> pc_closed (rw_pcs (rc_world rc') ! 1)"
proof -
  let ?env = "good_rec\<lparr>re_transceiver := (\<lambda>n. Some EOF)\<rparr>"
  obtain r rc' where u: "UploadP2PVideo quiet_env ?env (sql_ops \<lparr>instance_id = ''n1''\<rparr>)
      (lru_store (list_lru 2000)) ''s2'' [] sample_File demo_rec = (r, rc')" by fastforce
  have h: "re_new_pc ?env = None" "\<exists>n < length (wanted_kinds []). re_transceiver ?env n \<noteq> None"
    by (auto simp: good_rec_def wanted_kinds_def)
  from failed_transceiver_leaks_connection [OF h u] u show ?thesis
    by (auto simp: demo_rec_def demo_world_def)
qed

section \<open>Failing and stopping\<close>

text \<open>A first negotiation that fails closes the connection again and creates no job.\<close>

text \<open>
  A failed negotiation closes the connection, creates no job and leaves no session in the
  store.
\<close>

theorem failed_negotiation_creates_no_job:
  assumes "lru_cache lru entries cap cinv" "cinv (rw_store (rc_world rc))"
    and "map_of (entries (rw_store (rc_world rc))) newid = None" and "re_new_pc env = None"
    and "\<forall>n. re_transceiver env n = None"
    and "fst (negotiate (re_sdp env) offer (NewWebRtcUploadSession newid (length (rw_pcs (rc_world rc))) file)) = Some e"
    and "UploadP2PVideo menv env ops (lru_store lru) newid offer file rc = (r, rc')"
  shows "r = Inl e \<and> rw_db (rc_world rc') = rw_db (rc_world rc) \<and>
    pc_closed (rw_pcs (rc_world rc') ! length (rw_pcs (rc_world rc))) \<and>
    map_of (entries (rw_store (rc_world rc'))) newid = None"
proof -
  let ?w = "rc_world rc" and ?pc = "length (rw_pcs (rc_world rc))"
  let ?w0 = "?w\<lparr>rw_pcs := rw_pcs ?w @ [\<lparr>pc_transceivers = [], pc_closed = False\<rparr>]\<rparr>"
  let ?s = "NewWebRtcUploadSession newid ?pc file"
  have ok: "fst (add_transceivers env m pc ks w) = None" for m pc ks and w :: "('d, 's) rec_world"
    using assms(5) by (induction ks arbitrary: m w) (simp_all add: add_transceiver_def)
  obtain w1 where t: "add_transceivers env 0 ?pc (wanted_kinds offer) ?w0 = (None, w1)"
    using ok [of 0 ?pc "wanted_kinds offer" ?w0] by (metis prod.collapse)
  obtain s1 where n: "negotiate (re_sdp env) offer ?s = (Some e, s1)" using assms(6) by (metis prod.collapse)
  have s1: "s_id s1 = newid" "s_pc s1 = ?pc" "s_count s1 = 0" "session_tracks s1 = []"
    using n by (auto simp: negotiate_def NewWebRtcUploadSession_def make_slice_def Let_def session_tracks_def
        slice_list_def split: option.splits sum.splits)
  note f = add_transceivers_frame [OF t]
  obtain b sto where rm: "ss_Remove (lru_store lru) newid (rw_store w1) = (b, sto)" by fastforce
  have "cinv (rw_store w1)" using assms(2) f by simp
  from session_store.remove_law [OF lru_is_store [OF assms(1)] this rm] assms(3) f
  have b: "\<not> b" "map_of (entries sto) newid = None" by simp_all
  obtain s2 where c: "session_close menv ops (lru_store lru) s1 w1 = (s2, (pc_Close ?pc w1)\<lparr>rw_store := sto\<rparr>)"
    using s1 rm b(1) by (cases "close_tracks menv (session_tracks s1) (s_objs s1) (rw_fs w1)")
      (simp add: session_close_def stopVideoSession_def pc_Close_def)
  have "r = Inl e" "rc_world rc' = (pc_Close ?pc w1)\<lparr>rw_store := sto\<rparr>"
    using assms(4,7) t n c by (auto simp: UploadP2PVideo_def Let_def)
  then show ?thesis using f b(2) by (simp add: pc_Close_def)
qed

theorem failed_negotiation_creates_no_job_witness:
  "\<exists>r rc'. UploadP2PVideo quiet_env (good_rec\<lparr>re_sdp := good_sdp\<lparr>sdp_answer := Inl EOF\<rparr>\<rparr>)
       (sql_ops \<lparr>instance_id = ''n1''\<rparr>) (lru_store (list_lru 2000)) ''s2'' [] sample_File demo_rec = (r, rc') \<and>
     r = Inl EOF \<and> rw_db (rc_world rc') = rw_db demo_world"
proof -
  let ?env = "good_rec\<lparr>re_sdp := good_sdp\<lparr>sdp_answer := Inl EOF\<rparr>\<rparr>"
  obtain r rc' where u: "UploadP2PVideo quiet_env ?env (sql_ops \<lparr>instance_id = ''n1''\<rparr>)
      (lru_store (list_lru 2000)) ''s2'' [] sample_File demo_rec = (r, rc')" by fastforce
  have n: "map_of (rw_store (rc_world demo_rec)) ''s2'' = None" by (simp add: demo_rec_def demo_world_def)
  have e: "re_new_pc ?env = None" "\<forall>n. re_transceiver ?env n = None"
    "fst (negotiate (re_sdp ?env) [] (NewWebRtcUploadSession ''s2'' (length (rw_pcs (rc_world demo_rec))) sample_File)) = Some EOF"
    by (simp_all add: good_rec_def good_sdp_def negotiate_def Let_def)
  from failed_negotiation_creates_no_job [OF list_lru_cache demo_rec_store n e u] u show ?thesis by (auto simp: demo_rec_def)
qed

text \<open>
  Stopping a session that still receives media reports success and changes nothing: the
  session keeps recording until its tracks end.
\<close>

text \<open>
  StopP2PVideo's service call returns success but changes nothing while a track of the session
  is still being recorded: the session stays in the store, no job is created and the recording
  goes on.
\<close>

theorem stop_while_recording_does_nothing:
  assumes "ss_Get ss i (rw_store (rc_world rc)) = (Inr a, st)" and "a < length (rc_heap rc)"
    and "s_count (rc_heap rc ! a) \<noteq> 0"
  shows "CloseP2P menv ops ss i rc = (None, rc\<lparr>rc_world := (rc_world rc)\<lparr>rw_store := st\<rparr>\<rparr>)"
  using assms by (simp add: CloseP2P_def session_close_def)

theorem stop_while_recording_does_nothing_witness:
  "CloseP2P quiet_env (sql_ops \<lparr>instance_id = ''n1''\<rparr>) (lru_store (list_lru 2000)) ''s1''
     \<lparr>rc_heap = [video_session], rc_world = demo_world\<rparr> = (None, \<lparr>rc_heap = [video_session], rc_world = demo_world\<rparr>)"
proof -
  let ?rc = "\<lparr>rc_heap = [video_session], rc_world = demo_world\<rparr>"
  have g: "ss_Get (lru_store (list_lru 2000)) ''s1'' (rw_store (rc_world ?rc)) = (Inr 0, [(''s1'', 0)])"
    by (simp add: lru_store_def SessionStore_Get_def list_lru_def demo_world_def without_def)
  have "0 < length (rc_heap ?rc)" "s_count (rc_heap ?rc ! 0) \<noteq> 0" by (simp_all add: video_session(5))
  from stop_while_recording_does_nothing [OF g this] show ?thesis by (simp add: demo_world_def)
qed

end
