(* ===== verification/Permissions.thy ===== *)
theory Permissions
  imports Go_Strings
begin

text \<open>
  \<^verbatim>\<open>infra/auth/permission.go\<close>, \<^verbatim>\<open>infra/auth/session.go\<close> and the translations of
  \<^verbatim>\<open>infra/auth/auth_connection.go\<close> that build a session: access masks, permission checks,
  roles, scopes and licenses.
\<close>

unbundle bit_operations_syntax

section \<open>Sessions and permissions\<close>

record SessionPermission =
  sp_ID :: int
  sp_Name :: string
  Obac :: bool
  rbac :: bool
  Access :: u32

type_synonym PermissionAccess = nat

definition PERMISSION_ACCESS_CREATE :: PermissionAccess where "PERMISSION_ACCESS_CREATE = 0"
definition PERMISSION_ACCESS_READ :: PermissionAccess where "PERMISSION_ACCESS_READ = 1"
definition PERMISSION_ACCESS_UPDATE :: PermissionAccess where "PERMISSION_ACCESS_UPDATE = 2"
definition PERMISSION_ACCESS_DELETE :: PermissionAccess where "PERMISSION_ACCESS_DELETE = 3"

lemmas access_consts [go_defs] = PERMISSION_ACCESS_CREATE_def PERMISSION_ACCESS_READ_def
  PERMISSION_ACCESS_UPDATE_def PERMISSION_ACCESS_DELETE_def

text \<open>Indexing a four-element array: any other value panics.\<close>

definition access_Value :: "PermissionAccess \<Rightarrow> u32 outcome" where
  "access_Value p = (if p < 4 then Returns ([8, 4, 2, 1] ! p) else Panics ''index out of range'')"

definition access_Name :: "PermissionAccess \<Rightarrow> string outcome" where
  "access_Name p =
     (if p < 4 then Returns ([''create'', ''read'', ''update'', ''delete''] ! p)
      else Panics ''index out of range'')"

definition CanCreate :: "SessionPermission \<Rightarrow> bool" where
  "CanCreate s = (if Obac s \<or> rbac s then Access s AND 8 = 8 else \<not> rbac s \<and> \<not> Obac s)"

definition CanRead :: "SessionPermission \<Rightarrow> bool" where
  "CanRead s = (if Obac s \<or> rbac s then Access s AND 4 = 4 else \<not> rbac s \<and> \<not> Obac s)"

definition CanUpdate :: "SessionPermission \<Rightarrow> bool" where
  "CanUpdate s = (if Obac s \<or> rbac s then Access s AND 2 = 2 else \<not> rbac s \<and> \<not> Obac s)"

definition CanDelete :: "SessionPermission \<Rightarrow> bool" where
  "CanDelete s = (if Obac s \<or> rbac s then Access s AND 1 = 1 else \<not> rbac s \<and> \<not> Obac s)"

record Session =
  se_ID :: string
  se_Name :: string
  se_DomainID :: int
  se_DomainName :: string
  se_Expire :: int
  se_UserID :: int
  se_userIP :: string
  se_RoleIDs :: "int list"
  se_Token :: string
  se_Scopes :: "SessionPermission list"
  se_active :: "string list"
  se_adminPermissions :: "PermissionAccess list"
  se_actions :: "string list"
  se_validLicense :: "string list"

definition Session_Domain :: "Session \<Rightarrow> int \<Rightarrow> int" where
  "Session_Domain s _ = se_DomainID s"

definition UseRBAC :: "Session \<Rightarrow> PermissionAccess \<Rightarrow> SessionPermission \<Rightarrow> bool" where
  "UseRBAC s acc perm =
     (if \<not> rbac perm then False
      else if acc \<in> set (se_adminPermissions s) then False else rbac perm)"

definition GetAclRoles :: "Session \<Rightarrow> int list" where "GetAclRoles s = se_RoleIDs s"
definition GetUserID :: "Session \<Rightarrow> int" where "GetUserID s = se_UserID s"
definition GetDomainID :: "Session \<Rightarrow> int" where "GetDomainID s = se_DomainID s"
definition SetIP :: "string \<Rightarrow> Session \<Rightarrow> Session" where "SetIP ip s = s\<lparr>se_userIP := ip\<rparr>"
definition GetUserIP :: "Session \<Rightarrow> string" where "GetUserIP s = se_userIP s"

definition HasLicense :: "Session \<Rightarrow> string \<Rightarrow> bool" where
  "HasLicense s name = (name \<in> set (se_validLicense s))"

definition HasCallCenterLicense :: "Session \<Rightarrow> bool" where
  "HasCallCenterLicense s = HasLicense s ''CALL_CENTER''"

definition HasChatLicense :: "Session \<Rightarrow> bool" where
  "HasChatLicense s = HasLicense s ''CHAT''"

definition CountLicenses :: "Session \<Rightarrow> nat" where "CountLicenses s = length (se_active s)"

definition HasAction :: "Session \<Rightarrow> string \<Rightarrow> bool" where
  "HasAction s name = (name \<in> set (se_actions s))"

definition NotAllowPermission :: "string \<Rightarrow> SessionPermission" where
  "NotAllowPermission name = \<lparr>sp_ID = 0, sp_Name = name, Obac = True, rbac = True, Access = 0\<rparr>"

definition GetPermission :: "Session \<Rightarrow> string \<Rightarrow> SessionPermission" where
  "GetPermission s name =
     (case find (\<lambda>v. sp_Name v = name) (se_Scopes s) of
        Some v \<Rightarrow> v | None \<Rightarrow> NotAllowPermission name)"

definition auth_GetMillis :: "int \<Rightarrow> int" where
  "auth_GetMillis nanos = go_quot nanos 1000000"

text \<open>\<open>now\<close> is \<open>GetMillis\<close>; the product is an \<open>int64\<close>.\<close>

definition IsExpired :: "int \<Rightarrow> Session \<Rightarrow> bool" where
  "IsExpired now s \<longleftrightarrow> i64 (se_Expire s * 1000) < now"

definition ErrValidID :: go_error where "ErrValidID = Errorf ''model.session.is_valid.id.app_error''"
definition ErrValidUserID :: go_error where "ErrValidUserID = Errorf ''model.session.is_valid.user_id.app_error''"
definition ErrValidToken :: go_error where "ErrValidToken = Errorf ''model.session.is_valid.token.app_error''"
definition ErrValidRoleIDs :: go_error where "ErrValidRoleIDs = Errorf ''model.session.is_valid.role_ids.app_error''"
definition ErrValidScope :: go_error where "ErrValidScope = Errorf ''model.session.is_valid.scope.app_error''"
definition ErrStatusUnauthenticated :: go_error where "ErrStatusUnauthenticated = Errorf ''unauthenticated''"
definition ErrInternal :: go_error where "ErrInternal = Errorf ''internal''"

definition IsValid :: "Session \<Rightarrow> go_error option" where
  "IsValid s =
     (if length (se_ID s) < 1 then Some ErrValidID
      else if se_UserID s < 1 then Some ErrValidUserID
      else if length (se_Token s) < 1 then Some ErrValidToken
      else if length (se_RoleIDs s) < 1 then Some ErrValidRoleIDs
      else None)"

section \<open>Access masks\<close>

definition access_mode :: "char \<Rightarrow> u32 option" where
  "access_mode c =
     (if c = CHR ''x'' then Some 8 else if c = CHR ''r'' then Some 4
      else if c = CHR ''w'' then Some 2 else if c = CHR ''d'' then Some 1 else None)"

text \<open>A mode given twice sets its grant bit. The mask stays below 256 in Go's \<open>int\<close> as in 32 bits.\<close>

fun parse_from :: "u32 \<Rightarrow> string \<Rightarrow> u32 res" where
  "parse_from grants [] = Inr grants"
| "parse_from grants (c # cs) =
     (case access_mode c of
        None \<Rightarrow> Inl ErrValidScope
      | Some grant \<Rightarrow>
          parse_from (if grants AND grant = grant then grants OR push_bit 4 grant else grants OR grant) cs)"

definition parseAccess :: "string \<Rightarrow> u32 res" where
  "parseAccess s = parse_from 0 s"

definition access_of :: "string \<Rightarrow> u32" where
  "access_of s = (case parseAccess s of Inl _ \<Rightarrow> 0 | Inr g \<Rightarrow> g)"

record Objclass =
  oc_Id :: int
  oc_Class :: string
  oc_Obac :: bool
  oc_Rbac :: bool
  oc_Access :: string

definition transformScopes :: "Objclass list \<Rightarrow> SessionPermission list" where
  "transformScopes src =
     List.map (\<lambda>v. \<lparr>sp_ID = oc_Id v, sp_Name = oc_Class v, Obac = oc_Obac v, rbac = oc_Rbac v,
       Access = access_of (oc_Access v)\<rparr>) src"

definition transformRoles :: "int \<Rightarrow> int list \<Rightarrow> int list" where
  "transformRoles userID src = userID # src"

definition low_bit :: "nat \<Rightarrow> u32 \<Rightarrow> bool" where
  "low_bit k w = bit w k"

definition mode_char :: "nat \<Rightarrow> char" where
  "mode_char k = [CHR ''d'', CHR ''w'', CHR ''r'', CHR ''x''] ! k"

lemma mask_bit: "k < 4 \<Longrightarrow> (w AND push_bit k 1 = push_bit k (1 :: u32)) = bit w k"
proof
  assume k: "k < 4"
  { assume "w AND push_bit k 1 = push_bit k (1 :: u32)"
    then have "bit (w AND push_bit k 1) k = bit (push_bit k (1 :: u32)) k" by simp
    with k show "bit w k" by (simp add: bit_simps) }
  assume b: "bit w k"
  show "w AND push_bit k 1 = push_bit k (1 :: u32)"
    by (rule bit_word_eqI) (use b in \<open>auto simp: bit_simps\<close>)
qed

lemma access_mode_bit:
  "access_mode c = Some g \<Longrightarrow> \<exists>m < 4. g = push_bit m 1 \<and> c = mode_char m"
  by (auto simp: access_mode_def mode_char_def split: if_splits
      intro: exI [of _ "3 :: nat"] exI [of _ "2 :: nat"] exI [of _ "1 :: nat"] exI [of _ "0 :: nat"])

lemma mode_char_inj: "m < 4 \<Longrightarrow> k < 4 \<Longrightarrow> mode_char m = mode_char k \<longleftrightarrow> m = k"
  by (auto simp: mode_char_def less_Suc_eq numeral_eq_Suc)

lemma parse_from_bit:
  "\<lbrakk>parse_from grants s = Inr g; k < 4\<rbrakk> \<Longrightarrow> bit g k \<longleftrightarrow> bit grants k \<or> mode_char k \<in> set s"
proof (induction grants s rule: parse_from.induct)
  case (2 grants c cs)
  then obtain w where w: "access_mode c = Some w" by (auto split: option.splits)
  then obtain m where m: "m < 4" "w = push_bit m 1" "c = mode_char m" using access_mode_bit by blast
  let ?g = "if grants AND w = w then grants OR push_bit 4 w else grants OR w"
  have "bit ?g k \<longleftrightarrow> bit grants k \<or> m = k"
    using m(1) \<open>k < 4\<close> mask_bit [OF m(1), of grants] unfolding m(2) by (auto simp: bit_simps)
  moreover have "bit g k \<longleftrightarrow> bit ?g k \<or> mode_char k \<in> set cs"
    using 2(1) [OF w] 2(2,3) w by simp
  ultimately show ?case using mode_char_inj [OF m(1) \<open>k < 4\<close>] m(3) by auto
qed simp

text \<open>
  The access word parsed from a string of mode letters grants create, read, update and delete
  exactly for the letters x, r, w and d in it, however often they are repeated.
\<close>

theorem parsed_access_grants:
  assumes "parseAccess s = Inr g" and "Obac p \<or> rbac p"
  shows "CanCreate (p\<lparr>Access := g\<rparr>) = (CHR ''x'' \<in> set s) \<and>
    CanRead (p\<lparr>Access := g\<rparr>) = (CHR ''r'' \<in> set s) \<and>
    CanUpdate (p\<lparr>Access := g\<rparr>) = (CHR ''w'' \<in> set s) \<and>
    CanDelete (p\<lparr>Access := g\<rparr>) = (CHR ''d'' \<in> set s)"
proof -
  have b: "bit g k \<longleftrightarrow> mode_char k \<in> set s" if "k < 4" for k
    using parse_from_bit [OF assms(1)[unfolded parseAccess_def] that] by simp
  have m: "(g AND 8 = 8) = bit g 3" "(g AND 4 = 4) = bit g 2" "(g AND 2 = 2) = bit g 1" "(g AND 1 = 1) = bit g 0"
    using mask_bit [of 3 g] mask_bit [of 2 g] mask_bit [of 1 g] mask_bit [of 0 g] by simp_all
  have c: "mode_char 3 = CHR ''x''" "mode_char 2 = CHR ''r''" "mode_char 1 = CHR ''w''" "mode_char 0 = CHR ''d''"
    by (simp_all add: mode_char_def)
  have b4: "bit g 3 = (CHR ''x'' \<in> set s)" "bit g 2 = (CHR ''r'' \<in> set s)"
    "bit g 1 = (CHR ''w'' \<in> set s)" "bit g 0 = (CHR ''d'' \<in> set s)"
    using b [of 3] b [of 2] b [of 1] b [of 0] unfolding c by (simp_all only: numeral_less_iff) simp_all
  show ?thesis
    using assms(2) b4 by (simp add: CanCreate_def CanRead_def CanUpdate_def CanDelete_def m)
qed

theorem parsed_access_grants_witness:
  "CanRead ((NotAllowPermission ''calls'')\<lparr>Access := access_of ''rr''\<rparr>) \<and>
   \<not> CanUpdate ((NotAllowPermission ''calls'')\<lparr>Access := access_of ''rr''\<rparr>)"
proof -
  obtain g where g: "parseAccess ''rr'' = Inr g" by (simp add: parseAccess_def access_mode_def)
  have "Obac (NotAllowPermission ''calls'') \<or> rbac (NotAllowPermission ''calls'')"
    by (simp add: NotAllowPermission_def)
  from parsed_access_grants [OF g this] show ?thesis by (simp add: access_of_def g)
qed

text \<open>A class that is not in the session's scope gives no access at all.\<close>

lemma unknown_class_denied:
  assumes "name \<notin> sp_Name ` set (se_Scopes s)"
  shows "\<not> CanCreate (GetPermission s name)" "\<not> CanRead (GetPermission s name)"
    "\<not> CanUpdate (GetPermission s name)" "\<not> CanDelete (GetPermission s name)"
proof -
  have "find (\<lambda>v. sp_Name v = name) (se_Scopes s) = None"
    using assms by (auto simp: find_None_iff)
  then have "GetPermission s name = NotAllowPermission name" by (simp add: GetPermission_def)
  then show "\<not> CanCreate (GetPermission s name)" "\<not> CanRead (GetPermission s name)"
    "\<not> CanUpdate (GetPermission s name)" "\<not> CanDelete (GetPermission s name)"
    by (simp_all add: NotAllowPermission_def CanCreate_def CanRead_def CanUpdate_def CanDelete_def)
qed

end
