(* ===== verification/Auth.thy ===== *)
theory Auth
  imports Permissions
begin

text \<open>
  \<^verbatim>\<open>infra/auth/auth_connection.go\<close> and \<^verbatim>\<open>infra/auth/auth.go\<close>: building a session from the answer
  of the authorization service, product limits, and the manager. The service is outside the
  repository: its answers are arguments.
\<close>

section \<open>License scopes\<close>

record LicenseUser =
  li_Prod :: string
  li_Scope :: "string list"
  li_IssuedAt :: int
  li_ExpiresAt :: int

record Userinfo =
  ui_UserId :: int
  ui_Dc :: int
  ui_Domain :: string
  ui_Name :: string
  ui_ExpiresAt :: int
  ui_Roles :: "int list"
  ui_Scope :: "Objclass list"
  ui_License :: "LicenseUser list"
  ui_Permissions :: "string list"

definition objClass :: "string \<Rightarrow> string" where
  "objClass name = ToLower (TrimSpace name)"

definition hasScope :: "string list \<Rightarrow> string \<Rightarrow> bool" where
  "hasScope scope name =
     (if scope = [] then name = [] else if name = [] then True else name \<in> set scope)"

fun addScope :: "string list \<Rightarrow> string list \<Rightarrow> string list" where
  "addScope [] scope = scope"
| "addScope (c # cs) scope =
     (let name = objClass c
      in if name = [] then addScope cs scope
         else addScope cs (if hasScope scope name then scope else scope @ [name]))"

definition license_active :: "int \<Rightarrow> LicenseUser \<Rightarrow> bool" where
  "license_active now pr =
     (if 0 < li_ExpiresAt pr \<and> li_ExpiresAt pr \<le> now then False
      else if 0 < li_IssuedAt pr \<and> now < li_IssuedAt pr then False else True)"

fun gather :: "int \<Rightarrow> LicenseUser list \<Rightarrow> string list \<Rightarrow> string list \<Rightarrow> string list \<times> string list" where
  "gather now [] valid scope = (valid, scope)"
| "gather now (pr # ps) valid scope =
     (if li_Scope pr = [] then gather now ps valid scope
      else if license_active now pr
      then gather now ps (valid @ [li_Prod pr]) (addScope (li_Scope pr) scope)
      else gather now ps valid scope)"

text \<open>
  The second loop removes, in place, the entries no object class matches: after a removal the
  index stays where it is.
\<close>

function prune :: "Objclass list \<Rightarrow> nat \<Rightarrow> string list \<Rightarrow> string list" where
  "prune classes i scope =
     (if i < length scope
      then (if \<exists>c \<in> set classes. EqualFold (oc_Class c) (scope ! i)
            then prune classes (Suc i) scope
            else prune classes i (take i scope @ drop (Suc i) scope))
      else scope)"
  by pat_completeness auto
termination
  by (relation "measure (\<lambda>(classes, i, scope). length scope - i)") auto

declare prune.simps [simp del]

definition licenseActiveScope :: "int \<Rightarrow> Userinfo \<Rightarrow> string list \<times> string list" where
  "licenseActiveScope now src =
     (case gather now (ui_License src) [] [] of
        (valid, scope) \<Rightarrow>
          if scope = [] then ([], []) else (valid, prune (ui_Scope src) 0 scope))"

lemma prune_filter:
  "prune classes i scope =
     take i scope @ filter (\<lambda>s. \<exists>c \<in> set classes. EqualFold (oc_Class c) s) (drop i scope)"
proof (induction classes i scope rule: prune.induct)
  case (1 classes i scope)
  show ?case
  proof (cases "i < length scope")
    case True
    then have d: "drop i scope = scope ! i # drop (Suc i) scope" by (simp add: Cons_nth_drop_Suc)
    show ?thesis
    proof (cases "\<exists>c \<in> set classes. EqualFold (oc_Class c) (scope ! i)")
      case m: True
      then show ?thesis
        using 1(1) [OF True m] True by (subst prune.simps) (simp add: d take_Suc_conv_app_nth)
    next
      case m: False
      have "drop i (take i scope @ drop (Suc i) scope) = drop (Suc i) scope"
        "take i (take i scope @ drop (Suc i) scope) = take i scope" using True by simp_all
      then show ?thesis
        using 1(2) [OF True m] True m by (subst prune.simps) (simp add: d)
    qed
  qed (subst prune.simps; simp)
qed

lemma addScope_set:
  "set (addScope cs scope) = set scope \<union> {n. n \<noteq> [] \<and> n \<in> objClass ` set cs}"
  by (induction cs scope rule: addScope.induct) (auto simp: hasScope_def Let_def split: if_splits)

lemma addScope_distinct: "distinct scope \<Longrightarrow> distinct (addScope cs scope)"
  by (induction cs scope rule: addScope.induct) (auto simp: hasScope_def Let_def split: if_splits)

definition active_classes :: "int \<Rightarrow> LicenseUser list \<Rightarrow> string set" where
  "active_classes now ps =
     {n. n \<noteq> [] \<and> (\<exists>p \<in> set ps. license_active now p \<and> n \<in> objClass ` set (li_Scope p))}"

lemma gather_props:
  "set (snd (gather now ps valid scope)) = set scope \<union> active_classes now ps"
  "distinct scope \<Longrightarrow> distinct (snd (gather now ps valid scope))"
  "fst (gather now ps valid scope) =
     valid @ List.map li_Prod (filter (\<lambda>p. li_Scope p \<noteq> [] \<and> license_active now p) ps)"
  by (induction now ps valid scope rule: gather.induct)
     (auto simp: active_classes_def addScope_set addScope_distinct)

text \<open>
  C32. The scope computed from the user's licenses has no duplicates and holds exactly the
  normalised classes of active licenses that match an object class of the user, and the valid
  products are the active ones with a scope.
\<close>

theorem license_scope_exact:
  "licenseActiveScope now src = (valid, scope) \<Longrightarrow>
     distinct scope \<and>
     set scope = {n \<in> active_classes now (ui_License src).
       \<exists>c \<in> set (ui_Scope src). EqualFold (oc_Class c) n} \<and>
     (active_classes now (ui_License src) \<noteq> {} \<longrightarrow>
       valid = List.map li_Prod (filter (\<lambda>p. li_Scope p \<noteq> [] \<and> license_active now p) (ui_License src)))"
proof -
  assume a: "licenseActiveScope now src = (valid, scope)"
  obtain v sc where g: "gather now (ui_License src) [] [] = (v, sc)" by fastforce
  have p: "set sc = active_classes now (ui_License src)" "distinct sc"
    "v = List.map li_Prod (filter (\<lambda>p. li_Scope p \<noteq> [] \<and> license_active now p) (ui_License src))"
    using gather_props [where now = now and ps = "ui_License src" and valid = "[]" and scope = "[]"] g
    by simp_all
  show ?thesis
  proof (cases "sc = []")
    case True
    then have "active_classes now (ui_License src) = {}" using p(1) by simp
    moreover have "scope = []" using a g True by (simp add: licenseActiveScope_def)
    ultimately show ?thesis by simp
  next
    case False
    then have "valid = v" "scope = prune (ui_Scope src) 0 sc"
      using a g by (simp_all add: licenseActiveScope_def)
    then show ?thesis unfolding p(3) using p(1,2) by (auto simp: prune_filter)
  qed
qed

definition sample_userinfo :: Userinfo where
  "sample_userinfo = \<lparr>ui_UserId = 7, ui_Dc = 1, ui_Domain = ''d'', ui_Name = ''n'', ui_ExpiresAt = 0,
     ui_Roles = [3], ui_Scope = [\<lparr>oc_Id = 1, oc_Class = ''Calls'', oc_Obac = True, oc_Rbac = True, oc_Access = ''r''\<rparr>],
     ui_License = [\<lparr>li_Prod = ''CHAT'', li_Scope = [''calls '', ''users''], li_IssuedAt = 0, li_ExpiresAt = 100\<rparr>],
     ui_Permissions = [''read'']\<rparr>"

theorem license_scope_exact_witness:
  "\<exists>valid scope. licenseActiveScope 50 sample_userinfo = (valid, scope) \<and> distinct scope"
proof -
  obtain valid scope where l: "licenseActiveScope 50 sample_userinfo = (valid, scope)" by fastforce
  from license_scope_exact [OF l] l show ?thesis by blast
qed

section \<open>The session of a token\<close>

text \<open>One case of the switch over the permissions: the grown pair of slices.\<close>

definition add_permission :: "string \<Rightarrow> PermissionAccess list \<times> string list \<Rightarrow> PermissionAccess list \<times> string list" where
  "add_permission i pa =
     (case pa of (adm, act) \<Rightarrow>
        if i = ''add'' then (adm @ [PERMISSION_ACCESS_CREATE], act)
        else if i = ''read'' then (adm @ [PERMISSION_ACCESS_READ], act)
        else if i = ''write'' then (adm @ [PERMISSION_ACCESS_UPDATE], act)
        else if i = ''delete'' then (adm @ [PERMISSION_ACCESS_DELETE], act)
        else if i \<in> {''view_cdr_phone_numbers'', ''playback_record_file'', ''time_limited_record_file'',
                     ''system_setting'', ''scheme_variables'', ''reset_active_attempts''}
        then (adm, act @ [i]) else (adm, act))"

text \<open>
  \<open>make([]PermissionAccess, n, n)\<close> is a slice of \<open>n\<close> zero values, and \<open>append\<close> grows it.
  \<open>resp\<close> is the answer of \<open>UserInfo\<close>, which may be a nil message.
\<close>

fun status_Code :: "go_error \<Rightarrow> nat" where
  "status_Code (StatusErr c _) = c"
| "status_Code _ = 2"

definition GetSession :: "int \<Rightarrow> (go_error + Userinfo option) \<Rightarrow> string \<Rightarrow> Session res" where
  "GetSession now resp token =
     (case resp of
        Inl err \<Rightarrow>
          (if status_Code err = 16 then Inl ErrStatusUnauthenticated else Inl ErrInternal)
      | Inr None \<Rightarrow> Inl ErrStatusUnauthenticated
      | Inr (Some ui) \<Rightarrow>
          (case licenseActiveScope now ui of
             (valid, act) \<Rightarrow>
               (case (if ui_Permissions ui \<noteq> []
                      then fold add_permission (ui_Permissions ui) (replicate (length (ui_Permissions ui)) 0, [])
                      else ([], [])) of
                  (adm, actions) \<Rightarrow>
                    Inr \<lparr>se_ID = token, se_Name = ui_Name ui, se_DomainID = ui_Dc ui,
                         se_DomainName = ui_Domain ui, se_Expire = ui_ExpiresAt ui,
                         se_UserID = ui_UserId ui, se_userIP = [],
                         se_RoleIDs = transformRoles (ui_UserId ui) (ui_Roles ui), se_Token = token,
                         se_Scopes = transformScopes (ui_Scope ui), se_active = act,
                         se_adminPermissions = adm, se_actions = actions, se_validLicense = valid\<rparr>)))"

lemma add_permission_grows:
  "set (fst pa) \<subseteq> set (fst (add_permission i pa)) \<and> set (snd pa) \<subseteq> set (snd (add_permission i pa))"
  by (cases pa) (auto simp: add_permission_def)

lemma fold_add_permission_grows:
  "set (fst pa) \<subseteq> set (fst (fold add_permission is pa)) \<and> set (snd pa) \<subseteq> set (snd (fold add_permission is pa))"
proof (induction "is" arbitrary: pa)
  case (Cons i xs)
  from Cons [of "add_permission i pa"] add_permission_grows [of pa i] show ?case by auto
qed simp

lemma fold_add_permission_access:
  "set (fst (fold add_permission is pa)) = set (fst pa) \<union>
     {a. a = 0 \<and> ''add'' \<in> set is \<or> a = 1 \<and> ''read'' \<in> set is \<or> a = 2 \<and> ''write'' \<in> set is \<or>
         a = 3 \<and> ''delete'' \<in> set is}"
proof (induction "is" arbitrary: pa)
  case (Cons i xs)
  show ?case
    unfolding fold_simps comp_apply Cons.IH
    by (cases pa) (auto simp: add_permission_def access_consts)
qed simp

text \<open>
  The administrative permissions of a session are the four named ones, and in addition CREATE
  as soon as there is any permission at all: the zero values the slice starts with.
\<close>

text \<open>
  C33. A user with any permission at all, even an unrelated one, bypasses the record-level
  check for creating, because the permission slice starts with as many zeroes, the code of
  create, as there are permissions; the checks for reading, updating and deleting follow the
  granted permissions.
\<close>

theorem any_permission_bypasses_create_rbac:
  assumes "GetSession now (Inr (Some ui)) token = Inr s" and "ui_Permissions ui \<noteq> []"
  shows "UseRBAC s PERMISSION_ACCESS_CREATE perm = False \<and>
    UseRBAC s PERMISSION_ACCESS_READ perm = (rbac perm \<and> ''read'' \<notin> set (ui_Permissions ui)) \<and>
    UseRBAC s PERMISSION_ACCESS_UPDATE perm = (rbac perm \<and> ''write'' \<notin> set (ui_Permissions ui)) \<and>
    UseRBAC s PERMISSION_ACCESS_DELETE perm = (rbac perm \<and> ''delete'' \<notin> set (ui_Permissions ui))"
proof -
  let ?n = "length (ui_Permissions ui)"
  have adm: "se_adminPermissions s = fst (fold add_permission (ui_Permissions ui) (replicate ?n 0, []))"
    using assms by (auto simp: GetSession_def split: prod.splits)
  have "set (se_adminPermissions s) = {0} \<union>
     {a. a = 0 \<and> ''add'' \<in> set (ui_Permissions ui) \<or> a = 1 \<and> ''read'' \<in> set (ui_Permissions ui) \<or>
         a = 2 \<and> ''write'' \<in> set (ui_Permissions ui) \<or> a = 3 \<and> ''delete'' \<in> set (ui_Permissions ui)}"
    unfolding adm fold_add_permission_access using assms(2) by (cases "ui_Permissions ui") auto
  then show ?thesis by (simp add: UseRBAC_def access_consts)
qed

theorem any_permission_bypasses_create_rbac_witness:
  "\<exists>s. GetSession 50 (Inr (Some sample_userinfo)) ''tok'' = Inr s \<and>
     ''add'' \<notin> set (ui_Permissions sample_userinfo) \<and>
     \<not> UseRBAC s PERMISSION_ACCESS_CREATE (NotAllowPermission ''calls'')"
proof -
  obtain s where s: "GetSession 50 (Inr (Some sample_userinfo)) ''tok'' = Inr s"
    by (fastforce simp: GetSession_def split: prod.splits)
  have p: "ui_Permissions sample_userinfo \<noteq> []" by (simp add: sample_userinfo_def)
  from any_permission_bypasses_create_rbac [OF s p] s show ?thesis by (simp add: sample_userinfo_def)
qed

text \<open>A session that was built is valid whenever the service names a user and there is a token.\<close>

lemma GetSession_valid:
  assumes "GetSession now resp token = Inr s" and "token \<noteq> []" and "0 < se_UserID s"
  shows "IsValid s = None \<and> se_Token s = token \<and> se_UserID s \<in> set (GetAclRoles s)"
  using assms
  by (cases token) (auto simp: GetSession_def IsValid_def GetAclRoles_def transformRoles_def
      split: sum.splits option.splits prod.splits if_splits)

section \<open>Product limits\<close>

record License =
  gr_Product :: string
  gr_Errors :: "string list"
  gr_Remain :: int

definition limit_step :: "string \<Rightarrow> License \<Rightarrow> int \<Rightarrow> int" where
  "limit_step productName grant limitMax =
     (if gr_Product grant \<noteq> productName then limitMax
      else if gr_Errors grant \<noteq> [] \<and> (length (gr_Errors grant) \<noteq> 1 \<or> gr_Errors grant ! 0 \<noteq> ''product exhausted'')
      then limitMax
      else if limitMax < gr_Remain grant then gr_Remain grant else limitMax)"

text \<open>The answer holds a customer or none; the customer holds the licenses.\<close>

definition ProductLimit :: "(go_error + License list option) \<Rightarrow> string \<Rightarrow> int res" where
  "ProductLimit tenant productName =
     (case tenant of
        Inl e \<Rightarrow> Inl e
      | Inr None \<Rightarrow> Inl (Errorf [])
      | Inr (Some grants) \<Rightarrow>
          (let limitMax = fold (limit_step productName) grants 0
           in if limitMax = 0 then Inl (Errorf []) else Inr limitMax))"

definition counts :: "string \<Rightarrow> License \<Rightarrow> bool" where
  "counts p g \<longleftrightarrow> gr_Product g = p \<and> (gr_Errors g = [] \<or> gr_Errors g = [''product exhausted''])"

lemma limit_step_eq: "limit_step p g m = (if counts p g then max m (gr_Remain g) else m)"
  by (cases "gr_Errors g") (auto simp: limit_step_def counts_def)

lemma fold_limit:
  "m \<le> fold (limit_step p) gs m \<and>
   (\<forall>g \<in> set gs. counts p g \<longrightarrow> gr_Remain g \<le> fold (limit_step p) gs m) \<and>
   (fold (limit_step p) gs m = m \<or> (\<exists>g \<in> set gs. counts p g \<and> gr_Remain g = fold (limit_step p) gs m))"
proof (induction gs arbitrary: m)
  case (Cons g gs)
  from Cons [of "limit_step p g m"] show ?case
    by (auto simp: limit_step_eq max_def split: if_splits intro: order_trans)
qed simp

text \<open>
  ProductLimit returns a number exactly when it is positive and the largest remainder among
  the licenses of the product that are valid but for being exhausted.
\<close>

theorem product_limit_is_maximum:
  "ProductLimit (Inr (Some grants)) p = Inr n \<longleftrightarrow>
     0 < n \<and> (\<exists>g \<in> set grants. counts p g \<and> gr_Remain g = n) \<and>
     (\<forall>g \<in> set grants. counts p g \<longrightarrow> gr_Remain g \<le> n)"
proof -
  let ?m = "fold (limit_step p) grants 0"
  note f = fold_limit [of 0 p grants]
  have pl: "ProductLimit (Inr (Some grants)) p = (if ?m = 0 then Inl (Errorf []) else Inr ?m)"
    by (simp add: ProductLimit_def Let_def)
  show ?thesis
  proof
    assume "ProductLimit (Inr (Some grants)) p = Inr n"
    with pl have "n = ?m" "?m \<noteq> 0" by (auto split: if_splits)
    with f show "0 < n \<and> (\<exists>g \<in> set grants. counts p g \<and> gr_Remain g = n) \<and>
     (\<forall>g \<in> set grants. counts p g \<longrightarrow> gr_Remain g \<le> n)" by auto
  next
    assume n: "0 < n \<and> (\<exists>g \<in> set grants. counts p g \<and> gr_Remain g = n) \<and>
     (\<forall>g \<in> set grants. counts p g \<longrightarrow> gr_Remain g \<le> n)"
    with f have le: "n \<le> ?m" by auto
    with n have "?m \<noteq> 0" by simp
    with f obtain g where "g \<in> set grants" "counts p g" "gr_Remain g = ?m" by blast
    with n have "?m \<le> n" by fastforce
    with le have "?m = n" by simp
    then show "ProductLimit (Inr (Some grants)) p = Inr n" using n pl by auto
  qed
qed

section \<open>The manager\<close>

text \<open>
  A connection is a client or nil. \<open>sync.Once\<close> runs the function of the first call only, and
  its error lives in the variables of that call.
\<close>

record authManager =
  am_started :: bool
  am_auth :: "nat option"
  am_customer :: "nat option"

definition NewAuthManager :: "authManager" where
  "NewAuthManager = \<lparr>am_started = False, am_auth = None, am_customer = None\<rparr>"

definition cache_seconds :: "int \<Rightarrow> int" where
  "cache_seconds cacheTime = (if cacheTime < 1 then 1 else cacheTime)"

definition Manager_Start ::
  "nat res \<Rightarrow> nat res \<Rightarrow> authManager \<Rightarrow> go_error option \<times> authManager" where
  "Manager_Start authClient customerClient am =
     (if am_started am then (None, am)
      else
        (case authClient of
           Inl e \<Rightarrow> (Some e, am\<lparr>am_started := True, am_auth := None\<rparr>)
         | Inr a \<Rightarrow>
             (case customerClient of
                Inl e \<Rightarrow> (Some e, am\<lparr>am_started := True, am_auth := Some a, am_customer := None\<rparr>)
              | Inr c \<Rightarrow> (None, am\<lparr>am_started := True, am_auth := Some a, am_customer := Some c\<rparr>))))"

text \<open>\<open>Stop\<close> closes both clients; a nil one is dereferenced.\<close>

definition Manager_Stop :: "authManager \<Rightarrow> nat list outcome" where
  "Manager_Stop am =
     (case am_auth am of
        None \<Rightarrow> Panics ''nil pointer dereference''
      | Some a \<Rightarrow>
          (case am_customer am of
             None \<Rightarrow> Panics ''nil pointer dereference''
           | Some c \<Rightarrow> Returns [a, c]))"

text \<open>
  After a failed Start the manager answers the next Start with success although a client is
  missing, and Stop then dereferences nil.
\<close>

theorem failed_start_is_forgotten:
  assumes "Manager_Start ac cc NewAuthManager = (Some e, am)"
  shows "Manager_Start ac' cc' am = (None, am) \<and> Manager_Stop am = Panics ''nil pointer dereference''"
  using assms
  by (auto simp: Manager_Start_def Manager_Stop_def NewAuthManager_def split: sum.splits option.splits)

theorem failed_start_is_forgotten_witness:
  "\<exists>am. Manager_Start (Inl EOF) (Inr 1) NewAuthManager = (Some EOF, am) \<and>
     Manager_Start (Inr 0) (Inr 1) am = (None, am)"
proof -
  obtain am where s: "Manager_Start (Inl EOF) (Inr 1) NewAuthManager = (Some EOF, am)"
    by (simp add: Manager_Start_def NewAuthManager_def)
  from failed_start_is_forgotten [OF s] s show ?thesis by blast
qed

text \<open>
  \<open>getSession\<close>: the cache first, then one request for all concurrent callers of a token;
  \<open>shared\<close> tells a caller that others were given the same answer. The cache is a parameter:
  what it holds, and its \<open>Add\<close>.
\<close>

definition getSession ::
  "('c \<Rightarrow> string \<Rightarrow> Session option) \<Rightarrow> (string \<Rightarrow> Session \<Rightarrow> 'c \<Rightarrow> 'c) \<Rightarrow> Session res \<Rightarrow> bool \<Rightarrow> string \<Rightarrow>
   'c \<Rightarrow> Session res \<times> 'c" where
  "getSession cget cadd answer shared token cache =
     (case cget cache token of
        Some v \<Rightarrow> (Inr v, cache)
      | None \<Rightarrow>
          (case answer of
             Inl e \<Rightarrow> (Inl e, cache)
           | Inr s \<Rightarrow> (Inr s, if shared then cache else cadd token s cache)))"

text \<open>A shared answer is cached by none of the callers it was shared with.\<close>

lemma getSession_shared: "snd (getSession cget cadd answer True token cache) = cache"
  by (simp add: getSession_def split: option.split sum.split)

end
