(* ===== verification/Grpc.thy ===== *)
theory Grpc
  imports Auth
begin

text \<open>
  \<^verbatim>\<open>infra/grpc_client/client.go\<close>, \<^verbatim>\<open>infra/storage/storage.go\<close> and \<^verbatim>\<open>infra/grpc_srv/server.go\<close>:
  shared client connections, the storage client, and the interceptor that puts a session into
  the context of every call. gRPC itself and the network are outside the repository.
\<close>

section \<open>Client connections\<close>

definition TokenHeaderName :: string where "TokenHeaderName = ''x-webitel-access''"

definition client_dsn :: "string \<Rightarrow> string \<Rightarrow> string" where
  "client_dsn consulTarget service = ''wbt://'' @ consulTarget @ ''/'' @ service @ ''?wait=15s''"

text \<open>\<open>conns\<close> is the process-wide map from DSN to connection.\<close>

definition NewClient ::
  "(string \<Rightarrow> nat res) \<Rightarrow> string \<Rightarrow> string \<Rightarrow> (string \<rightharpoonup> nat) \<Rightarrow> nat res \<times> (string \<rightharpoonup> nat)" where
  "NewClient grpc_NewClient consulTarget service conns =
     (let dsn = client_dsn consulTarget service
      in case conns dsn of
           Some c \<Rightarrow> (Inr c, conns)
         | None \<Rightarrow>
             (case grpc_NewClient dsn of
                Inl e \<Rightarrow> (Inl e, conns)
              | Inr c \<Rightarrow> (Inr c, conns(dsn \<mapsto> c))))"

text \<open>Closing does not remove the connection from the map.\<close>

definition Client_Close :: "nat \<Rightarrow> nat set \<Rightarrow> (string \<rightharpoonup> nat) \<Rightarrow> nat set \<times> (string \<rightharpoonup> nat)" where
  "Client_Close c closed conns = (insert c closed, conns)"

text \<open>A client obtained for a target whose connection was closed gets the closed connection.\<close>

lemma NewClient_after_close:
  assumes "NewClient new t s conns = (Inr c, conns')" and "Client_Close c closed conns' = (closed', conns'')"
  shows "NewClient new t s conns'' = (Inr c, conns'') \<and> c \<in> closed'"
  using assms by (auto simp: NewClient_def Client_Close_def Let_def split: option.splits sum.splits)

text \<open>A client is a connection and the stub made on it; starting one does nothing.\<close>

record 'a Client =
  gc_conn :: nat
  gc_API :: 'a

definition client_on :: "(nat \<Rightarrow> 'a) \<Rightarrow> nat \<Rightarrow> 'a Client" where
  "client_on api conn = \<lparr>gc_conn = conn, gc_API = api conn\<rparr>"

definition Client_Start :: "'a Client \<Rightarrow> go_error option" where
  "Client_Start c = None"

record Storage =
  st_started :: bool
  st_cli :: "nat option"

definition Storage_New :: Storage where
  "Storage_New = \<lparr>st_started = False, st_cli = None\<rparr>"

definition Storage_Start :: "nat res \<Rightarrow> Storage \<Rightarrow> go_error option \<times> Storage" where
  "Storage_Start client s =
     (if st_started s then (None, s)
      else (case client of
              Inl e \<Rightarrow> (Some e, s\<lparr>st_started := True, st_cli := None\<rparr>)
            | Inr c \<Rightarrow> (None, s\<lparr>st_started := True, st_cli := Some c\<rparr>)))"

definition Storage_Stop :: "Storage \<Rightarrow> nat outcome" where
  "Storage_Stop s = (case st_cli s of None \<Rightarrow> Panics ''nil pointer dereference'' | Some c \<Rightarrow> Returns c)"

definition Storage_API :: "Storage \<Rightarrow> nat outcome" where
  "Storage_API s = (case st_cli s of None \<Rightarrow> Panics ''nil pointer dereference'' | Some c \<Rightarrow> Returns c)"

lemma Storage_failed_start:
  "Storage_Start (Inl e) Storage_New = (Some e, s) \<Longrightarrow>
   Storage_Start c s = (None, s) \<and> Storage_API s = Panics ''nil pointer dereference''"
  by (auto simp: Storage_Start_def Storage_New_def Storage_API_def)

section \<open>The server\<close>

record Server =
  sv_Addr :: string
  sv_host :: string
  sv_port :: int

record ip =
  ip_text :: string
  ip_loopback :: bool
  ip_llmulticast :: bool
  ip_llunicast :: bool

definition isPublicIP :: "ip \<Rightarrow> bool" where
  "isPublicIP a = (if ip_loopback a \<or> ip_llmulticast a \<or> ip_llunicast a then False else True)"

text \<open>
  The addresses of an interface, or an error; an address of neither known kind is \<open>None\<close> and
  skipped.
\<close>

fun first_public :: "ip option list \<Rightarrow> string option" where
  "first_public [] = None"
| "first_public (a # as) =
     (case a of
        None \<Rightarrow> first_public as
      | Some p \<Rightarrow> if isPublicIP p then Some (ip_text p) else first_public as)"

fun scan_ifaces :: "ip option list res list \<Rightarrow> string" where
  "scan_ifaces [] = []"
| "scan_ifaces (i # is) =
     (case i of
        Inl e \<Rightarrow> scan_ifaces is
      | Inr addrs \<Rightarrow> (case first_public addrs of Some t \<Rightarrow> t | None \<Rightarrow> scan_ifaces is))"

definition publicAddr :: "ip option list res list res \<Rightarrow> string" where
  "publicAddr ifaces = (case ifaces of Inl e \<Rightarrow> [] | Inr is \<Rightarrow> scan_ifaces is)"

definition Server_New ::
  "string res \<Rightarrow> (string \<Rightarrow> (string \<times> string) res) \<Rightarrow> ip option list res list res \<Rightarrow> string \<Rightarrow> Server res" where
  "Server_New net_Listen SplitHostPort ifaces addr =
     and_then net_Listen (\<lambda>bound.
     and_then (SplitHostPort bound) (\<lambda>(h, p).
       Inr \<lparr>sv_Addr = addr, sv_host = (if h = ''::'' then publicAddr ifaces else h),
            sv_port = (case Atoi p of Inr n \<Rightarrow> n | Inl _ \<Rightarrow> 0)\<rparr>))"

definition Server_Host :: "string option \<Rightarrow> Server \<Rightarrow> string" where
  "Server_Host env s = (case env of Some e \<Rightarrow> e | None \<Rightarrow> sv_host s)"

definition Server_Port :: "Server \<Rightarrow> int" where "Server_Port s = sv_port s"

lemma scan_ifaces_public:
  assumes "scan_ifaces is = t" and "t \<noteq> []"
  shows "\<exists>addrs p. Inr addrs \<in> set is \<and> Some p \<in> set addrs \<and> isPublicIP p \<and> ip_text p = t"
proof -
  have f: "first_public as = Some t \<Longrightarrow> \<exists>p. Some p \<in> set as \<and> isPublicIP p \<and> ip_text p = t" for as t
    by (induction as) (auto split: option.splits if_splits)
  from assms show ?thesis
    by (induction "is") (auto split: sum.splits option.splits dest!: f)
qed

section \<open>Authentication of a call\<close>

type_synonym MD = "string \<rightharpoonup> string list"

text \<open>Metadata keys are lower case, and \<open>Get\<close> lowers its argument. An absent key has no values.\<close>

definition md_Get :: "MD \<Rightarrow> string \<Rightarrow> string list" where
  "md_Get md k = (case md (ToLower k) of None \<Rightarrow> [] | Some vs \<Rightarrow> vs)"

record ctx =
  ctx_grpc :: "MD option"
  ctx_incoming :: "MD option"
  ctx_session :: "Session option"

definition ErrUnauthenticated :: go_error where
  "ErrUnauthenticated = StatusErr 16 ''Unauthenticated''"

definition call_metadata :: "ctx \<Rightarrow> MD option" where
  "call_metadata c = (case ctx_grpc c of Some md \<Rightarrow> Some md | None \<Rightarrow> ctx_incoming c)"

definition getSessionFromCtx :: "(string \<Rightarrow> Session res) \<Rightarrow> int \<Rightarrow> ctx \<Rightarrow> Session res" where
  "getSessionFromCtx am_GetSession now c =
     (case call_metadata c of
        None \<Rightarrow> Inl ErrUnauthenticated
      | Some info \<Rightarrow>
          (let token = md_Get info TokenHeaderName
           in if length token < 1 then Inl ErrUnauthenticated
              else
                (case am_GetSession (token ! 0) of
                   Inl e \<Rightarrow> Inl e
                 | Inr s \<Rightarrow> if IsExpired now s then Inl ErrUnauthenticated else Inr s)))"

definition SessionFromCtx :: "ctx \<Rightarrow> Session res" where
  "SessionFromCtx c = (case ctx_session c of None \<Rightarrow> Inl ErrUnauthenticated | Some s \<Rightarrow> Inr s)"

text \<open>
  What a caller puts into the context of an outgoing call. Making metadata lowers its keys, and
  \<open>NewOutgoingContext\<close> replaces what was there; gRPC delivers the outgoing metadata to the
  server as incoming metadata. The host is read by the balancer's picker on the caller's side.
\<close>

record out_ctx =
  oc_static :: "string option"
  oc_metadata :: "MD option"

definition metadata_New :: "(string \<times> string) list \<Rightarrow> MD" where
  "metadata_New kvs = fold (\<lambda>(k, v) md. md(ToLower k \<mapsto> [v])) kvs Map.empty"

definition StaticHost :: "string \<Rightarrow> out_ctx \<Rightarrow> out_ctx" where
  "StaticHost name c = c\<lparr>oc_static := Some name\<rparr>"

definition WithToken :: "string \<Rightarrow> out_ctx \<Rightarrow> out_ctx" where
  "WithToken token c = c\<lparr>oc_metadata := Some (metadata_New [(TokenHeaderName, token)])\<rparr>"

text \<open>The methods of a client of the same names.\<close>

definition Client_StaticHost :: "'a Client \<Rightarrow> string \<Rightarrow> out_ctx \<Rightarrow> out_ctx" where
  "Client_StaticHost c name = StaticHost name"

definition Client_WithToken :: "'a Client \<Rightarrow> string \<Rightarrow> out_ctx \<Rightarrow> out_ctx" where
  "Client_WithToken c token = WithToken token"

definition delivered :: "out_ctx \<Rightarrow> ctx" where
  "delivered c = \<lparr>ctx_grpc = None, ctx_incoming = oc_metadata c, ctx_session = None\<rparr>"

text \<open>The interceptor, for a handler that works on a state.\<close>

definition unaryInterceptor ::
  "(string \<Rightarrow> Session res) \<Rightarrow> int \<Rightarrow> (ctx \<Rightarrow> 'w \<Rightarrow> 'r res \<times> 'w) \<Rightarrow> ctx \<Rightarrow> 'w \<Rightarrow> 'r res \<times> 'w" where
  "unaryInterceptor am_GetSession now handler c w =
     (case getSessionFromCtx am_GetSession now c of
        Inl e \<Rightarrow> (Inl e, w)
      | Inr s \<Rightarrow> handler (c\<lparr>ctx_session := Some s\<rparr>) w)"

definition call_token :: "ctx \<Rightarrow> string option" where
  "call_token c =
     (case call_metadata c of
        None \<Rightarrow> None
      | Some md \<Rightarrow> (case md_Get md TokenHeaderName of [] \<Rightarrow> None | t # _ \<Rightarrow> Some t))"

lemma interceptor_eq:
  "unaryInterceptor gs now handler c w =
     (case call_token c of
        None \<Rightarrow> (Inl ErrUnauthenticated, w)
      | Some t \<Rightarrow>
          (case gs t of
             Inl e \<Rightarrow> (Inl e, w)
           | Inr s \<Rightarrow> if IsExpired now s then (Inl ErrUnauthenticated, w)
                      else handler (c\<lparr>ctx_session := Some s\<rparr>) w))"
  by (simp add: unaryInterceptor_def getSessionFromCtx_def call_token_def Let_def
      split: option.split list.split sum.split)

text \<open>A server of this program sees the token the client's context was last given.\<close>

lemma token_delivered:
  "call_token (delivered (WithToken t c)) = Some t"
  "call_token (delivered (StaticHost h c)) = call_token (delivered c)"
  by (simp_all add: call_token_def call_metadata_def delivered_def WithToken_def StaticHost_def
      metadata_New_def md_Get_def)

lemma call_with_token:
  "unaryInterceptor gs now handler (delivered (WithToken t c)) w =
     (case gs t of
        Inl e \<Rightarrow> (Inl e, w)
      | Inr s \<Rightarrow> if IsExpired now s then (Inl ErrUnauthenticated, w)
                 else handler ((delivered (WithToken t c))\<lparr>ctx_session := Some s\<rparr>) w)"
  by (simp add: interceptor_eq token_delivered)

text \<open>
  A handler is reached exactly when the call carries a token whose session can be had and has
  not expired; every other call leaves the state alone.
\<close>

theorem handler_needs_live_session:
  "unaryInterceptor gs now handler c w =
     (case call_token c of
        None \<Rightarrow> (Inl ErrUnauthenticated, w)
      | Some t \<Rightarrow>
          (case gs t of
             Inl e \<Rightarrow> (Inl e, w)
           | Inr s \<Rightarrow> if IsExpired now s then (Inl ErrUnauthenticated, w)
                      else handler (c\<lparr>ctx_session := Some s\<rparr>) w))"
  by (rule interceptor_eq)

end
