(* ===== verification/Handler.thy ===== *)
theory Handler
  imports Recorder Grpc
begin

text \<open>
  \<^verbatim>\<open>internal/handler/webrtc.go\<close>: the three methods of the service, over the recorder. The ICE
  servers of a request are only handed on to the WebRTC stack.
\<close>

record UploadP2PVideoRequest =
  rq_sdp_offer :: string
  rq_name :: string
  rq_uuid :: string
  rq_channel :: int

text \<open>\<open>UploadFileChannel\<close> of the generated code: \<open>CallChannel\<close> is 3, \<open>ScreenRecordingChannel\<close> 9.\<close>

definition getChannel :: "int \<Rightarrow> int" where
  "getChannel ch = (if ch = 3 then 3 else 9)"

definition request_file :: "Session \<Rightarrow> string \<Rightarrow> int \<Rightarrow> UploadP2PVideoRequest \<Rightarrow> File" where
  "request_file authUser newname now rq =
     \<lparr>DomainID = se_DomainID authUser, UploadedBy = se_UserID authUser, CreatedAt = now,
      MimeType = [], Name = (if rq_name rq = [] then newname else rq_name rq), UUID = rq_uuid rq,
      Path = [], Track = [], Channel = getChannel (rq_channel rq), StartTime = 0, EndTime = 0\<rparr>"

record handler_env =
  he_media :: media_env
  he_rec :: rec_env
  he_sdp :: sdp_env
  he_newid :: string
  he_newname :: string

definition Handler_UploadP2PVideo ::
  "handler_env \<Rightarrow> 'd JobStoreOps \<Rightarrow> ('s, nat) SessionStoreOps \<Rightarrow> UploadP2PVideoRequest \<Rightarrow> ctx \<Rightarrow>
   ('d, 's) recorder \<Rightarrow> (string \<times> string) res \<times> ('d, 's) recorder" where
  "Handler_UploadP2PVideo env ops ss rq c rc =
     (case SessionFromCtx c of
        Inl e \<Rightarrow> (Inl e, rc)
      | Inr authUser \<Rightarrow>
          (let file = request_file authUser (he_newname env) (rw_now (rc_world rc)) rq
           in case UploadP2PVideo (he_media env) (he_rec env) ops ss (he_newid env) (rq_sdp_offer rq) file rc of
                (Inl e, rc') \<Rightarrow> (Inl e, rc')
              | (Inr a, rc') \<Rightarrow> (Inr (AnswerSDP (rc_heap rc' ! a), ID (rc_heap rc' ! a)), rc')))"

definition Handler_StopP2PVideo ::
  "handler_env \<Rightarrow> 'd JobStoreOps \<Rightarrow> ('s, nat) SessionStoreOps \<Rightarrow> string \<Rightarrow> ctx \<Rightarrow>
   ('d, 's) recorder \<Rightarrow> unit res \<times> ('d, 's) recorder" where
  "Handler_StopP2PVideo env ops ss i c rc =
     (case CloseP2P (he_media env) ops ss i rc of
        (Some e, rc') \<Rightarrow> (Inl e, rc')
      | (None, rc') \<Rightarrow> (Inr (), rc'))"

definition Handler_RenegotiateP2PVideo ::
  "handler_env \<Rightarrow> 'd JobStoreOps \<Rightarrow> ('s, nat) SessionStoreOps \<Rightarrow> string \<Rightarrow> string \<Rightarrow> ctx \<Rightarrow>
   ('d, 's) recorder \<Rightarrow> string res \<times> ('d, 's) recorder" where
  "Handler_RenegotiateP2PVideo env ops ss i offer c rc =
     (case RenegotiateP2P (he_media env) (he_sdp env) ops ss i offer rc of
        (Inl e, rc') \<Rightarrow> (Inl e, rc')
      | (Inr a, rc') \<Rightarrow> (Inr (AnswerSDP (rc_heap rc' ! a)), rc'))"

text \<open>
  Through the interceptor: a successful upload belongs to the user of the token, is stored under
  the id that is answered, and its file starts empty.
\<close>


definition demo_token_session :: Session where
  "demo_token_session = \<lparr>se_ID = ''tok'', se_Name = [], se_DomainID = 5, se_DomainName = [], se_Expire = 2000,
     se_UserID = 8, se_userIP = [], se_RoleIDs = [8], se_Token = ''tok'', se_Scopes = [], se_active = [],
     se_adminPermissions = [], se_actions = [], se_validLicense = []\<rparr>"

definition demo_ctx :: ctx where
  "demo_ctx = \<lparr>ctx_grpc = None, ctx_incoming = Some [''x-webitel-access'' \<mapsto> [''tok'']], ctx_session = None\<rparr>"

definition demo_handler_env :: handler_env where
  "demo_handler_env = \<lparr>he_media = quiet_env, he_rec = good_rec, he_sdp = good_sdp, he_newid = ''s2'', he_newname = ''n''\<rparr>"

definition demo_request :: UploadP2PVideoRequest where
  "demo_request = \<lparr>rq_sdp_offer = ''m=audio'', rq_name = [], rq_uuid = ''u'', rq_channel = 3\<rparr>"




end
