(* ===== verification/Consul.thy ===== *)
theory Consul
  imports Prelude
begin

text \<open>
  \<^verbatim>\<open>infra/consul/consul.go\<close> and \<^verbatim>\<open>infra/consul/cluster.go\<close>: registration of the service with the
  local Consul agent, its TTL check, and the retries at start-up. The agent is outside the
  repository: the answers of its calls and of the health check are functions of the call's
  number.
\<close>

record Config =
  co_Name :: string
  co_Address :: string
  co_Port :: int
  co_TTL :: int
  co_CriticalTTL :: int

record agent =
  ag_register :: "nat \<Rightarrow> go_error option"
  ag_ttl :: "nat \<Rightarrow> go_error option"
  ag_check :: "nat \<Rightarrow> go_error option"

text \<open>
  \<open>c_updaters\<close> are the intervals of the update goroutines started so far. The last three
  fields count the calls made.
\<close>

record Consul =
  c_id :: string
  c_checkID :: string
  c_ready :: bool
  c_config :: "Config option"
  c_instance :: string
  c_stopped :: bool
  c_updaters :: "int list"
  n_register :: nat
  n_ttl :: nat
  n_check :: nat

definition NewConsul :: "string \<Rightarrow> bool \<Rightarrow> go_error option \<Rightarrow> Consul res" where
  "NewConsul i has_check client_err =
     (if \<not> has_check then Inl (Errorf ''check function cannot be nil'')
      else err_res (map_option (\<lambda>_. Errorf ''failed to create Consul client'') client_err)
        \<lparr>c_id = i, c_checkID = ''service:'' @ i, c_ready = False, c_config = None, c_instance = [],
         c_stopped = False, c_updaters = [], n_register = 0, n_ttl = 0, n_check = 0\<rparr>)"

definition instance_name :: "string \<Rightarrow> Config \<Rightarrow> string" where
  "instance_name i cfg = co_Name cfg @ ''-'' @ i"

text \<open>
  The part of \<open>RegisterService\<close> before its last call: the configuration is kept, the agent is
  called, and on success an updater is started, which ends at once for an interval that is not
  positive.
\<close>

definition register_call :: "agent \<Rightarrow> Config \<Rightarrow> Consul \<Rightarrow> go_error option \<times> Consul" where
  "register_call env cfg c =
     (let c1 = c\<lparr>c_config := Some cfg, c_instance := instance_name (c_id c) cfg, n_register := Suc (n_register c)\<rparr>
      in case ag_register env (n_register c) of
           Some e \<Rightarrow> (Some (Errorf ''failed to register service''), c1)
         | None \<Rightarrow>
             (let interval = go_quot (co_TTL cfg) 2
              in (None, if interval \<le> 0 then c1 else c1\<lparr>c_updaters := c_updaters c1 @ [interval]\<rparr>)))"

text \<open>
  \<open>updateTTLStatus\<close>, \<open>handleTTLUpdateError\<close> and \<open>RegisterService\<close> call each other: a TTL call
  answered with status 500 registers the service again, which updates the TTL status again. The
  recursion need not end; \<open>None\<close> is a call that does not return.
\<close>

fun is_500 :: "go_error \<Rightarrow> bool" where
  "is_500 (StatusErr c _) = (c = 500)"
| "is_500 _ = False"

partial_function (option) updateTTLStatus :: "agent \<Rightarrow> Consul \<Rightarrow> Consul option" where
  "updateTTLStatus env c =
     (let chk = ag_check env (n_check c);
          ans = ag_ttl env (n_ttl c);
          c1 = c\<lparr>n_check := Suc (n_check c), n_ttl := Suc (n_ttl c)\<rparr>
      in Option.bind
          (case ans of
             None \<Rightarrow> Some c1
           | Some e \<Rightarrow>
               (if is_500 e then
                  (case c_config c1 of
                     None \<Rightarrow> Some c1
                   | Some cfg \<Rightarrow>
                       (case register_call env cfg c1 of
                          (Some regErr, c2) \<Rightarrow> Some c2
                        | (None, c2) \<Rightarrow> updateTTLStatus env c2))
                else Some c1))
          (\<lambda>c3. Some (if chk \<noteq> None then c3\<lparr>c_ready := False\<rparr>
                      else if ans = None then c3\<lparr>c_ready := True\<rparr> else c3)))"

definition handleTTLUpdateError :: "agent \<Rightarrow> go_error \<Rightarrow> Consul \<Rightarrow> Consul option" where
  "handleTTLUpdateError env e c =
     (if is_500 e then
        (case c_config c of
           None \<Rightarrow> Some c
         | Some cfg \<Rightarrow>
             (case register_call env cfg c of
                (Some regErr, c2) \<Rightarrow> Some c2
              | (None, c2) \<Rightarrow> updateTTLStatus env c2))
      else Some c)"

definition RegisterService :: "agent \<Rightarrow> Config \<Rightarrow> Consul \<Rightarrow> (go_error option \<times> Consul) option" where
  "RegisterService env cfg c =
     (case register_call env cfg c of
        (Some e, c1) \<Rightarrow> Some (Some e, c1)
      | (None, c1) \<Rightarrow> map_option (\<lambda>c2. (None, c2)) (updateTTLStatus env c1))"

lemma updateTTLStatus_unfold:
  "updateTTLStatus env c =
     (let c1 = c\<lparr>n_check := Suc (n_check c), n_ttl := Suc (n_ttl c)\<rparr>
      in Option.bind
          (case ag_ttl env (n_ttl c) of None \<Rightarrow> Some c1 | Some e \<Rightarrow> handleTTLUpdateError env e c1)
          (\<lambda>c3. Some (if ag_check env (n_check c) \<noteq> None then c3\<lparr>c_ready := False\<rparr>
                      else if ag_ttl env (n_ttl c) = None then c3\<lparr>c_ready := True\<rparr> else c3)))"
  unfolding handleTTLUpdateError_def by (subst updateTTLStatus.simps) (simp add: Let_def)

definition IsReady :: "Consul \<Rightarrow> bool" where "IsReady c = c_ready c"

text \<open>
  A tick of an updater. The \<open>select\<close> of its loop may still choose a tick when \<open>stop\<close> is closed.
\<close>

definition updater_tick :: "agent \<Rightarrow> Consul \<Rightarrow> Consul option" where
  "updater_tick env c = updateTTLStatus env c"

text \<open>Closing a closed channel panics. An error of the deregistration is logged.\<close>

definition Shutdown :: "Consul \<Rightarrow> Consul outcome" where
  "Shutdown c = (if c_stopped c then Panics ''close of closed channel'' else Returns (c\<lparr>c_stopped := True\<rparr>))"

section \<open>Registration while the agent works\<close>

lemma update_healthy:
  assumes "ag_ttl env (n_ttl c) = None"
  shows "updateTTLStatus env c = Some (c\<lparr>n_check := Suc (n_check c), n_ttl := Suc (n_ttl c),
    c_ready := (ag_check env (n_check c) = None)\<rparr>)"
  using assms by (simp add: updateTTLStatus_unfold Let_def)

text \<open>
  With an agent that accepts the registration and the first TTL call and a healthy service,
  RegisterService succeeds, the service is ready under the name joined with its id, and one
  updater runs at half the TTL.
\<close>

theorem registration_makes_ready:
  assumes "ag_register env (n_register c) = None" and "ag_ttl env (n_ttl c) = None"
    and "ag_check env (n_check c) = None" and "2 \<le> co_TTL cfg"
  shows "\<exists>c'. RegisterService env cfg c = Some (None, c') \<and> IsReady c' \<and>
    c_updaters c' = c_updaters c @ [co_TTL cfg div 2] \<and> c_config c' = Some cfg \<and>
    c_instance c' = co_Name cfg @ ''-'' @ c_id c"
proof -
  have "go_quot (co_TTL cfg) 2 = co_TTL cfg div 2" using assms(4) by (simp add: go_quot_nonneg)
  moreover have "1 \<le> co_TTL cfg div 2" using assms(4) by linarith
  ultimately show ?thesis
    using assms update_healthy
    by (simp add: RegisterService_def register_call_def Let_def IsReady_def instance_name_def)
qed

definition quiet_agent :: agent where
  "quiet_agent = \<lparr>ag_register = (\<lambda>_. None), ag_ttl = (\<lambda>_. None), ag_check = (\<lambda>_. None)\<rparr>"

definition fresh_consul :: Consul where
  "fresh_consul = \<lparr>c_id = ''1'', c_checkID = ''service:1'', c_ready = False, c_config = None, c_instance = [],
     c_stopped = False, c_updaters = [], n_register = 0, n_ttl = 0, n_check = 0\<rparr>"

definition cluster_config :: "string \<Rightarrow> string \<Rightarrow> int \<Rightarrow> Config" where
  "cluster_config name host port =
     \<lparr>co_Name = name, co_Address = host, co_Port = port, co_TTL = 10000000000, co_CriticalTTL = 20000000000\<rparr>"

theorem registration_makes_ready_witness:
  "\<exists>c'. RegisterService quiet_agent (cluster_config ''r'' ''h'' 1) fresh_consul = Some (None, c') \<and>
     c_updaters c' = [5000000000]"
  using registration_makes_ready [of quiet_agent fresh_consul "cluster_config ''r'' ''h'' 1"]
  by (auto simp: quiet_agent_def cluster_config_def fresh_consul_def)

section \<open>Registration while the agent answers 500\<close>

text \<open>
  After \<open>m\<close> answers of 500 and then a success the call returns, the service is ready, and every
  one of these registrations has left an updater of its own running.
\<close>

lemma update_after_500s:
  assumes "\<And>k. k < m \<Longrightarrow> is_500 (the (ag_ttl env (n_ttl c + k))) \<and> ag_ttl env (n_ttl c + k) \<noteq> None"
    and "ag_ttl env (n_ttl c + m) = None" and "\<And>k. ag_check env k = None" and "\<And>k. ag_register env k = None"
    and "c_config c = Some cfg" and "2 \<le> co_TTL cfg"
  shows "\<exists>c'. updateTTLStatus env c = Some c' \<and> c_ready c' \<and>
    c_updaters c' = c_updaters c @ replicate m (co_TTL cfg div 2)"
  using assms
proof (induction m arbitrary: c)
  case 0
  then show ?case by (simp add: update_healthy)
next
  case (Suc m)
  from Suc.prems(1) [of 0] obtain e where e: "ag_ttl env (n_ttl c) = Some e" "is_500 e" by auto
  have "1 \<le> co_TTL cfg div 2" using Suc.prems(6) by linarith
  then have q: "go_quot (co_TTL cfg) 2 = co_TTL cfg div 2" "\<not> co_TTL cfg div 2 \<le> 0"
    using Suc.prems(6) by (simp_all add: go_quot_nonneg)
  let ?c1 = "c\<lparr>n_check := Suc (n_check c), n_ttl := Suc (n_ttl c)\<rparr>"
  let ?c2 = "?c1\<lparr>c_config := Some cfg, c_instance := instance_name (c_id c) cfg,
      n_register := Suc (n_register c), c_updaters := c_updaters c @ [co_TTL cfg div 2]\<rparr>"
  have r: "register_call env cfg ?c1 = (None, ?c2)"
    using Suc.prems(4) q by (simp add: register_call_def Let_def)
  have "is_500 (the (ag_ttl env (n_ttl ?c2 + k))) \<and> ag_ttl env (n_ttl ?c2 + k) \<noteq> None" if "k < m" for k
    using Suc.prems(1) [of "Suc k"] that by simp
  from Suc.IH [OF this _ Suc.prems(3,4) _ Suc.prems(6)] Suc.prems(2) obtain c' where
    c': "updateTTLStatus env ?c2 = Some c'" "c_ready c'" "c_updaters c' = c_updaters ?c2 @ replicate m (co_TTL cfg div 2)"
    by auto
  have "updateTTLStatus env c = Some c'"
    by (subst updateTTLStatus_unfold)
       (simp add: e r c'(1) Suc.prems(3,5) handleTTLUpdateError_def Let_def)
  with c' show ?case by simp
qed

text \<open>
  When the agent answers 500 to m TTL calls in a row and then recovers, one tick of the
  updater makes the service ready again, but each of the m registrations has started an
  updater goroutine of its own that goes on running.
\<close>

theorem outage_multiplies_updaters:
  assumes "\<And>k. k < m \<Longrightarrow> ag_ttl env (n_ttl c + k) = Some (StatusErr 500 msg)"
    and "ag_ttl env (n_ttl c + m) = None" and "\<And>k. ag_check env k = None" and "\<And>k. ag_register env k = None"
    and "c_config c = Some cfg" and "2 \<le> co_TTL cfg"
  shows "\<exists>c'. updater_tick env c = Some c' \<and> IsReady c' \<and>
    length (c_updaters c') = length (c_updaters c) + m"
proof -
  have "is_500 (the (ag_ttl env (n_ttl c + k))) \<and> ag_ttl env (n_ttl c + k) \<noteq> None" if "k < m" for k
    using assms(1) [OF that] by simp
  from update_after_500s [OF this assms(2-6)] show ?thesis
    by (auto simp: updater_tick_def IsReady_def)
qed

theorem outage_multiplies_updaters_witness:
  "\<exists>c'. updater_tick (quiet_agent\<lparr>ag_ttl := (\<lambda>k. if k < 3 then Some (StatusErr 500 []) else None)\<rparr>)
      (fresh_consul\<lparr>c_config := Some (cluster_config ''r'' ''h'' 1)\<rparr>) = Some c' \<and> length (c_updaters c') = 3"
proof -
  let ?env = "quiet_agent\<lparr>ag_ttl := (\<lambda>k. if k < 3 then Some (StatusErr 500 []) else None)\<rparr>"
  let ?c = "fresh_consul\<lparr>c_config := Some (cluster_config ''r'' ''h'' 1)\<rparr>"
  from outage_multiplies_updaters [of 3 ?env ?c "[]" "cluster_config ''r'' ''h'' 1"] show ?thesis
    by (auto simp: quiet_agent_def fresh_consul_def cluster_config_def)
qed

text \<open>
  While the agent keeps answering 500 to the TTL call and accepts every registration, none of
  the calls returns: the recursion has no end.
\<close>

lemma update_diverges:
  assumes "\<And>k. ag_register env k = None" and "\<And>k. \<exists>e. ag_ttl env k = Some e \<and> is_500 e"
    and "updateTTLStatus env c = Some c'"
  shows "c_config c = None"
proof -
  have "env' = env \<longrightarrow> c_config c = None" if "updateTTLStatus env' c = Some c'" for env' c c'
  proof (rule updateTTLStatus.raw_induct [where P = "\<lambda>e c c'. e = env \<longrightarrow> c_config c = None", OF _ that], rule impI, rule ccontr)
    fix upd env' c y
    assume IH: "\<And>e c y. upd e c = Some y \<Longrightarrow> e = env \<longrightarrow> c_config c = None"
      and eq: "(let chk = ag_check env' (n_check c); ans = ag_ttl env' (n_ttl c);
          c1 = c\<lparr>n_check := Suc (n_check c), n_ttl := Suc (n_ttl c)\<rparr>
        in Option.bind
          (case ans of None \<Rightarrow> Some c1
           | Some e \<Rightarrow>
               if is_500 e
               then case c_config c1 of None \<Rightarrow> Some c1
                    | Some cfg \<Rightarrow>
                        case register_call env' cfg c1 of
                        (None, c2) \<Rightarrow> upd env' c2
                        | (Some regErr, c2) \<Rightarrow> Some c2
               else Some c1)
          (\<lambda>c3. Some
                 (if chk \<noteq> None then c3\<lparr>c_ready := False\<rparr>
                  else if ans = None then c3\<lparr>c_ready := True\<rparr> else c3))) = Some y"
      and e: "env' = env" and "c_config c \<noteq> None"
    then obtain cfg where cfg: "c_config c = Some cfg" by blast
    let ?c1 = "c\<lparr>n_check := Suc (n_check c), n_ttl := Suc (n_ttl c)\<rparr>"
    obtain err where err: "ag_ttl env (n_ttl c) = Some err" "is_500 err" using assms(2) by blast
    obtain c2 where r: "register_call env cfg ?c1 = (None, c2)" and c2: "c_config c2 \<noteq> None"
      using assms(1) by (auto simp: register_call_def Let_def)
    from eq e err cfg r obtain c3 where "upd env c2 = Some c3"
      by (auto simp: Let_def bind_eq_Some_conv)
    from IH [OF this] c2 show False by simp
  qed
  with assms(3) show ?thesis by blast
qed

text \<open>
  C39. While the agent accepts every registration and answers 500 to every TTL call,
  RegisterService never returns: registering updates the TTL status, which registers again,
  without end.
\<close>

theorem registration_never_returns:
  assumes "\<And>k. ag_register env k = None" and "\<And>k. ag_ttl env k = Some (StatusErr 500 msg)"
  shows "RegisterService env cfg c = None"
proof -
  obtain c1 where r: "register_call env cfg c = (None, c1)" "c_config c1 \<noteq> None"
    using assms(1) by (auto simp: register_call_def Let_def)
  have "updateTTLStatus env c1 = None"
    using update_diverges [OF assms(1), of c1] assms(2) r(2) by (cases "updateTTLStatus env c1") auto
  with r show ?thesis by (simp add: RegisterService_def)
qed

theorem registration_never_returns_witness:
  "RegisterService (quiet_agent\<lparr>ag_ttl := (\<lambda>_. Some (StatusErr 500 []))\<rparr>) (cluster_config ''r'' ''h'' 1) fresh_consul = None"
  by (rule registration_never_returns [where msg = "[]"]) (simp_all add: quiet_agent_def)

section \<open>Cluster\<close>

record Cluster =
  cl_name :: string
  cl_discovery :: "Consul option"

definition NewCluster :: "string \<Rightarrow> Cluster" where
  "NewCluster name = \<lparr>cl_name = name, cl_discovery = None\<rparr>"

definition defaultReconnectAttempts :: nat where "defaultReconnectAttempts = 10"

text \<open>The attempts left to make; sleeping in between is left out.\<close>

fun attempts :: "nat \<Rightarrow> agent \<Rightarrow> Config \<Rightarrow> Consul \<Rightarrow> (go_error option \<times> Consul) option" where
  "attempts 0 env cfg c = Some (Some (Errorf ''exceeded maximum reconnect attempts''), c)"
| "attempts (Suc n) env cfg c =
     (case RegisterService env cfg c of
        None \<Rightarrow> None
      | Some (None, c') \<Rightarrow> Some (None, c')
      | Some (Some e, c') \<Rightarrow> attempts n env cfg c')"

definition attemptConsulRegistration :: "agent \<Rightarrow> Config \<Rightarrow> Consul \<Rightarrow> (go_error option \<times> Consul) option" where
  "attemptConsulRegistration env cfg c = attempts defaultReconnectAttempts env cfg c"

definition Cluster_Start ::
  "agent \<Rightarrow> go_error option \<Rightarrow> string \<Rightarrow> string \<Rightarrow> int \<Rightarrow> Cluster \<Rightarrow> (go_error option \<times> Cluster) option" where
  "Cluster_Start env client_err i host port c =
     (case NewConsul i True client_err of
        Inl e \<Rightarrow> Some (Some e, c)
      | Inr d \<Rightarrow>
          map_option (\<lambda>(e, d'). (map_option (\<lambda>_. Errorf ''failed to register service in Consul'') e,
              c\<lparr>cl_discovery := Some d'\<rparr>))
            (attemptConsulRegistration env (cluster_config (cl_name c) host port) d))"

definition Cluster_Stop :: "Cluster \<Rightarrow> Cluster outcome" where
  "Cluster_Stop c =
     (case cl_discovery c of
        None \<Rightarrow> Panics ''nil pointer dereference''
      | Some d \<Rightarrow>
          (case Shutdown d of
             Panics m \<Rightarrow> Panics m | Returns d' \<Rightarrow> Returns (c\<lparr>cl_discovery := Some d'\<rparr>)))"

lemma attempts_law:
  assumes "\<And>k. ag_ttl env k = None" and "n_register c = r"
  shows "\<exists>c'. attempts n env cfg c =
    Some (if \<exists>k < n. ag_register env (r + k) = None then None else Some (Errorf ''exceeded maximum reconnect attempts''), c') \<and>
    (if \<exists>k < n. ag_register env (r + k) = None then n_register c' \<le> r + n else n_register c' = r + n)"
  using assms(2)
proof (induction n arbitrary: c r)
  case (Suc n)
  show ?case
  proof (cases "ag_register env r")
    case None
    then obtain c' where c': "RegisterService env cfg c = Some (None, c')" "n_register c' = Suc r"
      using assms(1) Suc.prems update_healthy
      by (auto simp: RegisterService_def register_call_def Let_def)
    from None have "\<exists>k < Suc n. ag_register env (r + k) = None" by (intro exI [of _ 0]) simp
    with c' show ?thesis by simp
  next
    case (Some e)
    then obtain e' c' where c': "RegisterService env cfg c = Some (Some e', c')" "n_register c' = Suc r"
      using Suc.prems by (auto simp: RegisterService_def register_call_def Let_def)
    have ex: "(\<exists>k < Suc n. ag_register env (r + k) = None) = (\<exists>k < n. ag_register env (Suc r + k) = None)"
      using Some by (metis Suc_less_eq add.right_neutral add_Suc add_Suc_right less_Suc_eq_0_disj option.distinct(1))
    from Suc.IH [OF c'(2)] obtain c2 where "attempts n env cfg c' = Some (if \<exists>k < n. ag_register env (Suc r + k) = None
        then None else Some (Errorf ''exceeded maximum reconnect attempts''), c2)"
      "if \<exists>k < n. ag_register env (Suc r + k) = None then n_register c2 \<le> Suc r + n
       else n_register c2 = Suc r + n" by blast
    then show ?thesis unfolding ex by (intro exI [of _ c2]) (auto simp: c' split: if_splits)
  qed
qed simp

text \<open>
  The registration at start-up succeeds exactly when one of ten attempts does, and makes at
  most ten.
\<close>

theorem registration_attempts:
  assumes "\<And>k. ag_ttl env k = None"
  shows "\<exists>c'. attemptConsulRegistration env cfg c =
    Some (if \<exists>k < 10. ag_register env (n_register c + k) = None then None
          else Some (Errorf ''exceeded maximum reconnect attempts''), c') \<and>
    n_register c' \<le> n_register c + 10"
  using attempts_law [OF assms refl, of 10 cfg c]
  by (auto simp: attemptConsulRegistration_def defaultReconnectAttempts_def split: if_splits)

theorem registration_attempts_witness:
  "\<exists>c'. attemptConsulRegistration (quiet_agent\<lparr>ag_register := (\<lambda>k. if k < 12 then Some EOF else None)\<rparr>)
      (cluster_config ''r'' ''h'' 1) fresh_consul = Some (Some (Errorf ''exceeded maximum reconnect attempts''), c')"
  using registration_attempts [of "quiet_agent\<lparr>ag_register := (\<lambda>k. if k < 12 then Some EOF else None)\<rparr>"
      "cluster_config ''r'' ''h'' 1" fresh_consul]
  by (auto simp: quiet_agent_def fresh_consul_def split: if_splits)

text \<open>Registering does not stop the client, so a client that was registered can be shut down.\<close>

lemma register_call_stopped [simp]: "c_stopped (snd (register_call env cfg c)) = c_stopped c"
  by (simp add: register_call_def Let_def split: option.split)

lemma update_stopped:
  assumes "updateTTLStatus env c = Some c'"
  shows "c_stopped c' = c_stopped c"
proof (rule updateTTLStatus.raw_induct [where P = "\<lambda>_ c c'. c_stopped c' = c_stopped c", OF _ assms])
  fix upd env c y
  assume IH: "\<And>e c y. upd e c = Some y \<Longrightarrow> c_stopped y = c_stopped c"
    and eq: "(let chk = ag_check env (n_check c); ans = ag_ttl env (n_ttl c);
          c1 = c\<lparr>n_check := Suc (n_check c), n_ttl := Suc (n_ttl c)\<rparr>
        in Option.bind
          (case ans of None \<Rightarrow> Some c1
           | Some e \<Rightarrow>
               if is_500 e
               then case c_config c1 of None \<Rightarrow> Some c1
                    | Some cfg \<Rightarrow>
                        case register_call env cfg c1 of
                        (None, c2) \<Rightarrow> upd env c2
                        | (Some regErr, c2) \<Rightarrow> Some c2
               else Some c1)
          (\<lambda>c3. Some
                 (if chk \<noteq> None then c3\<lparr>c_ready := False\<rparr>
                  else if ans = None then c3\<lparr>c_ready := True\<rparr> else c3))) = Some y"
  have r: "c_stopped c2 = c_stopped c1" if "register_call env cfg c1 = (e, c2)" for cfg c1 e c2
    using register_call_stopped [of env cfg c1] that by simp
  from eq show "c_stopped y = c_stopped c"
    by (auto simp: Let_def bind_eq_Some_conv split: option.splits if_splits prod.splits dest!: IH r)
qed

lemma RegisterService_stopped:
  assumes "RegisterService env cfg c = Some (e, c')"
  shows "c_stopped c' = c_stopped c"
proof (cases "register_call env cfg c")
  case (Pair o1 c1)
  then have c1: "c_stopped c1 = c_stopped c" using register_call_stopped [of env cfg c] by simp
  show ?thesis
  proof (cases o1)
    case None
    with assms Pair obtain u where "updateTTLStatus env c1 = Some u" "c' = u"
      by (auto simp: RegisterService_def)
    with update_stopped [of env c1 u] c1 show ?thesis by simp
  next
    case (Some err)
    with assms Pair c1 show ?thesis by (simp add: RegisterService_def)
  qed
qed

lemma attempts_stopped: "attempts n env cfg c = Some (e, c') \<Longrightarrow> c_stopped c' = c_stopped c"
proof (induction n arbitrary: c)
  case (Suc n)
  then obtain e1 c1 where r: "RegisterService env cfg c = Some (e1, c1)"
    by (auto split: option.splits)
  from RegisterService_stopped [OF r] Suc r show ?case by (cases e1) simp_all
qed simp

lemma Cluster_started_stops:
  "Cluster_Start env client_err i host port cl = Some (None, cl') \<Longrightarrow> \<exists>cl''. Cluster_Stop cl' = Returns cl''"
  by (auto simp: Cluster_Start_def Cluster_Stop_def Shutdown_def NewConsul_def err_res_def
      attemptConsulRegistration_def split: sum.splits option.splits dest: attempts_stopped)

lemma Shutdown_twice: "Shutdown c = Returns c' \<Longrightarrow> Shutdown c' = Panics ''close of closed channel''"
  by (auto simp: Shutdown_def split: if_splits)

end
