(* ===== verification/Worker_Pool.thy ===== *)
theory Worker_Pool
  imports Prelude
begin

text \<open>
  \<^verbatim>\<open>internal/utils/pool.go\<close>: the pool both job services hand their tasks to. The goroutines are
  interleaved: one rule of the step relation for each channel operation of the code, so a send
  on a full channel is a step that is not enabled. Two fields are history: the tasks accepted
  by \<open>Exec\<close> and the tasks received by a worker, in order.
\<close>

datatype 'a worker_state = Waiting | Running 'a | Exited

record 'a pool =
  p_size :: int
  p_cap :: nat
  p_tasks :: "'a list"
  p_closed :: bool
  p_kill :: nat
  p_done :: bool
  p_workers :: "'a worker_state list"
  p_panic :: bool
  p_accepted :: "'a list"
  p_started :: "'a list"
  p_executed :: "'a list"

text \<open>The growing loop of \<open>Resize\<close>, and the constructor. A negative capacity panics in \<open>make\<close>.\<close>

function grow :: "int \<Rightarrow> 'a pool \<Rightarrow> 'a pool" where
  "grow n p =
     (if p_size p < n
      then grow n (p\<lparr>p_size := p_size p + 1, p_workers := p_workers p @ [Waiting]\<rparr>)
      else p)"
  by pat_completeness auto
termination
  by (relation "measure (\<lambda>(n, p). nat (n - p_size p))") auto

declare grow.simps [simp del]

definition NewPool :: "bool \<Rightarrow> int \<Rightarrow> int \<Rightarrow> 'a pool outcome" where
  "NewPool ctx_done workers queueCount =
     (if queueCount < 0 then Panics ''makechan: size out of range''
      else Returns (grow workers
        \<lparr>p_size = 0, p_cap = nat queueCount, p_tasks = [], p_closed = False, p_kill = 0,
         p_done = ctx_done, p_workers = [], p_panic = False, p_accepted = [], p_started = [],
         p_executed = []\<rparr>))"

datatype 'a pool_event =
    Exec 'a | Handoff 'a nat | Take nat | Finish nat | WorkerExit nat
  | Grow int | Shrink int | Killed nat | Cancel | ClosePool

text \<open>
  \<open>Exec\<close> puts a task into the buffer; on an unbuffered channel it meets a receiving worker. A
  send on a closed channel panics, and so does closing twice. A worker's \<open>select\<close> may take any
  case that is ready. \<open>Resize\<close> counts a worker off and then waits for one to receive from
  \<open>kill\<close>; the mutex keeps that to one pending send.
\<close>

inductive pool_step :: "'a pool \<Rightarrow> 'a pool_event \<Rightarrow> 'a pool \<Rightarrow> bool" where
  exec: "\<lbrakk>\<not> p_closed p; length (p_tasks p) < p_cap p\<rbrakk> \<Longrightarrow>
     pool_step p (Exec t) (p\<lparr>p_tasks := p_tasks p @ [t], p_accepted := p_accepted p @ [t]\<rparr>)"
| exec_closed: "p_closed p \<Longrightarrow> pool_step p (Exec t) (p\<lparr>p_panic := True\<rparr>)"
| handoff: "\<lbrakk>\<not> p_closed p; p_cap p = 0; i < length (p_workers p); p_workers p ! i = Waiting\<rbrakk> \<Longrightarrow>
     pool_step p (Handoff t i)
       (p\<lparr>p_workers := (p_workers p)[i := Running t], p_accepted := p_accepted p @ [t],
          p_started := p_started p @ [t]\<rparr>)"
| take: "\<lbrakk>i < length (p_workers p); p_workers p ! i = Waiting; p_tasks p = t # ts\<rbrakk> \<Longrightarrow>
     pool_step p (Take i)
       (p\<lparr>p_workers := (p_workers p)[i := Running t], p_tasks := ts, p_started := p_started p @ [t]\<rparr>)"
| finish: "\<lbrakk>i < length (p_workers p); p_workers p ! i = Running t\<rbrakk> \<Longrightarrow>
     pool_step p (Finish i)
       (p\<lparr>p_workers := (p_workers p)[i := Waiting], p_executed := p_executed p @ [t]\<rparr>)"
| exit_closed: "\<lbrakk>i < length (p_workers p); p_workers p ! i = Waiting; p_closed p; p_tasks p = []\<rbrakk> \<Longrightarrow>
     pool_step p (WorkerExit i) (p\<lparr>p_workers := (p_workers p)[i := Exited]\<rparr>)"
| exit_done: "\<lbrakk>i < length (p_workers p); p_workers p ! i = Waiting; p_done p\<rbrakk> \<Longrightarrow>
     pool_step p (WorkerExit i) (p\<lparr>p_workers := (p_workers p)[i := Exited]\<rparr>)"
| grow: "\<lbrakk>p_kill p = 0; p_size p < n\<rbrakk> \<Longrightarrow> pool_step p (Grow n) (grow n p)"
| shrink: "\<lbrakk>p_kill p = 0; n < p_size p\<rbrakk> \<Longrightarrow>
     pool_step p (Shrink n) (p\<lparr>p_size := p_size p - 1, p_kill := 1\<rparr>)"
| killed: "\<lbrakk>i < length (p_workers p); p_workers p ! i = Waiting; p_kill p > 0\<rbrakk> \<Longrightarrow>
     pool_step p (Killed i)
       (p\<lparr>p_workers := (p_workers p)[i := Exited], p_kill := p_kill p - 1\<rparr>)"
| cancel: "pool_step p Cancel (p\<lparr>p_done := True\<rparr>)"
| close: "\<not> p_closed p \<Longrightarrow> pool_step p ClosePool (p\<lparr>p_closed := True\<rparr>)"
| close_closed: "p_closed p \<Longrightarrow> pool_step p ClosePool (p\<lparr>p_panic := True\<rparr>)"

inductive_simps exec_step_iff: "pool_step p (Exec t) p'"
inductive_cases pool_stepE: "pool_step p ev p'"

inductive pool_run :: "'a pool \<Rightarrow> 'a pool_event list \<Rightarrow> 'a pool \<Rightarrow> bool" where
  stop: "pool_run p [] p"
| more: "\<lbrakk>pool_run p evs q; pool_step q ev r\<rbrakk> \<Longrightarrow> pool_run p (evs @ [ev]) r"

text \<open>\<open>Wait\<close> returns when every worker is gone.\<close>

definition wait_returns :: "'a pool \<Rightarrow> bool" where
  "wait_returns p \<longleftrightarrow> (\<forall>w \<in> set (p_workers p). w = Exited)"

section \<open>Invariants\<close>

fun running :: "'a worker_state \<Rightarrow> 'a multiset" where
  "running (Running t) = {#t#}"
| "running _ = {#}"

definition all_running :: "'a worker_state list \<Rightarrow> 'a multiset" where
  "all_running ws = sum_list (List.map running ws)"

definition live :: "'a worker_state list \<Rightarrow> nat" where
  "live ws = length (filter (\<lambda>w. w \<noteq> Exited) ws)"

lemma all_running_simps [simp]:
  "all_running [] = {#}" "all_running (w # ws) = running w + all_running ws"
  "all_running (ws @ vs) = all_running ws + all_running vs"
  by (simp_all add: all_running_def)

lemma all_running_update:
  "i < length ws \<Longrightarrow> all_running (ws[i := w]) + running (ws ! i) = all_running ws + running w"
proof (induction ws arbitrary: i)
  case (Cons x ws)
  then show ?case by (cases i) (auto simp: ac_simps)
qed simp

lemma live_simps [simp]:
  "live [] = 0" "live (w # ws) = (if w = Exited then 0 else 1) + live ws"
  "live (ws @ vs) = live ws + live vs"
  by (simp_all add: live_def)

lemma live_update:
  "i < length ws \<Longrightarrow> live (ws[i := w]) + (if ws ! i = Exited then 0 else 1) =
     live ws + (if w = Exited then 0 else 1)"
proof (induction ws arbitrary: i)
  case (Cons x ws)
  then show ?case by (cases i) auto
qed simp

definition pool_inv :: "'a pool \<Rightarrow> bool" where
  "pool_inv p \<longleftrightarrow>
     length (p_tasks p) \<le> p_cap p \<and>
     p_accepted p = p_started p @ p_tasks p \<and>
     mset (p_started p) = all_running (p_workers p) + mset (p_executed p) \<and>
     p_kill p \<le> 1 \<and>
     (\<not> p_done p \<and> \<not> p_closed p \<longrightarrow> p_size p + int (p_kill p) = int (live (p_workers p))) \<and>
     (p_panic p \<longrightarrow> p_closed p)"

lemma grow_eq:
  "grow n p = p\<lparr>p_size := max n (p_size p),
     p_workers := p_workers p @ replicate (nat (n - p_size p)) Waiting\<rparr>"
proof (induction n p rule: grow.induct)
  case (1 n p)
  show ?case
  proof (cases "p_size p < n")
    case True
    then have r: "replicate (nat (n - p_size p)) (Waiting :: 'a worker_state) =
        Waiting # replicate (nat (n - (p_size p + 1))) Waiting"
      by (simp add: replicate_Suc [symmetric] del: replicate_Suc)
    from 1 [OF True] True show ?thesis
      by (subst grow.simps) (simp add: r)
  next
    case False
    then show ?thesis by (subst grow.simps) simp
  qed
qed

lemma all_running_Waiting [simp]: "all_running (replicate n Waiting) = {#}"
  by (induction n) simp_all

lemma live_Waiting [simp]: "live (replicate n Waiting) = n"
  by (induction n) simp_all

lemma NewPool_inv: "NewPool d w q = Returns p \<Longrightarrow> pool_inv p"
  by (auto simp: NewPool_def grow_eq pool_inv_def split: if_splits)

lemma pool_step_inv:
  assumes "pool_step p ev q" and "pool_inv p"
  shows "pool_inv q"
  using assms
proof (induction rule: pool_step.induct)
  case (handoff p i t)
  then show ?case
    using all_running_update [of i "p_workers p" "Running t"] live_update [of i "p_workers p" "Running t"]
    by (auto simp: pool_inv_def)
next
  case (take i p t ts)
  then show ?case
    using all_running_update [of i "p_workers p" "Running t"] live_update [of i "p_workers p" "Running t"]
    by (auto simp: pool_inv_def)
next
  case (finish i p t)
  have "all_running ((p_workers p)[i := Waiting]) + {#t#} = all_running (p_workers p)"
    using all_running_update [of i "p_workers p" Waiting] finish by simp
  with finish show ?case
    using live_update [of i "p_workers p" Waiting]
    by (auto simp: pool_inv_def)
next
  case (killed i p)
  then show ?case
    using all_running_update [of i "p_workers p" Exited] live_update [of i "p_workers p" Exited]
    by (auto simp: pool_inv_def)
next
  case (exit_closed i p)
  then show ?case using all_running_update [of i "p_workers p" Exited] by (auto simp: pool_inv_def)
next
  case (exit_done i p)
  then show ?case using all_running_update [of i "p_workers p" Exited] by (auto simp: pool_inv_def)
qed (auto simp: pool_inv_def grow_eq)

lemma pool_run_inv: "pool_run p evs q \<Longrightarrow> pool_inv p \<Longrightarrow> pool_inv q"
  by (induction rule: pool_run.induct) (auto intro: pool_step_inv)

section \<open>What the pool guarantees\<close>

text \<open>
  C10. In every reachable state of a pool, tasks start in the order they were accepted, each
  accepted task is either executed, running or waiting in the buffer and none is lost or
  doubled, the buffer stays within its capacity, and a send panics only on a closed pool.
\<close>

theorem pool_conserves_tasks:
  assumes "NewPool d workers queueCount = Returns p0" and "pool_run p0 evs p"
  shows "length (p_tasks p) \<le> p_cap p \<and> p_accepted p = p_started p @ p_tasks p \<and>
    mset (p_accepted p) = mset (p_executed p) + all_running (p_workers p) + mset (p_tasks p) \<and>
    (p_panic p \<longrightarrow> p_closed p)"
  using pool_run_inv [OF assms(2) NewPool_inv [OF assms(1)]] by (auto simp: pool_inv_def)

lemma pool_run_single: "pool_step p ev q \<Longrightarrow> pool_run p [ev] q"
  using pool_run.more [OF pool_run.stop, of p ev q] by simp

lemma pool_run_trans: "pool_run q fs r \<Longrightarrow> pool_run p evs q \<Longrightarrow> pool_run p (evs @ fs) r"
proof (induction rule: pool_run.induct)
  case (more q fs r ev s)
  then show ?case using pool_run.more [of p "evs @ fs" r ev s] by simp
qed simp

theorem pool_conserves_tasks_witness:
  "\<exists>p0 p. NewPool False 1 1 = Returns p0 \<and> pool_run p0 [Exec (7 :: nat)] p \<and>
     mset (p_accepted p) = mset (p_executed p) + all_running (p_workers p) + mset (p_tasks p)"
proof -
  obtain p0 :: "nat pool" where n: "NewPool False 1 1 = Returns p0" by (simp add: NewPool_def)
  then have "\<not> p_closed p0" "length (p_tasks p0) < p_cap p0" by (auto simp: NewPool_def grow_eq)
  from pool_run_single [OF pool_step.exec [OF this, of 7]] pool_conserves_tasks [OF n]
  show ?thesis using n by blast
qed

text \<open>
  Every accepted task can still be executed while one worker is left: receiving and finishing
  are always possible, and a measure bounds how many of these steps are outstanding.
\<close>

definition outstanding :: "'a pool \<Rightarrow> nat" where
  "outstanding p = 2 * length (p_tasks p) + size (all_running (p_workers p))"

lemma all_running_empty: "all_running ws = {#} \<longleftrightarrow> (\<forall>w \<in> set ws. running w = {#})"
  by (induction ws) auto

lemma pool_progress:
  assumes "outstanding p > 0" and "\<exists>w \<in> set (p_workers p). w \<noteq> Exited"
  shows "\<exists>ev q. pool_step p ev q \<and> outstanding q < outstanding p \<and>
    (\<exists>w \<in> set (p_workers q). w \<noteq> Exited) \<and> p_accepted q = p_accepted p"
proof (cases "all_running (p_workers p) = {#}")
  case False
  then obtain w where w: "w \<in> set (p_workers p)" "running w \<noteq> {#}"
    by (auto simp: all_running_empty)
  from w(2) obtain t where "w = Running t" by (cases w) simp_all
  with w(1) obtain i where i: "i < length (p_workers p)" "p_workers p ! i = Running t"
    by (auto simp: in_set_conv_nth)
  have "all_running ((p_workers p)[i := Waiting]) + {#t#} = all_running (p_workers p)"
    using all_running_update [of i "p_workers p" Waiting] i by simp
  then have "size (all_running (p_workers p)) = Suc (size (all_running ((p_workers p)[i := Waiting])))"
    by (metis add_mset_add_single size_add_mset)
  moreover have "Waiting \<in> set ((p_workers p)[i := Waiting])" using i(1) by (rule set_update_memI)
  ultimately show ?thesis
    using pool_step.finish [OF i] by (fastforce simp: outstanding_def)
next
  case True
  with assms(1) obtain t ts where t: "p_tasks p = t # ts"
    by (cases "p_tasks p") (auto simp: outstanding_def)
  from assms(2) True obtain i where i: "i < length (p_workers p)" "p_workers p ! i = Waiting"
    by (auto simp: all_running_empty in_set_conv_nth)
       (metis add_mset_not_empty nth_mem running.simps(1) worker_state.exhaust)
  have "all_running ((p_workers p)[i := Running t]) = {#t#}"
    using all_running_update [of i "p_workers p" "Running t"] i True by simp
  moreover have "Running t \<in> set ((p_workers p)[i := Running t])" using i(1) by (rule set_update_memI)
  ultimately show ?thesis
    using pool_step.take [OF i t] t True by (fastforce simp: outstanding_def)
qed

lemma outstanding_0:
  "pool_inv p \<Longrightarrow> outstanding p = 0 \<Longrightarrow> p_tasks p = [] \<and> mset (p_executed p) = mset (p_accepted p)"
  by (simp add: outstanding_def pool_inv_def)

lemma pool_drain:
  assumes "pool_inv p" and "\<exists>w \<in> set (p_workers p). w \<noteq> Exited"
  shows "\<exists>fs q. pool_run p fs q \<and> p_tasks q = [] \<and> p_accepted q = p_accepted p \<and>
    mset (p_executed q) = mset (p_accepted q)"
  using assms
proof (induction "outstanding p" arbitrary: p rule: less_induct)
  case less
  show ?case
  proof (cases "outstanding p = 0")
    case True
    with less.prems outstanding_0 [of p] pool_run.stop [of p] show ?thesis by blast
  next
    case False
    then obtain ev r where r: "pool_step p ev r" "outstanding r < outstanding p"
      "\<exists>w \<in> set (p_workers r). w \<noteq> Exited" "p_accepted r = p_accepted p"
      using pool_progress [of p] less.prems by blast
    from less.hyps [OF r(2) pool_step_inv [OF r(1) less.prems(1)] r(3)] obtain fs q where
      "pool_run r fs q" "p_tasks q = []" "p_accepted q = p_accepted r" "mset (p_executed q) = mset (p_accepted q)"
      by blast
    with pool_run_trans [OF _ pool_run_single [OF r(1)]] r(4) show ?thesis by metis
  qed
qed

text \<open>
  From every reachable state with a worker left, the pool can go on to execute every task it
  accepted, without accepting another.
\<close>

theorem pool_can_finish:
  assumes "NewPool d workers queueCount = Returns p0" and "pool_run p0 evs p"
    and "\<exists>w \<in> set (p_workers p). w \<noteq> Exited"
  shows "\<exists>fs q. pool_run p fs q \<and> p_tasks q = [] \<and> p_accepted q = p_accepted p \<and>
    mset (p_executed q) = mset (p_accepted q)"
  using pool_drain [OF pool_run_inv [OF assms(2) NewPool_inv [OF assms(1)]] assms(3)] .

theorem pool_can_finish_witness:
  "\<exists>p0 p fs q. NewPool False 1 1 = Returns p0 \<and> pool_run p0 [Exec (7 :: nat)] p \<and>
     pool_run p fs q \<and> p_executed q = [7]"
proof -
  obtain p0 :: "nat pool" where n: "NewPool False 1 1 = Returns p0" by (simp add: NewPool_def)
  then have p0: "\<not> p_closed p0" "length (p_tasks p0) < p_cap p0" "p_accepted p0 = []"
    "p_workers p0 = [Waiting]" by (auto simp: NewPool_def grow_eq)
  let ?p = "p0\<lparr>p_tasks := p_tasks p0 @ [7], p_accepted := p_accepted p0 @ [7]\<rparr>"
  have r: "pool_run p0 [Exec 7] ?p" by (rule pool_run_single [OF pool_step.exec [OF p0(1,2)]])
  have "\<exists>w \<in> set (p_workers ?p). w \<noteq> Exited" by (simp add: p0)
  from pool_can_finish [OF n r this] obtain fs q where
    q: "pool_run ?p fs q" "p_accepted q = p_accepted ?p" "mset (p_executed q) = mset (p_accepted q)" by blast
  have "mset (p_executed q) = {#7#}" using q(2,3) p0(3) by simp
  then have "p_executed q = [7]" by (metis mset_single_iff_right)
  with n r q show ?thesis by blast
qed

text \<open>
  After the context is cancelled the workers leave and tasks in the buffer stay there. A full
  buffer then blocks \<open>Exec\<close> for good: short of a \<open>Resize\<close> nothing receives from it any more.
\<close>

definition abandoned :: "'a pool \<Rightarrow> bool" where
  "abandoned p \<longleftrightarrow> wait_returns p \<and> \<not> p_closed p \<and> length (p_tasks p) = p_cap p"

lemma abandoned_step:
  assumes "pool_step p ev q" and "abandoned p" and "\<forall>n. ev \<noteq> Grow n" and "ev \<noteq> ClosePool"
  shows "abandoned q"
  using assms
  by (induction rule: pool_step.induct) (auto simp: abandoned_def wait_returns_def, (metis nth_mem worker_state.distinct)+)

lemma abandoned_run:
  "pool_run p evs q \<Longrightarrow> abandoned p \<Longrightarrow> \<forall>ev \<in> set evs. ev \<noteq> ClosePool \<and> (\<forall>n. ev \<noteq> Grow n) \<Longrightarrow> abandoned q"
  by (induction rule: pool_run.induct) (auto intro: abandoned_step)

text \<open>
  Once every worker of a pool has exited and the buffer is full, no task is accepted any more
  unless the pool is closed or grown.
\<close>

theorem pool_exec_blocks_forever:
  assumes "abandoned p" and "pool_run p evs q"
    and "\<forall>ev \<in> set evs. ev \<noteq> ClosePool \<and> (\<forall>n. ev \<noteq> Grow n)"
  shows "\<not> (\<exists>t r. pool_step q (Exec t) r) \<and> \<not> (\<exists>t i r. pool_step q (Handoff t i) r)"
proof -
  from abandoned_run [OF assms(2,1,3)] have a: "abandoned q" .
  then have "\<not> pool_step q (Handoff t i) r" for t i r
    by (auto elim!: pool_stepE simp: abandoned_def wait_returns_def) (metis nth_mem worker_state.distinct(3))
  with a show ?thesis by (auto simp: exec_step_iff abandoned_def)
qed

theorem pool_exec_blocks_forever_witness:
  "\<exists>p0 q. NewPool False 1 1 = Returns p0 \<and> pool_run p0 [Exec (7 :: nat), Cancel, WorkerExit 0] q \<and>
     \<not> (\<exists>t r. pool_step q (Exec t) r)"
proof -
  obtain p0 :: "nat pool" where n: "NewPool False 1 1 = Returns p0" by (simp add: NewPool_def)
  then have p0: "\<not> p_closed p0" "length (p_tasks p0) = 0" "p_cap p0 = 1" "p_workers p0 = [Waiting]"
    by (auto simp: NewPool_def grow_eq)
  let ?p1 = "p0\<lparr>p_tasks := p_tasks p0 @ [7], p_accepted := p_accepted p0 @ [7]\<rparr>"
  let ?p2 = "?p1\<lparr>p_done := True\<rparr>"
  let ?q = "?p2\<lparr>p_workers := (p_workers ?p2)[0 := Exited]\<rparr>"
  have s: "pool_step p0 (Exec 7) ?p1" by (rule pool_step.exec) (simp_all add: p0)
  have c: "pool_step ?p1 Cancel ?p2" by (rule pool_step.cancel)
  have w: "pool_step ?p2 (WorkerExit 0) ?q" by (rule pool_step.exit_done) (simp_all add: p0)
  have "pool_run p0 (([Exec 7] @ [Cancel]) @ [WorkerExit 0]) ?q"
    using pool_run.more [OF pool_run.more [OF pool_run_single [OF s] c] w] .
  moreover have a: "abandoned ?q" using p0 by (simp add: abandoned_def wait_returns_def)
  ultimately show ?thesis using n pool_exec_blocks_forever [OF a pool_run.stop] by auto
qed

section \<open>How many tasks an idle pool takes\<close>

text \<open>The steps of handing tasks over, in which no task finishes and the pool is left as it is.\<close>

fun accepting :: "'a pool_event \<Rightarrow> bool" where
  "accepting (Exec t) = True"
| "accepting (Handoff t i) = True"
| "accepting (Take i) = True"
| "accepting _ = False"

definition takes :: "'a pool \<Rightarrow> 'a list \<Rightarrow> bool" where
  "takes p ts \<longleftrightarrow> (\<exists>evs q. pool_run p evs q \<and> list_all accepting evs \<and> p_accepted q = p_accepted p @ ts)"

lemma accepting_step:
  "\<lbrakk>pool_step p ev q; accepting ev\<rbrakk> \<Longrightarrow>
   p_executed q = p_executed p \<and> length (p_workers q) = length (p_workers p) \<and> p_cap q = p_cap p"
  by (induction rule: pool_step.induct) simp_all

lemma accepting_run:
  "\<lbrakk>pool_run p evs q; list_all accepting evs\<rbrakk> \<Longrightarrow>
   p_executed q = p_executed p \<and> length (p_workers q) = length (p_workers p) \<and> p_cap q = p_cap p"
  by (induction rule: pool_run.induct) (auto dest: accepting_step)

lemma size_running: "size (all_running ws) \<le> length ws"
proof (induction ws)
  case (Cons w ws)
  then show ?case by (cases w) simp_all
qed simp

lemma size_all_Running:
  "(\<forall>w \<in> set ws. w \<noteq> Waiting \<and> w \<noteq> Exited) \<Longrightarrow> size (all_running ws) = length ws"
proof (induction ws)
  case (Cons w ws)
  then show ?case by (cases w) simp_all
qed simp

lemma takes_bound:
  assumes "pool_inv p" "p_executed p = []" "takes p ts"
  shows "length (p_accepted p @ ts) \<le> length (p_workers p) + p_cap p"
proof -
  from assms(3) obtain evs q where q: "pool_run p evs q" "list_all accepting evs" "p_accepted q = p_accepted p @ ts"
    by (auto simp: takes_def)
  from accepting_run [OF q(1,2)] assms(2) have e: "p_executed q = []" "length (p_workers q) = length (p_workers p)"
    "p_cap q = p_cap p" by simp_all
  from pool_run_inv [OF q(1) assms(1)] have i: "length (p_tasks q) \<le> p_cap q"
    "p_accepted q = p_started q @ p_tasks q" "mset (p_started q) = all_running (p_workers q)"
    using e(1) by (simp_all add: pool_inv_def)
  have "length (p_started q) = size (all_running (p_workers q))" using arg_cong [OF i(3), of size] by simp
  with size_running [of "p_workers q"] i(1,2) e q(3) show ?thesis by (metis add_mono length_append)
qed

text \<open>
  Handing over keeps the workers busy first: the buffer is used only when none is waiting.
\<close>

definition handing :: "'a pool \<Rightarrow> bool" where
  "handing p \<longleftrightarrow> pool_inv p \<and> \<not> p_closed p \<and> p_executed p = [] \<and> Exited \<notin> set (p_workers p) \<and>
     (Waiting \<in> set (p_workers p) \<longrightarrow> p_tasks p = [])"

lemma take_one:
  assumes "handing p" and "length (p_accepted p) < length (p_workers p) + p_cap p"
  shows "\<exists>evs q. pool_run p evs q \<and> list_all accepting evs \<and> p_accepted q = p_accepted p @ [t] \<and> handing q"
proof (cases "Waiting \<in> set (p_workers p)")
  case True
  then obtain i where i: "i < length (p_workers p)" "p_workers p ! i = Waiting" by (auto simp: in_set_conv_nth)
  have e: "p_tasks p = []" "\<not> p_closed p" using assms(1) True by (simp_all add: handing_def)
  let ?q = "p\<lparr>p_tasks := [], p_workers := (p_workers p)[i := Running t], p_accepted := p_accepted p @ [t],
      p_started := p_started p @ [t]\<rparr>"
  have "\<exists>evs. pool_run p evs ?q \<and> list_all accepting evs"
  proof (cases "p_cap p = 0")
    case True
    have same: "p\<lparr>p_tasks := []\<rparr> = p" using e(1) by (cases p) simp
    have "pool_step p (Handoff t i) ?q" using pool_step.handoff [OF e(2) True i, of t] by (simp add: same)
    from pool_run_single [OF this] show ?thesis by (intro exI [of _ "[Handoff t i]"]) simp
  next
    case False
    let ?p = "p\<lparr>p_tasks := p_tasks p @ [t], p_accepted := p_accepted p @ [t]\<rparr>"
    have a: "pool_step p (Exec t) ?p" by (rule pool_step.exec) (use e False in simp_all)
    have eq: "?p\<lparr>p_workers := (p_workers ?p)[i := Running t], p_tasks := [], p_started := p_started ?p @ [t]\<rparr> = ?q"
      by simp
    have "pool_step ?p (Take i) ?q"
      unfolding eq [symmetric] by (rule pool_step.take) (simp_all add: i e(1))
    with pool_run.more [OF pool_run_single [OF a]] have "pool_run p ([Exec t] @ [Take i]) ?q" by blast
    then show ?thesis by (intro exI [of _ "[Exec t] @ [Take i]"]) simp
  qed
  then obtain evs where r: "pool_run p evs ?q" "list_all accepting evs" by blast
  have "pool_inv ?q" using pool_run_inv [OF r(1)] assms(1) by (simp add: handing_def)
  moreover have "Exited \<notin> set ((p_workers p)[i := Running t])"
    using assms(1) set_update_subset_insert [of "p_workers p" i "Running t"] by (auto simp: handing_def)
  ultimately have "handing ?q" using assms(1) by (simp add: handing_def)
  with r show ?thesis by (intro exI [of _ evs] exI [of _ ?q]) simp
next
  case False
  with assms(1) have h: "pool_inv p" "\<not> p_closed p" "p_executed p = []"
    "\<forall>w \<in> set (p_workers p). w \<noteq> Waiting \<and> w \<noteq> Exited" by (auto simp: handing_def)
  have "length (p_started p) = length (p_workers p)"
    using h(1,3) size_all_Running [OF h(4)] by (metis add.right_neutral mset.simps(1) pool_inv_def size_mset)
  with h(1) assms(2) have l: "length (p_tasks p) < p_cap p" by (simp add: pool_inv_def)
  let ?q = "p\<lparr>p_tasks := p_tasks p @ [t], p_accepted := p_accepted p @ [t]\<rparr>"
  have s: "pool_step p (Exec t) ?q" by (rule pool_step.exec [OF h(2) l])
  have "handing ?q" using pool_step_inv [OF s h(1)] False assms(1) by (simp add: handing_def)
  with pool_run_single [OF s] show ?thesis by (intro exI [of _ "[Exec t]"] exI [of _ ?q]) simp
qed

lemma takes_all:
  "\<lbrakk>handing p; length (p_accepted p @ ts) \<le> length (p_workers p) + p_cap p\<rbrakk> \<Longrightarrow> takes p ts"
proof (induction ts arbitrary: p)
  case Nil
  show ?case unfolding takes_def by (intro exI [of _ "[]"] exI [of _ p]) (simp add: pool_run.stop)
next
  case (Cons t ts)
  then have "length (p_accepted p) < length (p_workers p) + p_cap p" by simp
  from take_one [OF Cons.prems(1) this, of t] obtain evs q where q: "pool_run p evs q" "list_all accepting evs"
    "p_accepted q = p_accepted p @ [t]" "handing q" by blast
  from accepting_run [OF q(1,2)] Cons.prems(2) q(3)
  have "length (p_accepted q @ ts) \<le> length (p_workers q) + p_cap q" by simp
  from Cons.IH [OF q(4) this] obtain fs r where "pool_run q fs r" "list_all accepting fs"
    "p_accepted r = p_accepted q @ ts" by (auto simp: takes_def)
  with pool_run_trans [OF _ q(1), of fs r] q(2,3) show ?case
    unfolding takes_def by (intro exI [of _ "evs @ fs"] exI [of _ r]) simp
qed

lemma new_pool_takes:
  assumes "NewPool False workers queueCount = Returns p" and "0 \<le> workers"
  shows "takes p ts \<longleftrightarrow> int (length ts) \<le> workers + queueCount"
proof -
  have p: "0 \<le> queueCount" "p_accepted p = []" "p_executed p = []" "p_tasks p = []" "\<not> p_closed p"
    "p_workers p = replicate (nat workers) Waiting" "p_cap p = nat queueCount"
    using assms(1) by (auto simp: NewPool_def grow_eq split: if_splits)
  have i: "pool_inv p" by (rule NewPool_inv [OF assms(1)])
  have "handing p" using i by (simp add: handing_def p)
  with takes_all [of p ts] takes_bound [OF i p(3), of ts] show ?thesis
    using assms(2) p(1) by (auto simp: p(2,6,7))
qed

end
