(* ===== verification/App.thy ===== *)
theory App
  imports Webrtc_Api Handler Consul Worker_Pool
begin

text \<open>
  \<^verbatim>\<open>cmd/resources.go\<close>, \<^verbatim>\<open>cmd/wire_gen.go\<close>, \<^verbatim>\<open>cmd/service.go\<close> and the constructor of
  \<^verbatim>\<open>infra/sql/pgsql/client.go\<close>: how the program is put together and taken down. The answers of
  the network, the database driver, \<open>grpc\<close> and Consul's client are the record \<open>app_env\<close>.
\<close>

section \<open>Resources and their clean-ups\<close>

record 'e app_env =
  ae_ParseConfig :: "string \<Rightarrow> go_error option"
  ae_NewPool :: "string \<Rightarrow> nat res"
  ae_conns :: "string \<rightharpoonup> nat"
  ae_grpc_NewClient :: "string \<Rightarrow> nat res"
  ae_Listen :: "string \<Rightarrow> string res"
  ae_SplitHostPort :: "string \<Rightarrow> (string \<times> string) res"
  ae_Interfaces :: "ip option list res list res"
  ae_proxy_host :: "string option"
  ae_consul_client :: "go_error option"
  ae_agent :: agent
  ae_pion :: "'e pion"

record logger =
  lg_console :: "string option"
  lg_file :: "(string \<times> string) option"

definition new_log :: "AppConfig \<Rightarrow> logger" where
  "new_log cfg =
     (let s = Log cfg;
          console = (if \<not> Console s \<and> \<not> Otel s \<and> length (LogFile s) = 0 then True else Console s)
      in \<lparr>lg_console = (if console then Some (Lvl s) else None),
          lg_file = (if LogFile s \<noteq> [] then Some (LogFile s, Lvl s) else None)\<rparr>)"

text \<open>
  \<open>nil\<close> resources before they are made; \<open>rs_conns\<close> is the process-wide map of connections.
\<close>

record 'e resources =
  rs_log :: "logger option"
  rs_grpcSrv :: "Server option"
  rs_cluster :: "Cluster option"
  rs_store :: "nat option"
  rs_webrtc :: "'e rtc_api option"
  rs_auth :: "authManager option"
  rs_cfg :: AppConfig
  rs_storage :: "Storage option"
  rs_conns :: "string \<rightharpoonup> nat"

definition nil_resources :: "'e app_env \<Rightarrow> AppConfig \<Rightarrow> 'e resources" where
  "nil_resources env cfg =
     \<lparr>rs_log = None, rs_grpcSrv = None, rs_cluster = None, rs_store = None, rs_webrtc = None,
      rs_auth = None, rs_cfg = cfg, rs_storage = None, rs_conns = ae_conns env\<rparr>"

text \<open>The function a provider returns with its resource, as the resource it closes over.\<close>

datatype cleanup_fun =
    LogExit logger | CloseSQL nat | StopAuth authManager | ShutdownGrpc Server
  | StopCluster Cluster | WebrtcExit | StopStorage Storage

fun run_cleanup :: "cleanup_fun \<Rightarrow> unit outcome" where
  "run_cleanup (LogExit l) = Returns ()"
| "run_cleanup (CloseSQL p) = Returns ()"
| "run_cleanup (StopAuth am) = (case Manager_Stop am of Panics m \<Rightarrow> Panics m | Returns _ \<Rightarrow> Returns ())"
| "run_cleanup (ShutdownGrpc s) = Returns ()"
| "run_cleanup (StopCluster c) = (case Cluster_Stop c of Panics m \<Rightarrow> Panics m | Returns _ \<Rightarrow> Returns ())"
| "run_cleanup WebrtcExit = Returns ()"
| "run_cleanup (StopStorage s) = (case Storage_Stop s of Panics m \<Rightarrow> Panics m | Returns _ \<Rightarrow> Returns ())"

fun run_cleanups :: "cleanup_fun list \<Rightarrow> unit outcome" where
  "run_cleanups [] = Returns ()"
| "run_cleanups (c # cs) = (case run_cleanup c of Panics m \<Rightarrow> Panics m | Returns _ \<Rightarrow> run_cleanups cs)"

section \<open>The providers\<close>

definition pgsql_New :: "'e app_env \<Rightarrow> string \<Rightarrow> nat res" where
  "pgsql_New env dsn =
     (case ae_ParseConfig env dsn of Some e \<Rightarrow> Inl e | None \<Rightarrow> ae_NewPool env dsn)"

definition setupSQL :: "'e app_env \<Rightarrow> AppConfig \<Rightarrow> (nat \<times> cleanup_fun) res" where
  "setupSQL env cfg = and_then (pgsql_New env (DSN cfg)) (\<lambda>s. Inr (s, CloseSQL s))"

definition authServiceName :: string where "authServiceName = ''go.webitel.app''"
definition storageServiceName :: string where "storageServiceName = ''storage''"

text \<open>The second client is asked for only when the first was made; both share a connection.\<close>

definition authManager_provider ::
  "'e app_env \<Rightarrow> AppConfig \<Rightarrow> (string \<rightharpoonup> nat) \<Rightarrow> (authManager \<times> cleanup_fun) res \<times> (string \<rightharpoonup> nat)" where
  "authManager_provider env cfg conns =
     (case NewClient (ae_grpc_NewClient env) (sv_Consul (Service cfg)) authServiceName conns of
        (a, conns1) \<Rightarrow>
          (case (if is_ok a then NewClient (ae_grpc_NewClient env) (sv_Consul (Service cfg)) authServiceName conns1
                 else (a, conns1)) of
             (c, conns2) \<Rightarrow>
               (case Manager_Start a c NewAuthManager of
                  (Some e, am) \<Rightarrow> (Inl e, conns2)
                | (None, am) \<Rightarrow> (Inr (am, StopAuth am), conns2))))"

definition grpcSrv_provider :: "'e app_env \<Rightarrow> AppConfig \<Rightarrow> (Server \<times> cleanup_fun) res" where
  "grpcSrv_provider env cfg =
     and_then (Server_New (ae_Listen env (sv_Address (Service cfg))) (ae_SplitHostPort env)
         (ae_Interfaces env) (sv_Address (Service cfg)))
       (\<lambda>s. Inr (s, ShutdownGrpc s))"

text \<open>\<open>None\<close>: the registration with Consul does not return.\<close>

definition setupCluster :: "'e app_env \<Rightarrow> AppConfig \<Rightarrow> Server \<Rightarrow> (Cluster \<times> cleanup_fun) res option" where
  "setupCluster env cfg srv =
     map_option (\<lambda>(e, c). case e of Some err \<Rightarrow> Inl err | None \<Rightarrow> Inr (c, StopCluster c))
       (Cluster_Start (ae_agent env) (ae_consul_client env) (sv_ID (Service cfg))
          (Server_Host (ae_proxy_host env) srv) (Server_Port srv) (NewCluster ServiceName))"

definition storageClient ::
  "'e app_env \<Rightarrow> AppConfig \<Rightarrow> (string \<rightharpoonup> nat) \<Rightarrow> (Storage \<times> cleanup_fun) res \<times> (string \<rightharpoonup> nat)" where
  "storageClient env cfg conns =
     (case NewClient (ae_grpc_NewClient env) (sv_Consul (Service cfg)) storageServiceName conns of
        (r, conns1) \<Rightarrow>
          (case Storage_Start r Storage_New of
             (Some e, s) \<Rightarrow> (Inl e, conns1)
           | (None, s) \<Rightarrow> (Inr (s, StopStorage s), conns1)))"

section \<open>initAppResources\<close>

text \<open>
  The start-up hangs, dies in a panic, fails with an error after it has called the clean-ups
  listed, in that order, or is ready, with the clean-ups its shutdown function calls.
\<close>

datatype 'a started =
    Hangs | Died string | Failed go_error "cleanup_fun list" | Ready 'a "cleanup_fun list"

definition initAppResources :: "'e app_env \<Rightarrow> AppConfig \<Rightarrow> 'e resources started" where
  "initAppResources env cfg =
     (let logger = new_log cfg; cleanup = LogExit logger in
      case setupSQL env cfg of
        Inl err \<Rightarrow> Failed err [cleanup]
      | Inr (store, cleanup2) \<Rightarrow>
     (case authManager_provider env cfg (ae_conns env) of
        (Inl err, _) \<Rightarrow> Failed err [cleanup2, cleanup]
      | (Inr (manager, cleanup3), conns) \<Rightarrow>
     (case grpcSrv_provider env cfg of
        Inl err \<Rightarrow> Failed err [cleanup3, cleanup2, cleanup]
      | Inr (server, cleanup4) \<Rightarrow>
     (case setupCluster env cfg server of
        None \<Rightarrow> Hangs
      | Some (Inl err) \<Rightarrow> Failed err [cleanup4, cleanup3, cleanup2, cleanup]
      | Some (Inr (cluster, cleanup5)) \<Rightarrow>
     (case webrtcAPI (ae_pion env) cfg of
        Panics m \<Rightarrow> Died m
      | Returns (Inl err) \<Rightarrow> Failed err [cleanup5, cleanup4, cleanup3, cleanup2, cleanup]
      | Returns (Inr api) \<Rightarrow>
     (case storageClient env cfg conns of
        (Inl err, _) \<Rightarrow> Failed err [WebrtcExit, cleanup5, cleanup4, cleanup3, cleanup2, cleanup]
      | (Inr (storage, cleanup7), conns') \<Rightarrow>
          Ready \<lparr>rs_log = Some logger, rs_grpcSrv = Some server, rs_cluster = Some cluster,
              rs_store = Some store, rs_webrtc = Some api, rs_auth = Some manager, rs_cfg = cfg,
              rs_storage = Some storage, rs_conns = conns'\<rparr>
            [cleanup7, WebrtcExit, cleanup5, cleanup4, cleanup3, cleanup2, cleanup]))))))"

section \<open>The reference: a stack of clean-ups\<close>

text \<open>
  A step makes one resource and gives its clean-up; the runner pushes it, and pops the stack
  when a step fails. This is what the generated code unrolls.
\<close>

fun run_steps :: "('s \<Rightarrow> ('s \<times> cleanup_fun) res outcome option) list \<Rightarrow> 's \<Rightarrow> cleanup_fun list \<Rightarrow> 's started" where
  "run_steps [] s stack = Ready s stack"
| "run_steps (f # fs) s stack =
     (case f s of
        None \<Rightarrow> Hangs
      | Some (Panics m) \<Rightarrow> Died m
      | Some (Returns (Inl e)) \<Rightarrow> Failed e stack
      | Some (Returns (Inr (s', c))) \<Rightarrow> run_steps fs s' (c # stack))"

definition done_with :: "('a \<times> cleanup_fun) res \<Rightarrow> ('a \<Rightarrow> 's) \<Rightarrow> ('s \<times> cleanup_fun) res outcome option" where
  "done_with r put = Some (Returns (and_then r (\<lambda>(x, c). Inr (put x, c))))"

definition resource_steps ::
  "'e app_env \<Rightarrow> AppConfig \<Rightarrow> ('e resources \<Rightarrow> ('e resources \<times> cleanup_fun) res outcome option) list" where
  "resource_steps env cfg =
     [\<lambda>s. done_with (Inr (new_log cfg, LogExit (new_log cfg))) (\<lambda>l. s\<lparr>rs_log := Some l\<rparr>),
      \<lambda>s. done_with (setupSQL env cfg) (\<lambda>p. s\<lparr>rs_store := Some p\<rparr>),
      \<lambda>s. (case authManager_provider env cfg (rs_conns s) of (r, conns) \<Rightarrow>
             done_with r (\<lambda>a. s\<lparr>rs_auth := Some a, rs_conns := conns\<rparr>)),
      \<lambda>s. done_with (grpcSrv_provider env cfg) (\<lambda>g. s\<lparr>rs_grpcSrv := Some g\<rparr>),
      \<lambda>s. (case setupCluster env cfg (the (rs_grpcSrv s)) of
             None \<Rightarrow> None
           | Some r \<Rightarrow> done_with r (\<lambda>c. s\<lparr>rs_cluster := Some c\<rparr>)),
      \<lambda>s. (case webrtcAPI (ae_pion env) cfg of
             Panics m \<Rightarrow> Some (Panics m)
           | Returns r \<Rightarrow> done_with (and_then r (\<lambda>a. Inr (a, WebrtcExit))) (\<lambda>a. s\<lparr>rs_webrtc := Some a\<rparr>)),
      \<lambda>s. (case storageClient env cfg (rs_conns s) of (r, conns) \<Rightarrow>
             done_with r (\<lambda>a. s\<lparr>rs_storage := Some a, rs_conns := conns\<rparr>))]"

lemma startup_stack:
  "initAppResources env cfg = run_steps (resource_steps env cfg) (nil_resources env cfg) []"
proof -
  note steps = initAppResources_def resource_steps_def nil_resources_def Let_def done_with_def
  obtain ra conns where A: "authManager_provider env cfg (ae_conns env) = (ra, conns)" by fastforce
  obtain rs conns' where S: "storageClient env cfg conns = (rs, conns')" by fastforce
  show ?thesis
  proof (cases "setupSQL env cfg")
    case (Inr p)
    note sql = this
    show ?thesis
    proof (cases ra)
      case (Inr a)
      note auth = this
      show ?thesis
      proof (cases "grpcSrv_provider env cfg")
        case (Inr g)
        note grpc = this
        show ?thesis
        proof (cases "setupCluster env cfg (fst g)")
          case (Some rc)
          note cluster = this
          show ?thesis
          proof (cases rc)
            case (Inr c)
            show ?thesis
              by (cases p; cases a; cases g; cases c; cases "webrtcAPI (ae_pion env) cfg")
                 (use A S sql auth grpc cluster Inr in \<open>auto simp: steps split: sum.split\<close>)
          qed (use A sql auth grpc cluster in \<open>cases p; cases a; cases g; simp add: steps\<close>)
        qed (use A sql auth grpc in \<open>cases p; cases a; cases g; simp add: steps\<close>)
      qed (use A sql auth in \<open>cases p; cases a; simp add: steps\<close>)
    qed (use A sql in \<open>cases p; simp add: steps\<close>)
  qed (simp add: steps)
qed

text \<open>
  The start-up code that Wire unrolled, with its lists of clean-ups per failure, is the
  generic runner that makes one resource after the other, pushes its clean-up on a stack, and
  pops the whole stack at the first error.
\<close>

theorem startup_unwinds_stack:
  "initAppResources env cfg = run_steps (resource_steps env cfg) (nil_resources env cfg) []"
  by (rule startup_stack)

section \<open>The clean-ups\<close>

text \<open>The place of a clean-up's resource in the order of construction.\<close>

fun cleanup_no :: "cleanup_fun \<Rightarrow> nat" where
  "cleanup_no (LogExit _) = 0"
| "cleanup_no (CloseSQL _) = 1"
| "cleanup_no (StopAuth _) = 2"
| "cleanup_no (ShutdownGrpc _) = 3"
| "cleanup_no (StopCluster _) = 4"
| "cleanup_no WebrtcExit = 5"
| "cleanup_no (StopStorage _) = 6"

definition stack_ok :: "nat \<Rightarrow> cleanup_fun list \<Rightarrow> bool" where
  "stack_ok k cs \<longleftrightarrow> List.map cleanup_no cs = rev [0..<k] \<and> run_cleanups cs = Returns ()"

lemma stack_ok_Cons: "stack_ok k cs \<Longrightarrow> cleanup_no c = k \<Longrightarrow> run_cleanup c = Returns () \<Longrightarrow> stack_ok (Suc k) (c # cs)"
  by (simp add: stack_ok_def)

lemma run_steps_stack:
  assumes "\<And>k s s' c. k < length fs \<Longrightarrow> (fs ! k) s = Some (Returns (Inr (s', c))) \<Longrightarrow>
      cleanup_no c = n + k \<and> run_cleanup c = Returns ()"
    and "stack_ok n stack"
  shows "case run_steps fs s stack of
      Failed e cs \<Rightarrow> \<exists>k < n + length fs. stack_ok k cs
    | Ready r cs \<Rightarrow> stack_ok (n + length fs) cs
    | _ \<Rightarrow> True"
  using assms
proof (induction fs arbitrary: n s stack)
  case (Cons f fs)
  show ?case
  proof (cases "f s")
    case (Some o1)
    show ?thesis
    proof (cases o1)
      case (Returns r)
      show ?thesis
      proof (cases r)
        case (Inl e)
        with Some Returns Cons.prems(2) show ?thesis by (auto intro: exI [of _ n])
      next
        case (Inr p)
        obtain s' c where p: "p = (s', c)" by fastforce
        with Some Returns Inr Cons.prems(1) [of 0 s s' c] have c: "cleanup_no c = n" "run_cleanup c = Returns ()"
          by simp_all
        have "cleanup_no c' = Suc n + k \<and> run_cleanup c' = Returns ()"
          if "k < length fs" "(fs ! k) t = Some (Returns (Inr (t', c')))" for k t t' c'
          using Cons.prems(1) [of "Suc k" t t' c'] that by simp
        with Cons.IH [of "Suc n" "c # stack" s', OF _ stack_ok_Cons [OF Cons.prems(2) c]]
        have "case run_steps fs s' (c # stack) of
            Failed e cs \<Rightarrow> \<exists>k < Suc n + length fs. stack_ok k cs
          | Ready r cs \<Rightarrow> stack_ok (Suc n + length fs) cs | _ \<Rightarrow> True" by blast
        then show ?thesis by (simp add: Some Returns Inr p split: started.splits)
      qed
    qed (simp add: Some)
  qed simp
qed simp

lemma auth_cleanup:
  "authManager_provider env cfg conns = (Inr (am, c), conns') \<Longrightarrow> cleanup_no c = 2 \<and> run_cleanup c = Returns ()"
  by (auto simp: authManager_provider_def Manager_Start_def NewAuthManager_def Manager_Stop_def
      split: prod.splits sum.splits option.splits if_splits)

lemma storage_cleanup:
  "storageClient env cfg conns = (Inr (st, c), conns') \<Longrightarrow> cleanup_no c = 6 \<and> run_cleanup c = Returns ()"
  by (auto simp: storageClient_def Storage_Start_def Storage_New_def Storage_Stop_def
      split: prod.splits sum.splits option.splits)

lemma cluster_cleanup:
  "setupCluster env cfg srv = Some (Inr (cl, c)) \<Longrightarrow> cleanup_no c = 4 \<and> run_cleanup c = Returns ()"
  by (auto simp: setupCluster_def split: option.splits dest!: Cluster_started_stops)

lemma other_cleanups:
  "setupSQL env cfg = Inr (p, c) \<Longrightarrow> cleanup_no c = 1 \<and> run_cleanup c = Returns ()"
  "grpcSrv_provider env cfg = Inr (s, c) \<Longrightarrow> cleanup_no c = 3 \<and> run_cleanup c = Returns ()"
  by (auto simp: setupSQL_def grpcSrv_provider_def)

lemma done_with_Inr:
  "done_with r put = Some (Returns (Inr (s', c))) \<Longrightarrow> \<exists>x. r = Inr (x, c) \<and> s' = put x"
  by (cases r) (auto simp: done_with_def)

lemma resource_step_cleanup:
  assumes "k < 7" and "(resource_steps env cfg ! k) s = Some (Returns (Inr (s', c)))"
  shows "cleanup_no c = k \<and> run_cleanup c = Returns ()"
proof -
  consider "k = 0" | "k = 1" | "k = 2" | "k = 3" | "k = 4" | "k = 5" | "k = 6" using assms(1) by linarith
  then show ?thesis
  proof cases
    case 1
    with assms(2) show ?thesis by (auto simp: resource_steps_def dest!: done_with_Inr)
  next
    case 2
    with assms(2) show ?thesis by (auto simp: resource_steps_def dest!: done_with_Inr other_cleanups)
  next
    case 3
    with assms(2) show ?thesis
      by (auto simp: resource_steps_def split: prod.splits dest!: done_with_Inr auth_cleanup)
  next
    case 4
    with assms(2) show ?thesis
      by (auto simp: resource_steps_def dest!: done_with_Inr other_cleanups(2))
  next
    case 5
    with assms(2) show ?thesis
      by (auto simp: resource_steps_def split: option.splits dest!: done_with_Inr cluster_cleanup)
  next
    case 6
    with assms(2) show ?thesis
      by (auto simp: resource_steps_def split: outcome.splits dest!: done_with_Inr)
  next
    case 7
    with assms(2) show ?thesis
      by (auto simp: resource_steps_def split: prod.splits dest!: done_with_Inr storage_cleanup)
  qed
qed

lemma length_resource_steps: "length (resource_steps env cfg) = 7"
  by (simp add: resource_steps_def)

lemma cleanups_unwound:
  "case initAppResources env cfg of
     Failed e cs \<Rightarrow> \<exists>k < 7. List.map cleanup_no cs = rev [0..<k] \<and> run_cleanups cs = Returns ()
   | Ready r cs \<Rightarrow> List.map cleanup_no cs = rev [0..<7] \<and> run_cleanups cs = Returns ()
   | _ \<Rightarrow> True"
proof -
  have "stack_ok 0 []" by (simp add: stack_ok_def)
  from run_steps_stack [of "resource_steps env cfg" 0 "[]" "nil_resources env cfg", OF _ this]
  have "case initAppResources env cfg of
      Failed e cs \<Rightarrow> \<exists>k < 7. stack_ok k cs | Ready r cs \<Rightarrow> stack_ok 7 cs | _ \<Rightarrow> True"
    unfolding startup_stack length_resource_steps add_0 using resource_step_cleanup [of _ env cfg] by blast
  then show ?thesis unfolding stack_ok_def .
qed

text \<open>
  A start-up that fails has run the clean-ups of exactly the resources it had made, last
  first; one that succeeds returns a shutdown function that runs all seven, last first; and in
  neither case does any clean-up panic.
\<close>

theorem startup_cleans_up:
  "case initAppResources env cfg of
     Failed e cs \<Rightarrow> \<exists>k < 7. List.map cleanup_no cs = rev [0..<k] \<and> run_cleanups cs = Returns ()
   | Ready r cs \<Rightarrow> List.map cleanup_no cs = rev [0..<7] \<and> run_cleanups cs = Returns ()
   | _ \<Rightarrow> True"
  by (rule cleanups_unwound)

section \<open>initAppHandlers\<close>

record 'a job_service =
  js_limit :: int
  js_maxRetry :: int
  js_pool :: "'a pool"

definition new_job_service :: "bool \<Rightarrow> int \<Rightarrow> int \<Rightarrow> int \<Rightarrow> 'a job_service outcome" where
  "new_job_service ctx_done workers queue maxRetry =
     (case NewPool ctx_done workers queue of
        Panics m \<Rightarrow> Panics m
      | Returns p \<Rightarrow> Returns \<lparr>js_limit = i64 (queue + workers), js_maxRetry = maxRetry, js_pool = p\<rparr>)"

definition NewUploader :: "bool \<Rightarrow> AppConfig \<Rightarrow> Job job_service outcome" where
  "NewUploader ctx_done cfg =
     new_job_service ctx_done (us_Workers (UploaderCfg cfg)) (us_Queue (UploaderCfg cfg))
       (us_MaxRetry (UploaderCfg cfg))"

definition NewTranscoding_service :: "bool \<Rightarrow> AppConfig \<Rightarrow> Job job_service outcome" where
  "NewTranscoding_service ctx_done cfg =
     new_job_service ctx_done (ts_Workers (TranscodingCfg cfg)) (ts_Queue (TranscodingCfg cfg))
       (ts_MaxRetry (TranscodingCfg cfg))"

text \<open>The environment of the constructors: the cache, the directory, and whether the context is done.\<close>

record 'c svc_env =
  se_NewLRU :: "int \<Rightarrow> 'c res"
  se_stat :: "go_error option"
  se_mkdir :: "go_error option"
  se_absdir :: "string \<Rightarrow> string res"
  se_ctx_done :: bool

record 'c services =
  sc_sessions :: 'c
  sc_temp :: TempFileService
  sc_jobs :: FileJobStore
  sc_uploader :: "Job job_service"
  sc_transcoding :: "Job job_service"

definition initAppHandlers :: "'c svc_env \<Rightarrow> AppConfig \<Rightarrow> db \<Rightarrow> ('c services \<times> db) outcome" where
  "initAppHandlers env cfg d =
     (case NewSessionStore (se_NewLRU env) of
        Panics m \<Rightarrow> Panics m
      | Returns sess \<Rightarrow>
     (case NewTempFileService (se_stat env) (se_mkdir env) (se_absdir env (TempDir cfg)) of
        Panics m \<Rightarrow> Panics m
      | Returns tmp \<Rightarrow>
     (case NewFileJobStore (sv_ID (Service cfg)) d of
        (fjs, d') \<Rightarrow>
     (case NewUploader (se_ctx_done env) cfg of
        Panics m \<Rightarrow> Panics m
      | Returns up \<Rightarrow>
     (case NewTranscoding_service (se_ctx_done env) cfg of
        Panics m \<Rightarrow> Panics m
      | Returns tr \<Rightarrow>
          Returns (\<lparr>sc_sessions = sess, sc_temp = tmp, sc_jobs = fjs, sc_uploader = up,
            sc_transcoding = tr\<rparr>, d'))))))"

text \<open>\<open>App.Run\<close>: what is left to run, or how the start-up ended.\<close>

definition App_Run ::
  "'e app_env \<Rightarrow> 'c svc_env \<Rightarrow> AppConfig \<Rightarrow> db \<Rightarrow> ('e resources \<times> 'c services \<times> db) started" where
  "App_Run env senv cfg d =
     (case initAppResources env cfg of
        Hangs \<Rightarrow> Hangs
      | Died m \<Rightarrow> Died m
      | Failed e cs \<Rightarrow> Failed e cs
      | Ready r shutdown \<Rightarrow>
          (case initAppHandlers senv (rs_cfg r) d of
             Panics m \<Rightarrow> Died m
           | Returns (sv, d') \<Rightarrow> Ready (r, sv, d') shutdown))"


text \<open>A database whose only job was left active by a run of instance \<open>1\<close> that ended.\<close>

definition crashed_db :: db where
  "crashed_db = \<lparr>rows = [\<lparr>r_id = 4, r_type = ''upload'', r_instance = ''1'', r_file = JNull,
      r_config = JNull, r_state = 1, r_error = None, r_retry = 3, r_created_at = 10, r_activity_at = 20\<rparr>],
     next_id = 5, db_now = 30, dflt_state = 0, dflt_retry = 0, db_calls = 0, db_fails = (\<lambda>_. None)\<rparr>"

definition demo_svc_env :: "(string \<times> nat) list svc_env" where
  "demo_svc_env = \<lparr>se_NewLRU = list_NewLRU, se_stat = None, se_mkdir = None, se_absdir = Inr, se_ctx_done = False\<rparr>"


text \<open>The default configuration starts, when the network and the database answer.\<close>

definition demo_app_env :: "(codec \<times> RTPCodecType) list app_env" where
  "demo_app_env =
     \<lparr>ae_ParseConfig = (\<lambda>_. None), ae_NewPool = (\<lambda>_. Inr 1), ae_conns = (\<lambda>_. None),
      ae_grpc_NewClient = (\<lambda>_. Inr 2), ae_Listen = Inr,
      ae_SplitHostPort = (\<lambda>_. Inr (''localhost'', ''50011'')), ae_Interfaces = Inr [],
      ae_proxy_host = None, ae_consul_client = None, ae_agent = quiet_agent, ae_pion = list_pion\<rparr>"

lemma default_startup_ready:
  "\<exists>r cs. initAppResources demo_app_env (load_config nothing_given) = Ready r cs"
proof -
  let ?cfg = "load_config nothing_given"
  obtain p c2 where 2: "setupSQL demo_app_env ?cfg = Inr (p, c2)"
    by (simp add: setupSQL_def pgsql_New_def demo_app_env_def)
  have "\<exists>am c3 conns. authManager_provider demo_app_env ?cfg (ae_conns demo_app_env) = (Inr (am, c3), conns)"
    by (simp add: authManager_provider_def NewClient_def demo_app_env_def Let_def Manager_Start_def NewAuthManager_def)
  then obtain am c3 conns where 3: "authManager_provider demo_app_env ?cfg (ae_conns demo_app_env) = (Inr (am, c3), conns)"
    by blast
  have "\<exists>s c4. grpcSrv_provider demo_app_env ?cfg = Inr (s, c4)"
    by (simp add: grpcSrv_provider_def Server_New_def demo_app_env_def)
  then obtain s c4 where 4: "grpcSrv_provider demo_app_env ?cfg = Inr (s, c4)" by blast
  have "\<exists>cl c5. setupCluster demo_app_env ?cfg s = Some (Inr (cl, c5))"
    by (simp add: setupCluster_def Cluster_Start_def demo_app_env_def NewConsul_def err_res_def
        attemptConsulRegistration_def defaultReconnectAttempts_def numeral_eq_Suc RegisterService_def
        register_call_def update_healthy quiet_agent_def Let_def)
  then obtain cl c5 where 5: "setupCluster demo_app_env ?cfg s = Some (Inr (cl, c5))" by blast
  have "ae_pion demo_app_env = list_pion" by (simp add: demo_app_env_def)
  then obtain api where 6: "webrtcAPI (ae_pion demo_app_env) ?cfg = Returns (Inr api)"
    by (simp add: default_webrtcAPI)
  have "\<exists>st c7 conns'. storageClient demo_app_env ?cfg conns = (Inr (st, c7), conns')"
    by (simp add: storageClient_def NewClient_def demo_app_env_def Let_def Storage_Start_def Storage_New_def
        split: option.split)
  then obtain st c7 conns' where 7: "storageClient demo_app_env ?cfg conns = (Inr (st, c7), conns')" by blast
  show ?thesis by (simp add: initAppResources_def 2 3 4 5 6 7 Let_def)
qed

section \<open>A tick and its pool\<close>

text \<open>
  The limit of a service is exactly what its pool takes without a job finishing: every tick on
  an idle pool can hand over all its jobs without waiting for one to be done, and no larger
  batch would fit.
\<close>

theorem tick_fits_idle_pool:
  assumes "NewUploader False cfg = Returns sv" and "0 \<le> us_Workers (UploaderCfg cfg)"
    and "in_i64 (us_Queue (UploaderCfg cfg) + us_Workers (UploaderCfg cfg))"
    and "wf_db d" and "listen_tick (sql_ops s) (js_limit sv) ty d = (js, d')"
  shows "takes (js_pool sv) js \<and> (\<forall>ks. takes (js_pool sv) ks \<longleftrightarrow> int (length ks) \<le> js_limit sv)"
proof -
  let ?w = "us_Workers (UploaderCfg cfg)" and ?q = "us_Queue (UploaderCfg cfg)"
  have p: "NewPool False ?w ?q = Returns (js_pool sv)" and l: "js_limit sv = ?w + ?q"
    using assms(1,3) by (auto simp: NewUploader_def new_job_service_def split: outcome.splits)
  have "int (length js) \<le> js_limit sv"
    using sql.listen_tick_length [OF assms(4,5)] assms(2) p l by (auto simp: NewPool_def split: if_splits)
  with new_pool_takes [OF p assms(2)] show ?thesis by (simp add: l)
qed

theorem tick_fits_idle_pool_witness:
  "\<exists>sv js d'. NewUploader False (load_config nothing_given) = Returns sv \<and>
     listen_tick (sql_ops \<lparr>instance_id = ''1''\<rparr>) (js_limit sv) ''upload'' empty_db = (js, d') \<and>
     takes (js_pool sv) js"
proof -
  obtain sv where n: "NewUploader False (load_config nothing_given) = Returns sv"
    by (simp add: NewUploader_def new_job_service_def NewPool_def load_config_eq)
  obtain js d' where t: "listen_tick (sql_ops \<lparr>instance_id = ''1''\<rparr>) (js_limit sv) ''upload'' empty_db = (js, d')"
    by fastforce
  have "wf_db empty_db" by (simp add: wf_db_def empty_db_def)
  from tick_fits_idle_pool [OF n _ _ this t] n t show ?thesis
    by (auto simp: load_config_eq in_i64_def)
qed

end
