(* ===== verification/Process.thy ===== *)
theory Process
  imports App
begin

text \<open>
  \<^verbatim>\<open>main.go\<close>, \<open>Run\<close> of \<^verbatim>\<open>cmd/cmd.go\<close>, \<open>NewApp\<close> and the \<open>server\<close> command of \<^verbatim>\<open>cmd/service.go\<close>,
  \<open>Listen\<close> and \<open>Shutdown\<close> of \<^verbatim>\<open>infra/grpc_srv/server.go\<close>: the life of one process, from its command line to its exit, as a step
  relation. Signals, calls of clients, the end of the listener and panics of other goroutines
  may come at any time.
\<close>

section \<open>The command line\<close>

text \<open>What the library made of the command line: the settings it found are those of the flags.\<close>

datatype invocation = BadUsage go_error | NoCommand | ServerCommand given_values

datatype signal = SIGINT | SIGTERM | SIGHUP

text \<open>The signals of \<open>signal.Notify\<close>; any other ends the process, as all do before \<open>Notify\<close>.\<close>

definition notified :: "signal \<Rightarrow> bool" where
  "notified s \<longleftrightarrow> s = SIGINT \<or> s = SIGTERM"

datatype ending = Finished "go_error option" | Panicked string | KilledBy signal

text \<open>\<open>main\<close> prints the error of \<open>Run\<close> and returns, so the status is zero; a panic has status 2.\<close>

definition main_prints :: "go_error option \<Rightarrow> string list" where
  "main_prints e = (case e of None \<Rightarrow> [] | Some err \<Rightarrow> [err_text err])"

fun exit_status :: "ending \<Rightarrow> nat option" where
  "exit_status (Finished e) = Some 0"
| "exit_status (Panicked m) = Some 2"
| "exit_status (KilledBy s) = None"

record App =
  ap_log :: "logger option"
  ap_cfg :: AppConfig
  ap_cancelled :: bool

text \<open>The logger is the global one until \<open>Run\<close> takes that of the resources.\<close>

definition NewApp :: "AppConfig \<Rightarrow> App" where
  "NewApp cfg = \<lparr>ap_log = None, ap_cfg = cfg, ap_cancelled = False\<rparr>"

section \<open>The life of a process\<close>

text \<open>
  The main goroutine: in \<open>App.Run\<close>; before \<open>signal.Notify\<close>; waiting for a signal; in the
  deferred function, with the clean-ups left to call; gone.
\<close>

datatype phase =
    Starting | Started "cleanup_fun list" | Waiting_signal "cleanup_fun list"
  | Stopping "cleanup_fun list" | Gone ending

datatype grpc_listener = Not_listening | Serving | Served "go_error option"

text \<open>
  \<open>ps_calls\<close> are the calls being handled. \<open>ps_stopped\<close> says that \<open>GracefulStop\<close> has returned,
  which it does when no call is left; \<open>ps_ran\<close> are the clean-ups called.
\<close>

record proc =
  ps_phase :: phase
  ps_app :: App
  ps_listen :: grpc_listener
  ps_calls :: nat
  ps_stopped :: bool
  ps_ran :: "cleanup_fun list"

definition launched :: "AppConfig \<Rightarrow> phase \<Rightarrow> proc" where
  "launched cfg ph = \<lparr>ps_phase = ph, ps_app = NewApp cfg, ps_listen = Not_listening, ps_calls = 0,
     ps_stopped = False, ps_ran = []\<rparr>"

fun cmd_Run :: "invocation \<Rightarrow> proc" where
  "cmd_Run (BadUsage e) = launched zero_config (Gone (Finished (Some e)))"
| "cmd_Run NoCommand = launched zero_config (Gone (Finished None))"
| "cmd_Run (ServerCommand g) = launched (load_config g) Starting"

datatype proc_event =
    Boot | Serve | ServeReturns "go_error option" | Call | Answer | Notify
  | Signal signal | CleanUp cleanup_fun | Return | Crash string

fun is_grpc :: "cleanup_fun \<Rightarrow> bool" where
  "is_grpc (ShutdownGrpc s) = True"
| "is_grpc _ = False"

fun alive :: "phase \<Rightarrow> bool" where
  "alive (Gone x) = False"
| "alive _ = True"

fun in_service :: "phase \<Rightarrow> bool" where
  "in_service (Started cs) = True"
| "in_service (Waiting_signal cs) = True"
| "in_service (Stopping cs) = True"
| "in_service _ = False"

inductive proc_step ::
  "'e app_env \<Rightarrow> 'c svc_env \<Rightarrow> db \<Rightarrow> proc \<Rightarrow> proc_event \<Rightarrow> proc \<Rightarrow> bool" for env senv d where
  boots: "\<lbrakk>ps_phase p = Starting; App_Run env senv (ap_cfg (ps_app p)) d = Ready (r, sv, d') shutdown\<rbrakk> \<Longrightarrow>
     proc_step env senv d p Boot
       (p\<lparr>ps_phase := Started shutdown, ps_app := (ps_app p)\<lparr>ap_log := rs_log r\<rparr>\<rparr>)"
| boot_fails: "\<lbrakk>ps_phase p = Starting; App_Run env senv (ap_cfg (ps_app p)) d = Failed e cs\<rbrakk> \<Longrightarrow>
     proc_step env senv d p Boot (p\<lparr>ps_phase := Gone (Finished (Some e)), ps_ran := cs,
       ps_app := (ps_app p)\<lparr>ap_cancelled := True\<rparr>\<rparr>)"
| boot_dies: "\<lbrakk>ps_phase p = Starting; App_Run env senv (ap_cfg (ps_app p)) d = Died m\<rbrakk> \<Longrightarrow>
     proc_step env senv d p Boot (p\<lparr>ps_phase := Gone (Panicked m)\<rparr>)"
| serves: "\<lbrakk>in_service (ps_phase p); ps_listen p = Not_listening; \<not> ps_stopped p\<rbrakk> \<Longrightarrow>
     proc_step env senv d p Serve (p\<lparr>ps_listen := Serving\<rparr>)"
| serve_returns: "\<lbrakk>in_service (ps_phase p); \<forall>e. ps_listen p \<noteq> Served e\<rbrakk> \<Longrightarrow>
     proc_step env senv d p (ServeReturns e) (p\<lparr>ps_listen := Served e\<rparr>)"
| call: "\<lbrakk>in_service (ps_phase p); ps_listen p \<noteq> Not_listening; \<not> ps_stopped p\<rbrakk> \<Longrightarrow>
     proc_step env senv d p Call (p\<lparr>ps_calls := Suc (ps_calls p)\<rparr>)"
| answer: "\<lbrakk>in_service (ps_phase p); ps_calls p = Suc n\<rbrakk> \<Longrightarrow>
     proc_step env senv d p Answer (p\<lparr>ps_calls := n\<rparr>)"
| notify: "ps_phase p = Started cs \<Longrightarrow> proc_step env senv d p Notify (p\<lparr>ps_phase := Waiting_signal cs\<rparr>)"
| killed: "\<lbrakk>alive (ps_phase p); \<not> notified s \<or> ps_phase p = Starting \<or> (\<exists>cs. ps_phase p = Started cs)\<rbrakk> \<Longrightarrow>
     proc_step env senv d p (Signal s) (p\<lparr>ps_phase := Gone (KilledBy s)\<rparr>)"
| signalled: "\<lbrakk>ps_phase p = Waiting_signal cs; notified s\<rbrakk> \<Longrightarrow>
     proc_step env senv d p (Signal s)
       (p\<lparr>ps_phase := Stopping cs, ps_app := (ps_app p)\<lparr>ap_cancelled := True\<rparr>\<rparr>)"
| ignored: "\<lbrakk>ps_phase p = Stopping cs; notified s\<rbrakk> \<Longrightarrow> proc_step env senv d p (Signal s) p"
| clean_up: "\<lbrakk>ps_phase p = Stopping (c # cs); run_cleanup c = Returns (); is_grpc c \<longrightarrow> ps_calls p = 0\<rbrakk> \<Longrightarrow>
     proc_step env senv d p (CleanUp c)
       (p\<lparr>ps_phase := Stopping cs, ps_ran := ps_ran p @ [c], ps_stopped := ps_stopped p \<or> is_grpc c\<rparr>)"
| clean_up_panics: "\<lbrakk>ps_phase p = Stopping (c # cs); run_cleanup c = Panics m\<rbrakk> \<Longrightarrow>
     proc_step env senv d p (CleanUp c) (p\<lparr>ps_phase := Gone (Panicked m)\<rparr>)"
| returns: "ps_phase p = Stopping [] \<Longrightarrow> proc_step env senv d p Return (p\<lparr>ps_phase := Gone (Finished None)\<rparr>)"
| crashes: "alive (ps_phase p) \<Longrightarrow> proc_step env senv d p (Crash m) (p\<lparr>ps_phase := Gone (Panicked m)\<rparr>)"

text \<open>A run, with its history.\<close>

inductive proc_run ::
  "'e app_env \<Rightarrow> 'c svc_env \<Rightarrow> db \<Rightarrow> proc \<Rightarrow> proc_event list \<Rightarrow> proc \<Rightarrow> bool" for env senv d p0 where
  start: "proc_run env senv d p0 [] p0"
| more: "\<lbrakk>proc_run env senv d p0 evs p; proc_step env senv d p ev q\<rbrakk> \<Longrightarrow> proc_run env senv d p0 (evs @ [ev]) q"

inductive_cases proc_stepE [consumes 1, case_names boots boot_fails boot_dies serves serve_returns call
    answer notify killed signalled ignored clean_up clean_up_panics returns crashes]:
  "proc_step env senv d p ev q"

section \<open>The history of a state\<close>

definition boots_with :: "'e app_env \<Rightarrow> 'c svc_env \<Rightarrow> AppConfig \<Rightarrow> db \<Rightarrow> cleanup_fun list \<Rightarrow> bool" where
  "boots_with env senv cfg d cs \<longleftrightarrow> (\<exists>x. App_Run env senv cfg d = Ready x cs)"

text \<open>A signal the program waits for came after it had asked for it.\<close>

definition asked :: "proc_event list \<Rightarrow> bool" where
  "asked evs \<longleftrightarrow> (\<exists>pre s post. evs = pre @ Signal s # post \<and> notified s \<and> Notify \<in> set pre)"

lemma asked_more: "asked evs \<Longrightarrow> asked (evs @ [ev])"
  unfolding asked_def by fastforce

lemma asked_now: "\<lbrakk>Notify \<in> set evs; notified s\<rbrakk> \<Longrightarrow> asked (evs @ [Signal s])"
  unfolding asked_def by blast

definition ended_well ::
  "'e app_env \<Rightarrow> 'c svc_env \<Rightarrow> AppConfig \<Rightarrow> db \<Rightarrow> proc_event list \<Rightarrow> proc \<Rightarrow> ending \<Rightarrow> bool" where
  "ended_well env senv cfg d evs p x \<longleftrightarrow>
     (case x of
        Finished None \<Rightarrow> boots_with env senv cfg d (ps_ran p) \<and> asked evs \<and> ps_calls p = 0
      | Finished (Some e) \<Rightarrow> App_Run env senv cfg d = Failed e (ps_ran p) \<and> Notify \<notin> set evs
      | KilledBy s \<Rightarrow> notified s \<longrightarrow> ps_ran p = [] \<and> Notify \<notin> set evs
      | Panicked m \<Rightarrow> App_Run env senv cfg d = Died m \<or> Crash m \<in> set evs)"

definition life ::
  "'e app_env \<Rightarrow> 'c svc_env \<Rightarrow> AppConfig \<Rightarrow> db \<Rightarrow> proc_event list \<Rightarrow> proc \<Rightarrow> bool" where
  "life env senv cfg d evs p \<longleftrightarrow> ap_cfg (ps_app p) = cfg \<and>
     (case ps_phase p of
        Starting \<Rightarrow> ps_ran p = [] \<and> Notify \<notin> set evs \<and> \<not> ps_stopped p
      | Started cs \<Rightarrow> boots_with env senv cfg d cs \<and> ps_ran p = [] \<and> Notify \<notin> set evs \<and> \<not> ps_stopped p
      | Waiting_signal cs \<Rightarrow> boots_with env senv cfg d cs \<and> ps_ran p = [] \<and> Notify \<in> set evs \<and> \<not> ps_stopped p
      | Stopping cs \<Rightarrow> boots_with env senv cfg d (ps_ran p @ cs) \<and> asked evs \<and> ap_cancelled (ps_app p) \<and>
          (ps_stopped p \<longleftrightarrow> (\<exists>c \<in> set (ps_ran p). is_grpc c)) \<and> (ps_stopped p \<longrightarrow> ps_calls p = 0)
      | Gone x \<Rightarrow> ended_well env senv cfg d evs p x)"

lemma grpc_no: "is_grpc c \<longleftrightarrow> cleanup_no c = 3"
  by (cases c) simp_all

lemma run_cleanups_each: "run_cleanups cs = Returns () \<Longrightarrow> c \<in> set cs \<Longrightarrow> run_cleanup c = Returns ()"
  by (induction cs) (auto split: outcome.splits)

lemma boots_with_all:
  assumes "boots_with env senv cfg d cs"
  shows "List.map cleanup_no cs = [6, 5, 4, 3, 2, 1, 0]" "c \<in> set cs \<Longrightarrow> run_cleanup c = Returns ()"
proof -
  from assms obtain r where r: "initAppResources env cfg = Ready r cs"
    by (auto simp: boots_with_def App_Run_def split: started.splits outcome.splits)
  have "[0..<7] = [0, 1, 2, 3, 4, 5, 6]" by (simp add: upt_rec)
  with cleanups_unwound [of env cfg] r show "List.map cleanup_no cs = [6, 5, 4, 3, 2, 1, 0]" by simp
  from cleanups_unwound [of env cfg] r run_cleanups_each show "c \<in> set cs \<Longrightarrow> run_cleanup c = Returns ()"
    by auto
qed

lemma boot_failed:
  assumes "App_Run env senv cfg d = Failed e cs"
  shows "\<exists>k < 7. List.map cleanup_no cs = rev [0..<k]"
proof -
  from assms have "initAppResources env cfg = Failed e cs"
    by (auto simp: App_Run_def split: started.splits outcome.splits)
  with cleanups_unwound [of env cfg] show ?thesis by auto
qed

lemma life_step:
  assumes "proc_step env senv d p ev q" "life env senv cfg d evs p"
  shows "life env senv cfg d (evs @ [ev]) q"
  using assms(1)
proof (cases rule: proc_stepE)
  case (clean_up c cs)
  then have "boots_with env senv cfg d ((ps_ran p @ [c]) @ cs)" using assms(2) by (simp add: life_def)
  with clean_up assms(2) show ?thesis by (auto simp: life_def intro: asked_more)
next
  case (clean_up_panics c cs m)
  then have "boots_with env senv cfg d (ps_ran p @ c # cs)" using assms(2) by (simp add: life_def)
  from boots_with_all(2) [OF this, of c] clean_up_panics(4) show ?thesis by simp
next
  case returns
  then have b: "boots_with env senv cfg d (ps_ran p)" "asked evs" "ps_stopped p \<longleftrightarrow> (\<exists>c \<in> set (ps_ran p). is_grpc c)"
    "ps_stopped p \<longrightarrow> ps_calls p = 0" using assms(2) by (simp_all add: life_def)
  have "3 \<in> set (List.map cleanup_no (ps_ran p))" unfolding boots_with_all(1) [OF b(1)] by simp
  then have "\<exists>c \<in> set (ps_ran p). is_grpc c" by (auto simp: grpc_no)
  with b returns assms(2) show ?thesis by (simp add: life_def ended_well_def asked_more)
qed (use assms(2) in \<open>auto simp: life_def ended_well_def boots_with_def asked_more asked_now split: phase.splits\<close>)

lemma launched_life: "life env senv (load_config g) d [] (cmd_Run (ServerCommand g))"
  by (simp add: life_def launched_def NewApp_def)

lemma run_life:
  assumes "proc_run env senv d p0 evs p" "life env senv cfg d hist p0"
  shows "life env senv cfg d (hist @ evs) p"
  using assms
proof (induction rule: proc_run.induct)
  case (more evs p ev q)
  from life_step [OF more.hyps(2) more.IH [OF more.prems]] show ?case by simp
qed simp

section \<open>Ways to end\<close>

text \<open>
  C19. How a server process ends: with no error only after a signal that followed
  signal.Notify, with all seven clean-ups called, last resource first, and no call being
  handled; with an error, and still status 0, only when the start-up failed, after the clean-
  ups of what it had made; by SIGINT or SIGTERM only before Notify, and then without any
  clean-up; and a panic never comes from a clean-up.
\<close>

theorem process_endings:
  assumes "proc_run env senv d (cmd_Run (ServerCommand g)) evs p" "ps_phase p = Gone x"
  shows "case x of
      Finished None \<Rightarrow> asked evs \<and> List.map cleanup_no (ps_ran p) = [6, 5, 4, 3, 2, 1, 0] \<and> ps_calls p = 0
    | Finished (Some e) \<Rightarrow> App_Run env senv (load_config g) d = Failed e (ps_ran p) \<and> exit_status x = Some 0 \<and>
        (\<exists>k < 7. List.map cleanup_no (ps_ran p) = rev [0..<k]) \<and> Notify \<notin> set evs
    | KilledBy s \<Rightarrow> notified s \<longrightarrow> ps_ran p = [] \<and> Notify \<notin> set evs
    | Panicked m \<Rightarrow> App_Run env senv (load_config g) d = Died m \<or> Crash m \<in> set evs"
proof -
  have "ended_well env senv (load_config g) d evs p x"
    using run_life [OF assms(1) launched_life] assms(2) by (simp add: life_def)
  then show ?thesis
    by (cases x) (auto simp: ended_well_def boots_with_all(1) boot_failed split: option.splits)
qed

section \<open>A run\<close>

lemma ready_config: "initAppResources env cfg = Ready r cs \<Longrightarrow> rs_cfg r = cfg"
  by (auto simp: initAppResources_def Let_def split: sum.splits prod.splits option.splits outcome.splits)

lemma demo_boots: "\<exists>r sv d' cs. App_Run demo_app_env demo_svc_env (load_config nothing_given) crashed_db = Ready (r, sv, d') cs"
proof -
  obtain r cs where r: "initAppResources demo_app_env (load_config nothing_given) = Ready r cs"
    using default_startup_ready by blast
  have "\<exists>sv d'. initAppHandlers demo_svc_env (load_config nothing_given) crashed_db = Returns (sv, d')"
    by (simp add: initAppHandlers_def load_config_eq NewSessionStore_def demo_svc_env_def list_NewLRU_def
        cacheClientsSize_def NewTempFileService_def NewUploader_def NewTranscoding_service_def
        new_job_service_def NewPool_def NewFileJobStore_def Let_def)
  with r ready_config [OF r] show ?thesis by (auto simp: App_Run_def)
qed

lemma run_one: "proc_step env senv d p ev q \<Longrightarrow> proc_run env senv d p [ev] q"
  using proc_run.more [OF proc_run.start] by fastforce

lemma run_on:
  assumes "proc_run env senv d p evs q" "proc_run env senv d q evs' r"
  shows "proc_run env senv d p (evs @ evs') r"
  using assms(2,1)
proof (induction rule: proc_run.induct)
  case (more evs1 p1 ev q1)
  from proc_run.more [OF more.IH [OF more.prems] more.hyps(2)] show ?case by simp
qed simp

text \<open>With no call left the clean-ups run to the end.\<close>

lemma stops:
  assumes "ps_phase p = Stopping cs" "ps_calls p = 0" "\<forall>c \<in> set cs. run_cleanup c = Returns ()"
  shows "\<exists>q. proc_run env senv d p (List.map CleanUp cs @ [Return]) q \<and> ps_phase q = Gone (Finished None)"
  using assms
proof (induction cs arbitrary: p)
  case Nil
  from proc_step.returns [OF Nil(1)] run_one show ?case by fastforce
next
  case (Cons c cs)
  have "proc_step env senv d p (CleanUp c)
      (p\<lparr>ps_phase := Stopping cs, ps_ran := ps_ran p @ [c], ps_stopped := ps_stopped p \<or> is_grpc c\<rparr>)" (is "proc_step _ _ _ _ _ ?p1")
    using Cons.prems by (intro proc_step.clean_up) simp_all
  note s = run_one [OF this]
  from Cons.IH [of ?p1] Cons.prems obtain q where
    "proc_run env senv d ?p1 (List.map CleanUp cs @ [Return]) q" "ps_phase q = Gone (Finished None)" by auto
  with run_on [OF s] show ?case by fastforce
qed

text \<open>The clean-ups before the server's do not wait for calls.\<close>

lemma cleans:
  assumes "ps_phase p = Stopping (xs @ ys)" "\<forall>c \<in> set xs. run_cleanup c = Returns () \<and> \<not> is_grpc c"
  shows "\<exists>q. proc_run env senv d p (List.map CleanUp xs) q \<and> ps_phase q = Stopping ys \<and> ps_ran q = ps_ran p @ xs \<and>
    ps_calls q = ps_calls p"
  using assms
proof (induction xs arbitrary: p)
  case Nil
  with proc_run.start [of env senv d p] show ?case by auto
next
  case (Cons c xs)
  let ?p1 = "p\<lparr>ps_phase := Stopping (xs @ ys), ps_ran := ps_ran p @ [c], ps_stopped := ps_stopped p \<or> is_grpc c\<rparr>"
  have "proc_step env senv d p (CleanUp c) ?p1" using Cons.prems by (intro proc_step.clean_up) simp_all
  note s = run_one [OF this]
  from Cons.IH [of ?p1] Cons.prems obtain q where "proc_run env senv d ?p1 (List.map CleanUp xs) q"
    "ps_phase q = Stopping ys" "ps_ran q = ps_ran p @ c # xs" "ps_calls q = ps_calls p" by auto
  with run_on [OF s] show ?case by (intro exI [of _ q]) fastforce
qed

lemma answers:
  assumes "in_service (ps_phase p)"
  shows "proc_run env senv d p (replicate (ps_calls p) Answer) (p\<lparr>ps_calls := 0\<rparr>)"
  using assms
proof (induction "ps_calls p" arbitrary: p)
  case 0
  then have e: "p\<lparr>ps_calls := 0\<rparr> = p" by (cases p) simp
  show ?case unfolding e 0(1) [symmetric] replicate_0 by (rule proc_run.start)
next
  case (Suc n)
  have s: "proc_step env senv d p Answer (p\<lparr>ps_calls := n\<rparr>)" using Suc.prems Suc.hyps(2) by (intro proc_step.answer) simp_all
  from Suc.hyps(1) [of "p\<lparr>ps_calls := n\<rparr>"] Suc.prems
  have "proc_run env senv d (p\<lparr>ps_calls := n\<rparr>) (replicate n Answer) (p\<lparr>ps_calls := 0\<rparr>)" by simp
  from run_on [OF run_one [OF s] this] show ?case by (simp flip: Suc.hyps(2))
qed

lemma demo_life:
  "\<exists>p cs. proc_run demo_app_env demo_svc_env crashed_db (cmd_Run (ServerCommand nothing_given))
      [Boot, Serve, Call, Notify] p \<and> ps_phase p = Waiting_signal cs \<and> ps_calls p = 1 \<and> ps_ran p = [] \<and> ps_listen p = Serving"
proof -
  let ?E = demo_app_env and ?S = demo_svc_env and ?D = crashed_db
  let ?p0 = "cmd_Run (ServerCommand nothing_given)"
  obtain r sv d' cs where b: "App_Run ?E ?S (load_config nothing_given) ?D = Ready (r, sv, d') cs" using demo_boots by blast
  let ?p1 = "?p0\<lparr>ps_phase := Started cs, ps_app := (ps_app ?p0)\<lparr>ap_log := rs_log r\<rparr>\<rparr>"
  let ?p2 = "?p1\<lparr>ps_listen := Serving\<rparr>"
  let ?p3 = "?p2\<lparr>ps_calls := 1\<rparr>"
  have "proc_step ?E ?S ?D ?p0 Boot ?p1" using b by (intro proc_step.boots) (simp_all add: launched_def NewApp_def)
  moreover have "proc_step ?E ?S ?D ?p1 Serve ?p2" by (intro proc_step.serves) (simp_all add: launched_def)
  moreover have "proc_step ?E ?S ?D ?p2 Call ?p3"
    using proc_step.call [of ?p2 ?E ?S ?D] by (simp add: launched_def)
  moreover have "proc_step ?E ?S ?D ?p3 Notify (?p3\<lparr>ps_phase := Waiting_signal cs\<rparr>)" by (intro proc_step.notify) simp
  ultimately have "proc_run ?E ?S ?D ?p0 ((([Boot] @ [Serve]) @ [Call]) @ [Notify]) (?p3\<lparr>ps_phase := Waiting_signal cs\<rparr>)"
    by (intro run_on [OF _ run_one] run_one) assumption+
  then show ?thesis by (intro exI [of _ "?p3\<lparr>ps_phase := Waiting_signal cs\<rparr>"] exI [of _ cs]) (simp add: launched_def)
qed

theorem process_endings_witness:
  "\<exists>evs p. proc_run demo_app_env demo_svc_env crashed_db (cmd_Run (ServerCommand nothing_given)) evs p \<and>
     ps_phase p = Gone (Finished None) \<and> List.map cleanup_no (ps_ran p) = [6, 5, 4, 3, 2, 1, 0]"
proof -
  let ?E = demo_app_env and ?S = demo_svc_env and ?D = crashed_db
  obtain p cs where p: "proc_run ?E ?S ?D (cmd_Run (ServerCommand nothing_given)) [Boot, Serve, Call, Notify] p"
    "ps_phase p = Waiting_signal cs" using demo_life by blast
  have "boots_with ?E ?S (load_config nothing_given) ?D cs"
    using run_life [OF p(1) launched_life] p(2) by (simp add: life_def)
  note c = boots_with_all(2) [OF this]
  have s: "proc_step ?E ?S ?D p (Signal SIGINT) (p\<lparr>ps_phase := Stopping cs, ps_app := (ps_app p)\<lparr>ap_cancelled := True\<rparr>\<rparr>)"
    (is "proc_step _ _ _ _ _ ?q") using p(2) by (intro proc_step.signalled) (simp_all add: notified_def)
  note a = answers [of ?q ?E ?S ?D]
  from stops [of "?q\<lparr>ps_calls := 0\<rparr>" cs ?E ?S ?D] c obtain z where
    z: "proc_run ?E ?S ?D (?q\<lparr>ps_calls := 0\<rparr>) (List.map CleanUp cs @ [Return]) z" "ps_phase z = Gone (Finished None)" by auto
  from run_on [OF run_on [OF run_on [OF p(1) run_one [OF s]] a] z(1)]
  obtain evs where r: "proc_run ?E ?S ?D (cmd_Run (ServerCommand nothing_given)) evs z" by auto
  have "List.map cleanup_no (ps_ran z) = [6, 5, 4, 3, 2, 1, 0]" using process_endings [OF r z(2)] by simp
  with r z(2) show ?thesis by (intro exI [of _ evs] exI [of _ z] conjI)
qed

section \<open>Calls and clean-ups\<close>

lemma stopping_run:
  assumes "boots_with env senv cfg d (xs @ cs)" "\<not> (\<exists>c \<in> set xs. is_grpc c)" "c \<in> set xs"
  shows "4 \<le> cleanup_no c"
proof -
  have n: "List.map cleanup_no xs @ List.map cleanup_no cs = [6, 5, 4, 3, 2, 1, 0]"
    using boots_with_all(1) [OF assms(1)] by simp
  have "3 \<notin> set (List.map cleanup_no xs)" using assms(2) by (auto simp: grpc_no)
  then have "set (List.map cleanup_no xs) \<subseteq> {4, 5, 6}"
    using n by (auto simp: Cons_eq_append_conv append_eq_Cons_conv)
  with assms(3) show ?thesis by auto
qed

text \<open>
  C20. While a call of a client is being handled, whatever is going on in the process, the
  clients of the authorization service and the database are still open and the server has not
  been taken down: at most the storage client, the WebRTC API and the registration in Consul
  are gone.
\<close>

theorem calls_keep_resources:
  assumes "proc_run env senv d (cmd_Run (ServerCommand g)) evs p" "alive (ps_phase p)" "0 < ps_calls p"
    and "c \<in> set (ps_ran p)"
  shows "(c = WebrtcExit \<or> (\<exists>s. c = StopStorage s) \<or> (\<exists>cl. c = StopCluster cl)) \<and> \<not> ps_stopped p"
proof -
  have l: "life env senv (load_config g) d evs p" using run_life [OF assms(1) launched_life] by simp
  have "4 \<le> cleanup_no c \<and> \<not> ps_stopped p"
  proof (cases "ps_phase p")
    case (Stopping cs)
    with l assms(3,4) stopping_run [of env senv "load_config g" d "ps_ran p" cs c] show ?thesis
      by (auto simp: life_def)
  qed (use l assms(2,4) in \<open>simp_all add: life_def\<close>)
  then show ?thesis by (cases c) simp_all
qed

theorem calls_keep_resources_witness:
  "\<exists>evs p c. proc_run demo_app_env demo_svc_env crashed_db (cmd_Run (ServerCommand nothing_given)) evs p \<and>
     ps_calls p = 1 \<and> c \<in> set (ps_ran p) \<and> \<not> ps_stopped p"
proof -
  let ?E = demo_app_env and ?S = demo_svc_env and ?D = crashed_db
  obtain p cs where p: "proc_run ?E ?S ?D (cmd_Run (ServerCommand nothing_given)) [Boot, Serve, Call, Notify] p"
    "ps_phase p = Waiting_signal cs" "ps_calls p = 1" using demo_life by blast
  have b: "boots_with ?E ?S (load_config nothing_given) ?D cs"
    using run_life [OF p(1) launched_life] p(2) by (simp add: life_def)
  from boots_with_all(1) [OF b] obtain c cs' where c: "cs = c # cs'" "cleanup_no c = 6" by (cases cs) simp_all
  let ?q = "p\<lparr>ps_phase := Stopping cs, ps_app := (ps_app p)\<lparr>ap_cancelled := True\<rparr>\<rparr>"
  let ?r = "?q\<lparr>ps_phase := Stopping cs', ps_ran := ps_ran ?q @ [c], ps_stopped := ps_stopped ?q \<or> is_grpc c\<rparr>"
  have s: "proc_step ?E ?S ?D p (Signal SIGINT) ?q" using p(2) by (intro proc_step.signalled) (simp_all add: notified_def)
  have t: "proc_step ?E ?S ?D ?q (CleanUp c) ?r"
    using boots_with_all(2) [OF b, of c] c by (intro proc_step.clean_up) (simp_all add: grpc_no)
  have r: "proc_run ?E ?S ?D (cmd_Run (ServerCommand nothing_given))
      (([Boot, Serve, Call, Notify] @ [Signal SIGINT]) @ [CleanUp c]) ?r"
    by (rule run_on [OF run_on [OF p(1) run_one [OF s]] run_one [OF t]])
  from calls_keep_resources [OF r, of c] p(3) have "\<not> ps_stopped ?r" by simp
  with r p(3) show ?thesis by (intro exI [of _ "([Boot, Serve, Call, Notify] @ [Signal SIGINT]) @ [CleanUp c]"] exI [of _ ?r] exI [of _ c]) simp
qed

section \<open>What does not end a process\<close>

lemma waits_step:
  assumes "proc_step env senv d p ev q" "ps_phase p = Waiting_signal cs" "\<forall>s. ev \<noteq> Signal s" "\<forall>m. ev \<noteq> Crash m"
  shows "ps_phase q = Waiting_signal cs \<and> ps_ran q = ps_ran p \<and> (\<forall>e. ps_listen p = Served e \<longrightarrow> ps_listen q = Served e)"
  using assms(1) by (cases rule: proc_stepE) (use assms(2-) in simp_all)

text \<open>
  C24. A process that waits for a signal does not notice the end of its gRPC listener:
  whatever Listen returned, without a signal or a panic it goes on waiting, serves no new
  connection, calls none of its clean-ups and so stays registered in Consul.
\<close>

theorem listener_end_unnoticed:
  assumes "proc_run env senv d (cmd_Run (ServerCommand g)) pre p" "ps_phase p = Waiting_signal cs"
    and "proc_step env senv d p (ServeReturns e) p1" "proc_run env senv d p1 evs q"
    and "\<forall>s. Signal s \<notin> set evs" "\<forall>m. Crash m \<notin> set evs"
  shows "ps_phase q = Waiting_signal cs \<and> ps_listen q = Served e \<and> ps_ran q = [] \<and>
    List.map cleanup_no cs = [6, 5, 4, 3, 2, 1, 0]"
proof -
  have l: "boots_with env senv (load_config g) d cs" "ps_ran p = []"
    using run_life [OF assms(1) launched_life] assms(2) by (simp_all add: life_def)
  have p1: "ps_phase p1 = Waiting_signal cs \<and> ps_listen p1 = Served e \<and> ps_ran p1 = []"
    using assms(3) by (cases rule: proc_stepE) (use assms(2) l(2) in simp_all)
  have "ps_phase q = Waiting_signal cs \<and> ps_listen q = Served e \<and> ps_ran q = []"
    using assms(4-6) p1
  proof (induction rule: proc_run.induct)
    case (more evs p2 ev q)
    then have "\<forall>s. ev \<noteq> Signal s" "\<forall>m. ev \<noteq> Crash m" by auto
    with waits_step [OF more.hyps(2), of cs] more show ?case by simp
  qed simp
  with boots_with_all(1) [OF l(1)] show ?thesis by simp
qed

theorem listener_end_unnoticed_witness:
  "\<exists>evs q cs. proc_run demo_app_env demo_svc_env crashed_db (cmd_Run (ServerCommand nothing_given)) evs q \<and>
     ServeReturns (Some EOF) \<in> set evs \<and> ps_phase q = Waiting_signal cs \<and> length cs = 7"
proof -
  let ?E = demo_app_env and ?S = demo_svc_env and ?D = crashed_db
  obtain p cs where p: "proc_run ?E ?S ?D (cmd_Run (ServerCommand nothing_given)) [Boot, Serve, Call, Notify] p"
    "ps_phase p = Waiting_signal cs" "ps_calls p = 1" "ps_listen p = Serving" using demo_life by blast
  let ?p1 = "p\<lparr>ps_listen := Served (Some EOF)\<rparr>" let ?q = "?p1\<lparr>ps_calls := 0\<rparr>"
  have s: "proc_step ?E ?S ?D p (ServeReturns (Some EOF)) ?p1" using p by (intro proc_step.serve_returns) simp_all
  have t: "proc_step ?E ?S ?D ?p1 Answer ?q" using p by (intro proc_step.answer) simp_all
  from listener_end_unnoticed [OF p(1,2) s run_one [OF t]]
  have "ps_phase ?q = Waiting_signal cs" "List.map cleanup_no cs = [6, 5, 4, 3, 2, 1, 0]" by simp_all
  moreover have "length cs = length (List.map cleanup_no cs)" by simp
  ultimately have "ps_phase ?q = Waiting_signal cs" "length cs = 7" by simp_all
  moreover have "proc_run ?E ?S ?D (cmd_Run (ServerCommand nothing_given))
      (([Boot, Serve, Call, Notify] @ [ServeReturns (Some EOF)]) @ [Answer]) ?q"
    by (rule run_on [OF run_on [OF p(1) run_one [OF s]] run_one [OF t]])
  ultimately show ?thesis
    by (intro exI [of _ "([Boot, Serve, Call, Notify] @ [ServeReturns (Some EOF)]) @ [Answer]"] exI [of _ ?q] exI [of _ cs]) simp
qed

text \<open>While calls are left and none is answered, the server's clean-up is not passed.\<close>

definition held_up :: "proc \<Rightarrow> bool" where
  "held_up p \<longleftrightarrow> 0 < ps_calls p \<and> (\<exists>cs. ps_phase p = Stopping cs \<and> (\<exists>c \<in> set cs. is_grpc c)) \<and>
     (\<forall>cs c. ps_phase p = Stopping cs \<longrightarrow> c \<in> set cs \<longrightarrow> run_cleanup c = Returns ())"

lemma held_up_step:
  assumes "proc_step env senv d p ev q" "held_up p" "ev \<noteq> Answer" "\<forall>m. ev \<noteq> Crash m" "\<forall>s. ev = Signal s \<longrightarrow> notified s"
  shows "held_up q"
  using assms(1) by (cases rule: proc_stepE) (use assms(2-) in \<open>auto simp: held_up_def\<close>)

text \<open>
  C23. A process that was asked to stop ends properly once the calls being handled are
  answered, and only then: as long as none of them is, it does not end, however often it is
  interrupted again.
\<close>

theorem stop_waits_for_calls:
  assumes "proc_run env senv d (cmd_Run (ServerCommand g)) pre p" "ps_phase p = Stopping cs" "0 < ps_calls p"
  shows "(\<exists>q. proc_run env senv d p (replicate (ps_calls p) Answer @ List.map CleanUp cs @ [Return]) q \<and>
      ps_phase q = Gone (Finished None)) \<and>
    (\<forall>evs q. proc_run env senv d p evs q \<longrightarrow> Answer \<notin> set evs \<longrightarrow> (\<forall>m. Crash m \<notin> set evs) \<longrightarrow>
      (\<forall>s. Signal s \<in> set evs \<longrightarrow> notified s) \<longrightarrow> alive (ps_phase q))"
proof -
  have l: "boots_with env senv (load_config g) d (ps_ran p @ cs)" "\<not> (\<exists>c \<in> set (ps_ran p). is_grpc c)"
    using run_life [OF assms(1) launched_life] assms(2,3) by (auto simp: life_def)
  have r: "\<forall>c \<in> set cs. run_cleanup c = Returns ()" using boots_with_all(2) [OF l(1)] by simp
  from stops [of "p\<lparr>ps_calls := 0\<rparr>" cs env senv d] assms(2) r obtain q where
    "proc_run env senv d (p\<lparr>ps_calls := 0\<rparr>) (List.map CleanUp cs @ [Return]) q" "ps_phase q = Gone (Finished None)"
    by auto
  with run_on [OF answers [of p env senv d]] assms(2)
  have A: "\<exists>q. proc_run env senv d p (replicate (ps_calls p) Answer @ List.map CleanUp cs @ [Return]) q \<and>
      ps_phase q = Gone (Finished None)" by auto
  have "3 \<in> set (List.map cleanup_no (ps_ran p @ cs))" unfolding boots_with_all(1) [OF l(1)] by simp
  then have h: "held_up p" using assms(2,3) l(2) r by (auto simp: held_up_def grpc_no)
  have "held_up q" if "proc_run env senv d p evs q" "Answer \<notin> set evs" "\<forall>m. Crash m \<notin> set evs"
    "\<forall>s. Signal s \<in> set evs \<longrightarrow> notified s" for evs q
    using that h
  proof (induction rule: proc_run.induct)
    case (more evs p2 ev q)
    then have "held_up p2" "ev \<noteq> Answer" "\<forall>m. ev \<noteq> Crash m" "\<forall>s. ev = Signal s \<longrightarrow> notified s" by auto
    from held_up_step [OF more.hyps(2) this] show ?case .
  qed simp
  with A show ?thesis by (fastforce simp: held_up_def)
qed

theorem stop_waits_for_calls_witness:
  "\<exists>pre p. proc_run demo_app_env demo_svc_env crashed_db (cmd_Run (ServerCommand nothing_given)) pre p \<and> ps_calls p = 1 \<and>
     (\<forall>evs q. proc_run demo_app_env demo_svc_env crashed_db p evs q \<longrightarrow> set evs \<subseteq> {Signal SIGINT, Signal SIGTERM} \<longrightarrow>
       alive (ps_phase q))"
proof -
  let ?E = demo_app_env and ?S = demo_svc_env and ?D = crashed_db
  obtain p cs where p: "proc_run ?E ?S ?D (cmd_Run (ServerCommand nothing_given)) [Boot, Serve, Call, Notify] p"
    "ps_phase p = Waiting_signal cs" "ps_calls p = 1" using demo_life by blast
  let ?q = "p\<lparr>ps_phase := Stopping cs, ps_app := (ps_app p)\<lparr>ap_cancelled := True\<rparr>\<rparr>"
  have s: "proc_step ?E ?S ?D p (Signal SIGINT) ?q" using p(2) by (intro proc_step.signalled) (simp_all add: notified_def)
  note r = run_on [OF p(1) run_one [OF s]]
  have q: "ps_phase ?q = Stopping cs" "0 < ps_calls ?q" using p(3) by simp_all
  have "alive (ps_phase z)" if "proc_run ?E ?S ?D ?q evs z" "set evs \<subseteq> {Signal SIGINT, Signal SIGTERM}" for evs z
    using conjunct2 [OF stop_waits_for_calls [OF r q]] that by (fastforce simp: notified_def)
  with r p(3) show ?thesis by (intro exI [of _ "[Boot, Serve, Call, Notify] @ [Signal SIGINT]"] exI [of _ ?q]) simp
qed

end
