(* ===== verification/Wiring.thy ===== *)
theory Wiring
  imports Process
begin

text \<open>
  \<^verbatim>\<open>cmd/wire.go\<close>: the provider sets, with the parameters each provider declares, and the order
  they impose. A depth-first walk from the fields that are wanted gives an order in which
  everything is made after what it needs; the start-up code in \<^verbatim>\<open>cmd/wire_gen.go\<close> is in that order,
  and its clean-ups in the reverse one.
\<close>

section \<open>Provider sets\<close>

datatype component =
    C_ctx | C_cfg | C_log | C_store | C_grpcSrv | C_cluster | C_webrtc | C_auth | C_storage
  | C_sessions | C_temp | C_jobs | C_uploader | C_transcoding | C_recorder | C_handler

record provider =
  pv_gives :: component
  pv_needs :: "component list"

definition wireAppResourceSet :: "provider list" where
  "wireAppResourceSet =
     [\<lparr>pv_gives = C_log, pv_needs = [C_cfg]\<rparr>,
      \<lparr>pv_gives = C_grpcSrv, pv_needs = [C_cfg, C_log, C_auth]\<rparr>,
      \<lparr>pv_gives = C_cluster, pv_needs = [C_cfg, C_grpcSrv, C_log]\<rparr>,
      \<lparr>pv_gives = C_store, pv_needs = [C_ctx, C_log, C_cfg]\<rparr>,
      \<lparr>pv_gives = C_webrtc, pv_needs = [C_log, C_cfg]\<rparr>,
      \<lparr>pv_gives = C_auth, pv_needs = [C_cfg, C_log]\<rparr>,
      \<lparr>pv_gives = C_storage, pv_needs = [C_cfg, C_log]\<rparr>]"

definition wireAppHandlersSet :: "provider list" where
  "wireAppHandlersSet =
     [\<lparr>pv_gives = C_sessions, pv_needs = [C_log]\<rparr>,
      \<lparr>pv_gives = C_jobs, pv_needs = [C_ctx, C_log, C_cfg, C_store]\<rparr>,
      \<lparr>pv_gives = C_temp, pv_needs = [C_cfg]\<rparr>,
      \<lparr>pv_gives = C_uploader, pv_needs = [C_ctx, C_cfg, C_log, C_jobs, C_temp, C_storage]\<rparr>,
      \<lparr>pv_gives = C_transcoding, pv_needs = [C_ctx, C_cfg, C_log, C_jobs, C_temp, C_uploader]\<rparr>,
      \<lparr>pv_gives = C_recorder, pv_needs = [C_log, C_webrtc, C_sessions, C_temp, C_transcoding]\<rparr>,
      \<lparr>pv_gives = C_handler, pv_needs = [C_recorder, C_grpcSrv, C_log]\<rparr>]"

text \<open>The parameters of the two injectors, and the fields of the structs they fill.\<close>

definition resource_args :: "component list" where "resource_args = [C_ctx, C_cfg]"

definition resource_fields :: "component list" where
  "resource_fields = [C_log, C_store, C_grpcSrv, C_cluster, C_webrtc, C_auth, C_storage, C_cfg]"

definition handler_args :: "component list" where
  "handler_args = [C_ctx, C_log, C_grpcSrv, C_webrtc, C_storage, C_cfg, C_store]"

definition handler_fields :: "component list" where "handler_fields = [C_handler]"

section \<open>The walk\<close>

definition find_provider :: "provider list \<Rightarrow> component \<Rightarrow> provider option" where
  "find_provider ps c = List.find (\<lambda>p. pv_gives p = c) ps"

text \<open>
  \<open>None\<close>: something has no provider, or needs itself; a chain of needs longer than the number of
  providers has a repetition, which is why that depth is enough.
\<close>

fun make :: "provider list \<Rightarrow> nat \<Rightarrow> component list \<Rightarrow> component list \<Rightarrow> component list option" where
  "make ps n [] made = Some made"
| "make ps 0 (c # cs) made = (if c \<in> set made then make ps 0 cs made else None)"
| "make ps (Suc n) (c # cs) made =
     (if c \<in> set made then make ps (Suc n) cs made
      else (case find_provider ps c of
              None \<Rightarrow> None
            | Some p \<Rightarrow>
                (case make ps n (pv_needs p) made of
                   None \<Rightarrow> None
                 | Some d \<Rightarrow> if c \<in> set d then None else make ps (Suc n) cs (d @ [c]))))"

definition plan :: "provider list \<Rightarrow> component list \<Rightarrow> component list \<Rightarrow> component list option" where
  "plan ps args wanted = map_option (drop (length args)) (make ps (length ps) wanted args)"

text \<open>Everything comes once, and after what it needs.\<close>

definition ordered :: "provider list \<Rightarrow> component list \<Rightarrow> component list \<Rightarrow> bool" where
  "ordered ps args xs \<longleftrightarrow> distinct xs \<and>
     (\<forall>ys c zs. xs = ys @ c # zs \<longrightarrow> c \<in> set args \<or>
        (\<exists>p. find_provider ps c = Some p \<and> set (pv_needs p) \<subseteq> set ys))"

lemma ordered_args: "distinct args \<Longrightarrow> ordered ps args args"
  by (auto simp: ordered_def)

lemma ordered_snoc:
  assumes "ordered ps args d" "c \<notin> set d" "find_provider ps c = Some p" "set (pv_needs p) \<subseteq> set d"
  shows "ordered ps args (d @ [c])"
  using assms by (auto simp: ordered_def append_eq_append_conv2 Cons_eq_append_conv append_eq_Cons_conv)

lemma make_ordered:
  "make ps n cs made = Some d \<Longrightarrow> ordered ps args made \<Longrightarrow> ordered ps args d \<and> set cs \<subseteq> set d \<and> (\<exists>new. d = made @ new)"
proof (induction ps n cs made arbitrary: d rule: make.induct)
  case (3 ps n c cs made)
  show ?case
  proof (cases "c \<in> set made")
    case True
    with 3 show ?thesis by fastforce
  next
    case False
    with "3.prems"(1) obtain p e where p: "find_provider ps c = Some p" "make ps n (pv_needs p) made = Some e"
      "c \<notin> set e" "make ps (Suc n) cs (e @ [c]) = Some d" by (auto split: option.splits if_splits)
    from "3.IH"(2) [OF False p(1,2) "3.prems"(2)] have e: "ordered ps args e" "set (pv_needs p) \<subseteq> set e"
      "\<exists>new. e = made @ new" by blast+
    from "3.IH"(3) [OF False p(1,2,3,4) ordered_snoc [OF e(1) p(3,1) e(2)]] e(3) show ?thesis by auto
  qed
qed (auto split: if_splits)

text \<open>In any order of this kind, taking things down from the end never breaks a need.\<close>

lemma ordered_prefix:
  assumes "ordered ps args (pre @ post)" "c \<in> set pre" "c \<notin> set args" "find_provider ps c = Some p" "y \<in> set (pv_needs p)"
  shows "y \<notin> set post"
proof -
  obtain ys zs where pre: "pre = ys @ c # zs" using assms(2) by (meson split_list)
  then have "pre @ post = ys @ c # (zs @ post)" by simp
  with assms(1,3,4) have "set (pv_needs p) \<subseteq> set ys" unfolding ordered_def by fastforce
  with assms(1,5) pre show ?thesis by (auto simp: ordered_def)
qed

section \<open>The generated code\<close>

text \<open>The resource a clean-up takes down.\<close>

fun component_of :: "cleanup_fun \<Rightarrow> component" where
  "component_of (LogExit l) = C_log"
| "component_of (CloseSQL s) = C_store"
| "component_of (StopAuth a) = C_auth"
| "component_of (ShutdownGrpc s) = C_grpcSrv"
| "component_of (StopCluster c) = C_cluster"
| "component_of WebrtcExit = C_webrtc"
| "component_of (StopStorage s) = C_storage"

definition resource_order :: "component list" where
  "resource_order = [C_log, C_store, C_auth, C_grpcSrv, C_cluster, C_webrtc, C_storage]"

lemma resource_plan: "plan wireAppResourceSet resource_args resource_fields = Some resource_order"
  by code_simp

lemma component_no: "component_of c = resource_order ! cleanup_no c"
  by (cases c) (simp_all add: resource_order_def)

lemma components_upto:
  assumes "List.map cleanup_no cs = rev [0..<k]" "k \<le> 7"
  shows "rev (List.map component_of cs) = take k resource_order"
proof -
  have l: "length cs = k" using arg_cong [OF assms(1), of length] by simp
  have "List.map component_of cs = List.map (nth resource_order) (List.map cleanup_no cs)"
    by (simp add: component_no)
  also have "\<dots> = rev (List.map (nth resource_order) [0..<k])" by (simp only: assms(1) rev_map)
  finally have "rev (List.map component_of cs) = List.map (nth resource_order) [0..<k]" by simp
  moreover have "k \<le> length resource_order" using assms(2) by (simp add: resource_order_def)
  ultimately show ?thesis by (simp add: list_eq_iff_nth_eq)
qed

lemma handler_plan:
  "plan wireAppHandlersSet handler_args handler_fields =
     Some [C_sessions, C_temp, C_jobs, C_uploader, C_transcoding, C_recorder, C_handler]"
  by code_simp

text \<open>
  C22. The start-up code makes the resources in the order of the depth-first walk over the
  provider set of wire.go, and takes them down in the reverse one: all of them at a shutdown,
  those that were made when a later one fails.
\<close>

theorem startup_follows_plan:
  "case initAppResources env cfg of
     Ready r cs \<Rightarrow> plan wireAppResourceSet resource_args resource_fields = Some (rev (List.map component_of cs))
   | Failed e cs \<Rightarrow> \<exists>k < 7. map_option (take k) (plan wireAppResourceSet resource_args resource_fields) =
       Some (rev (List.map component_of cs))
   | _ \<Rightarrow> True"
proof (cases "initAppResources env cfg")
  case (Failed e cs)
  with cleanups_unwound [of env cfg] obtain k where "k < 7" "List.map cleanup_no cs = rev [0..<k]" by auto
  with components_upto [of cs k] Failed show ?thesis by (auto simp: resource_plan)
next
  case (Ready r cs)
  with cleanups_unwound [of env cfg] have "List.map cleanup_no cs = rev [0..<7]" by simp
  from components_upto [OF this] Ready show ?thesis by (simp add: resource_plan resource_order_def)
qed simp_all

definition needs_of :: "component \<Rightarrow> component list" where
  "needs_of c = (case find_provider wireAppResourceSet c of None \<Rightarrow> [] | Some p \<Rightarrow> pv_needs p)"

lemma resources_ordered: "ordered wireAppResourceSet resource_args (resource_args @ resource_order)"
proof -
  obtain d where d: "make wireAppResourceSet (length wireAppResourceSet) resource_fields resource_args = Some d"
    "resource_order = drop (length resource_args) d" using resource_plan by (auto simp: plan_def)
  have "distinct resource_args" by (simp add: resource_args_def)
  from make_ordered [OF d(1) ordered_args [OF this]] obtain new where
    "ordered wireAppResourceSet resource_args d" "d = resource_args @ new" by blast
  with d(2) show ?thesis by simp
qed

text \<open>
  C21. While the process lives, a resource that is still open never depends on one that was
  already taken down: its provider's parameters, as wire.go binds them, are all still open.
\<close>

theorem dependencies_outlive:
  assumes "proc_run env senv d (cmd_Run (ServerCommand g)) evs p" "alive (ps_phase p)"
    and "x \<in> set resource_order" "x \<notin> component_of ` set (ps_ran p)" "y \<in> set (needs_of x)"
  shows "y \<notin> component_of ` set (ps_ran p)"
proof -
  have l: "life env senv (load_config g) d evs p" using run_life [OF assms(1) launched_life] by simp
  show ?thesis
  proof (cases "ps_phase p")
    case (Stopping cs)
    with l have "boots_with env senv (load_config g) d (ps_ran p @ cs)" by (simp add: life_def)
    from boots_with_all(1) [OF this] have "List.map cleanup_no (ps_ran p @ cs) = rev [0..<7]" by (simp add: upt_rec)
    from components_upto [OF this]
    have o: "resource_order = rev (List.map component_of cs) @ rev (List.map component_of (ps_ran p))"
      by (simp add: resource_order_def)
    have x: "x \<in> set (resource_args @ rev (List.map component_of cs))"
      using assms(3,4) unfolding o set_append set_rev set_map by blast
    have "set resource_order \<inter> set resource_args = {}" by (simp add: resource_order_def resource_args_def)
    with assms(3) have na: "x \<notin> set resource_args" by blast
    have "find_provider wireAppResourceSet x \<noteq> None" using assms(5) unfolding needs_of_def by (metis empty_iff list.set(1) option.simps(4))
    then obtain pv where pv: "find_provider wireAppResourceSet x = Some pv" by blast
    have y: "y \<in> set (pv_needs pv)" using assms(5) unfolding needs_of_def pv by simp
    have r: "ordered wireAppResourceSet resource_args
        ((resource_args @ rev (List.map component_of cs)) @ rev (List.map component_of (ps_ran p)))"
      using resources_ordered unfolding o append_assoc .
    from ordered_prefix [OF r x na pv y] show ?thesis by simp
  qed (use l assms(2) in \<open>simp_all add: life_def\<close>)
qed

theorem dependencies_outlive_witness:
  "\<exists>evs p. proc_run demo_app_env demo_svc_env crashed_db (cmd_Run (ServerCommand nothing_given)) evs p \<and>
     C_cluster \<in> component_of ` set (ps_ran p) \<and> C_auth \<notin> component_of ` set (ps_ran p)"
proof -
  let ?E = demo_app_env and ?S = demo_svc_env and ?D = crashed_db
  obtain p cs where p: "proc_run ?E ?S ?D (cmd_Run (ServerCommand nothing_given)) [Boot, Serve, Call, Notify] p"
    "ps_phase p = Waiting_signal cs" "ps_ran p = []" using demo_life by blast
  have b: "boots_with ?E ?S (load_config nothing_given) ?D cs"
    using run_life [OF p(1) launched_life] p(2) by (simp add: life_def)
  obtain a1 a2 a3 ys where cs: "cs = [a1, a2, a3] @ ys" "cleanup_no a1 = 6" "cleanup_no a2 = 5" "cleanup_no a3 = 4"
    using boots_with_all(1) [OF b] by auto
  let ?q = "p\<lparr>ps_phase := Stopping cs, ps_app := (ps_app p)\<lparr>ap_cancelled := True\<rparr>\<rparr>"
  have s: "proc_step ?E ?S ?D p (Signal SIGINT) ?q" using p(2) by (intro proc_step.signalled) (simp_all add: notified_def)
  have "\<forall>c \<in> set [a1, a2, a3]. run_cleanup c = Returns () \<and> \<not> is_grpc c"
    using boots_with_all(2) [OF b] cs by (simp add: grpc_no)
  from cleans [of ?q "[a1, a2, a3]" ys ?E ?S ?D, OF _ this] cs(1) p(3) obtain z where
    z: "proc_run ?E ?S ?D ?q (List.map CleanUp [a1, a2, a3]) z" "ps_phase z = Stopping ys" "ps_ran z = [a1, a2, a3]" by auto
  note r = run_on [OF run_on [OF p(1) run_one [OF s]] z(1)]
  have g: "C_grpcSrv \<notin> component_of ` set (ps_ran z)"
    using cs z(3) by (auto simp: component_no resource_order_def)
  have "C_auth \<notin> component_of ` set (ps_ran z)"
    by (rule dependencies_outlive [OF r, of C_grpcSrv])
       (use z(2) g in \<open>simp_all add: resource_order_def needs_of_def find_provider_def wireAppResourceSet_def\<close>)
  moreover have "C_cluster \<in> component_of ` set (ps_ran z)"
    using cs(4) z(3) by (simp add: component_no resource_order_def)
  ultimately show ?thesis using r by (intro exI [of _ "([Boot, Serve, Call, Notify] @ [Signal SIGINT]) @ List.map CleanUp [a1, a2, a3]"] exI [of _ z] conjI)
qed

end
