(* ===== verification/Wav_Writer.thy ===== *)
theory Wav_Writer
  imports Prelude
begin

text \<open>
  \<^verbatim>\<open>internal/service/wav.go\<close>: PCM samples in a WAV container. The file is any
  \<open>io.WriteCloser\<close>; here it is the bytes written so far and, for each call, whether it is cut
  short and with which error.
\<close>

unbundle bit_operations_syntax

record sink =
  out :: bytes
  snk_calls :: nat
  snk_fault :: "nat \<Rightarrow> (nat \<times> go_error) option"

definition sink_Write :: "bytes \<Rightarrow> sink \<Rightarrow> (nat \<times> go_error option) \<times> sink" where
  "sink_Write bs s =
     (let s1 = s\<lparr>snk_calls := Suc (snk_calls s)\<rparr>
      in case snk_fault s (snk_calls s) of
           None \<Rightarrow> ((length bs, None), s1\<lparr>out := out s @ bs\<rparr>)
         | Some (n, e) \<Rightarrow> ((min n (length bs), Some e), s1\<lparr>out := out s @ take n bs\<rparr>))"

section \<open>The header\<close>

definition ascii :: "string \<Rightarrow> bytes" where
  "ascii s = List.map of_char s"

definition le16 :: "u16 \<Rightarrow> bytes" where
  "le16 w = [ucast w, ucast (drop_bit 8 w)]"

definition le32 :: "u32 \<Rightarrow> bytes" where
  "le32 w = [ucast w, ucast (drop_bit 8 w), ucast (drop_bit 16 w), ucast (drop_bit 24 w)]"

text \<open>\<open>copy(header[off:], bs)\<close> and the \<open>binary.LittleEndian.Put\<close> calls.\<close>

definition put_at :: "nat \<Rightarrow> bytes \<Rightarrow> bytes \<Rightarrow> bytes" where
  "put_at off bs h = take off h @ bs @ drop (off + length bs) h"

record WAVWriter =
  wav_file :: sink
  sampleRate :: int
  channels :: int
  bytesWritten :: u32
  headerWritten :: bool
  finalized :: bool

definition wav_header :: "int \<Rightarrow> int \<Rightarrow> bytes" where
  "wav_header rate chans =
     (let h0 = replicate 44 0;
          h1 = put_at 0 (ascii ''RIFF'') h0;
          h2 = put_at 4 (le32 36) h1;
          h3 = put_at 8 (ascii ''WAVE'') h2;
          h4 = put_at 12 (ascii ''fmt '') h3;
          h5 = put_at 16 (le32 16) h4;
          h6 = put_at 20 (le16 1) h5;
          h7 = put_at 22 (le16 (word_of_int chans)) h6;
          h8 = put_at 24 (le32 (word_of_int rate)) h7;
          h9 = put_at 28 (le32 (word_of_int (i64 (i64 (rate * chans) * 2)))) h8;
          h10 = put_at 32 (le16 (word_of_int (i64 (chans * 2)))) h9;
          h11 = put_at 34 (le16 16) h10;
          h12 = put_at 36 (ascii ''data'') h11
      in put_at 40 (le32 0) h12)"

definition writeHeaderLocked :: "WAVWriter \<Rightarrow> go_error option \<times> WAVWriter" where
  "writeHeaderLocked w =
     (case sink_Write (wav_header (sampleRate w) (channels w)) (wav_file w) of
        ((_, Some e), s) \<Rightarrow> (Some e, w\<lparr>wav_file := s\<rparr>)
      | ((_, None), s) \<Rightarrow> (None, w\<lparr>wav_file := s, headerWritten := True\<rparr>))"

section \<open>The writer\<close>

text \<open>\<open>None\<close> is the nil file.\<close>

definition NewWAVWriter :: "sink option \<Rightarrow> int \<Rightarrow> int \<Rightarrow> WAVWriter res" where
  "NewWAVWriter file rate chans =
     (case file of
        None \<Rightarrow> Inl (Errorf ''nil file provided for WAV writer'')
      | Some f \<Rightarrow>
          (let w = \<lparr>wav_file = f, sampleRate = (if rate \<le> 0 then 8000 else rate),
                    channels = (if chans \<le> 0 then 1 else chans), bytesWritten = 0,
                    headerWritten = False, finalized = False\<rparr>
           in case writeHeaderLocked w of (Some e, _) \<Rightarrow> Inl e | (None, w') \<Rightarrow> Inr w'))"

definition WAV_WriteRTP :: "bytes \<Rightarrow> WAVWriter \<Rightarrow> go_error option \<times> WAVWriter" where
  "WAV_WriteRTP payload w =
     (if payload = [] then (None, w)
      else (case sink_Write payload (wav_file w) of ((_, e), s) \<Rightarrow> (e, w\<lparr>wav_file := s\<rparr>)))"

definition WAV_Write :: "bytes \<Rightarrow> WAVWriter \<Rightarrow> (nat \<times> go_error option) \<times> WAVWriter" where
  "WAV_Write p w =
     (case (if headerWritten w then (None, w) else writeHeaderLocked w) of
        (Some e, w1) \<Rightarrow> ((0, Some e), w1)
      | (None, w1) \<Rightarrow>
          (case sink_Write p (wav_file w1) of
             ((n, e), s) \<Rightarrow> ((n, e), w1\<lparr>wav_file := s, bytesWritten := bytesWritten w1 + of_nat n\<rparr>)))"

section \<open>Reading the header back\<close>

definition rd16 :: "nat \<Rightarrow> bytes \<Rightarrow> u16" where
  "rd16 off bs = ucast (bs ! off) OR push_bit 8 (ucast (bs ! (off + 1)))"

definition rd32 :: "nat \<Rightarrow> bytes \<Rightarrow> u32" where
  "rd32 off bs = ucast (bs ! off) OR push_bit 8 (ucast (bs ! (off + 1))) OR
     push_bit 16 (ucast (bs ! (off + 2))) OR push_bit 24 (ucast (bs ! (off + 3)))"

lemma le16_join: "(ucast (ucast w :: u8) :: u16) OR push_bit 8 (ucast (ucast (drop_bit 8 w) :: u8)) = w"
proof (rule bit_eqI)
  fix n assume "possible_bit TYPE(u16) n"
  then have "n < 16" by simp
  then show "bit ((ucast (ucast w :: u8) :: u16) OR push_bit 8 (ucast (ucast (drop_bit 8 w) :: u8))) n = bit w n"
    by (cases "n < 8") (auto simp: bit_simps)
qed

lemma le32_join:
  "(ucast (ucast w :: u8) :: u32) OR push_bit 8 (ucast (ucast (drop_bit 8 w) :: u8)) OR
   push_bit 16 (ucast (ucast (drop_bit 16 w) :: u8)) OR push_bit 24 (ucast (ucast (drop_bit 24 w) :: u8)) = w"
proof (rule bit_eqI)
  fix n assume "possible_bit TYPE(u32) n"
  then have n: "n < 32" by simp
  consider "n < 8" | "8 \<le> n \<and> n < 16" | "16 \<le> n \<and> n < 24" | "24 \<le> n" by linarith
  then show "bit ((ucast (ucast w :: u8) :: u32) OR push_bit 8 (ucast (ucast (drop_bit 8 w) :: u8)) OR
     push_bit 16 (ucast (ucast (drop_bit 16 w) :: u8)) OR push_bit 24 (ucast (ucast (drop_bit 24 w) :: u8))) n = bit w n"
    using n by cases (auto simp: bit_simps)
qed

lemma le_length [simp]: "length (le16 v) = 2" "length (le32 w) = 4" "length (ascii s) = length s"
  by (simp_all add: le16_def le32_def ascii_def)

lemma put_first: "length bs \<le> n \<Longrightarrow> put_at 0 bs (replicate n 0) = bs @ replicate (n - length bs) 0"
  by (simp add: put_at_def)

lemma put_next:
  "off = length pre \<Longrightarrow> length bs \<le> n \<Longrightarrow>
   put_at off bs (pre @ replicate n 0) = (pre @ bs) @ replicate (n - length bs) 0"
  by (simp add: put_at_def)

lemma wav_header_eq:
  "wav_header rate chans =
     ascii ''RIFF'' @ le32 36 @ ascii ''WAVE'' @ ascii ''fmt '' @ le32 16 @ le16 1 @
     le16 (word_of_int chans) @ le32 (word_of_int rate) @
     le32 (word_of_int (i64 (i64 (rate * chans) * 2))) @ le16 (word_of_int (i64 (chans * 2))) @
     le16 16 @ ascii ''data'' @ le32 0"
  unfolding wav_header_def Let_def
  by (simp add: put_first put_next del: append_assoc)


lemma wav_header_length [simp]: "length (wav_header rate chans) = 44"
  by (simp add: wav_header_eq)

text \<open>What follows an offset in a list whose first part has that length.\<close>

lemma rd_append [simp]:
  "off = length pre \<Longrightarrow> rd16 off (pre @ le16 v @ suf) = v"
  "off = length pre \<Longrightarrow> rd32 off (pre @ le32 w @ suf) = w"
  using le16_join [of v] le32_join [of w]
  by (simp_all add: rd16_def rd32_def le16_def le32_def nth_append)

lemma wav_fields:
  "take 4 (wav_header rate chans) = ascii ''RIFF''"
  "rd32 4 (wav_header rate chans) = 36"
  "rd16 22 (wav_header rate chans) = word_of_int chans"
  "rd32 24 (wav_header rate chans) = word_of_int rate"
  "rd32 28 (wav_header rate chans) = word_of_int (i64 (i64 (rate * chans) * 2))"
  "rd16 32 (wav_header rate chans) = word_of_int (i64 (chans * 2))"
  "rd16 34 (wav_header rate chans) = 16"
  "rd32 40 (wav_header rate chans) = 0"
proof -
  let ?a = "ascii ''RIFF''" and ?b = "ascii ''WAVE'' @ ascii ''fmt '' @ le32 16 @ le16 1"
    and ?c = "le16 (word_of_int chans)" and ?d = "le32 (word_of_int rate)"
    and ?e = "le32 (word_of_int (i64 (i64 (rate * chans) * 2)))" and ?f = "le16 (word_of_int (i64 (chans * 2)))"
  have h: "wav_header rate chans = ?a @ le32 36 @ ?b @ ?c @ ?d @ ?e @ ?f @ le16 16 @ ascii ''data'' @ le32 0"
    by (simp add: wav_header_eq)
  show "take 4 (wav_header rate chans) = ?a" by (simp add: h)
  show "rd32 4 (wav_header rate chans) = 36" unfolding h by (rule rd_append(2)) simp
  show "rd16 22 (wav_header rate chans) = word_of_int chans"
    unfolding h using rd_append(1) [of 22 "?a @ le32 36 @ ?b"] by simp
  show "rd32 24 (wav_header rate chans) = word_of_int rate"
    unfolding h using rd_append(2) [of 24 "?a @ le32 36 @ ?b @ ?c"] by simp
  show "rd32 28 (wav_header rate chans) = word_of_int (i64 (i64 (rate * chans) * 2))"
    unfolding h using rd_append(2) [of 28 "?a @ le32 36 @ ?b @ ?c @ ?d"] by simp
  show "rd16 32 (wav_header rate chans) = word_of_int (i64 (chans * 2))"
    unfolding h using rd_append(1) [of 32 "?a @ le32 36 @ ?b @ ?c @ ?d @ ?e"] by simp
  show "rd16 34 (wav_header rate chans) = 16"
    unfolding h using rd_append(1) [of 34 "?a @ le32 36 @ ?b @ ?c @ ?d @ ?e @ ?f"] by simp
  show "rd32 40 (wav_header rate chans) = 0"
    unfolding h using rd_append(2) [of 40 "?a @ le32 36 @ ?b @ ?c @ ?d @ ?e @ ?f @ le16 16 @ ascii ''data''" 0 "[]"]
    by simp
qed

section \<open>A writer's life\<close>

datatype wav_op = W bytes | P bytes

fun wav_run :: "wav_op list \<Rightarrow> WAVWriter \<Rightarrow> WAVWriter" where
  "wav_run [] w = w"
| "wav_run (W bs # ops) w = wav_run ops (snd (WAV_Write bs w))"
| "wav_run (P bs # ops) w = wav_run ops (snd (WAV_WriteRTP bs w))"

fun op_bytes :: "wav_op \<Rightarrow> bytes" where
  "op_bytes (W bs) = bs"
| "op_bytes (P bs) = bs"

fun counted :: "wav_op \<Rightarrow> nat" where
  "counted (W bs) = length bs"
| "counted (P bs) = 0"

definition sound_sink :: "sink \<Rightarrow> bool" where
  "sound_sink s \<longleftrightarrow> snk_fault s = (\<lambda>_. None)"

lemma wav_run_out:
  "\<lbrakk>sound_sink (wav_file w); headerWritten w\<rbrakk> \<Longrightarrow>
   out (wav_file (wav_run ops w)) = out (wav_file w) @ concat (List.map op_bytes ops) \<and>
   bytesWritten (wav_run ops w) = bytesWritten w + of_nat (sum_list (List.map counted ops)) \<and>
   finalized (wav_run ops w) = finalized w"
proof (induction ops w rule: wav_run.induct)
  case (2 bs ops w)
  then show ?case
    by (simp add: WAV_Write_def sink_Write_def sound_sink_def Let_def ac_simps)
next
  case (3 bs ops w)
  then show ?case
    by (cases "bs = []") (simp_all add: WAV_WriteRTP_def sink_Write_def sound_sink_def Let_def)
qed simp

lemma NewWAVWriter_ok:
  assumes "sound_sink f" and "out f = []"
  shows "\<exists>w. NewWAVWriter (Some f) rate chans = Inr w \<and> sound_sink (wav_file w) \<and> headerWritten w \<and>
    bytesWritten w = 0 \<and> \<not> finalized w \<and>
    out (wav_file w) = wav_header (if rate \<le> 0 then 8000 else rate) (if chans \<le> 0 then 1 else chans)"
  using assms
  by (simp add: NewWAVWriter_def writeHeaderLocked_def sink_Write_def sound_sink_def Let_def)

text \<open>
  The file is one header followed by the payloads, in order, and the header says what was asked
  for. The two sizes in it are the placeholders of an empty file, whatever was written.
\<close>

text \<open>
  A WAV file holds the 44-byte header with the sample rate and the channels, followed by every
  payload in order; but the two sizes in the header stay at their placeholders and payloads of
  RTP packets are not counted.
\<close>

theorem wav_file_contents:
  assumes "sound_sink f" and "out f = []" and "NewWAVWriter (Some f) rate chans = Inr w"
    and "0 < rate" "rate < 2 ^ 32" "0 < chans" "chans < 2 ^ 16"
  shows "out (wav_file (wav_run ops w)) = wav_header rate chans @ concat (List.map op_bytes ops) \<and>
    uint (rd32 24 (out (wav_file (wav_run ops w)))) = rate \<and>
    uint (rd16 22 (out (wav_file (wav_run ops w)))) = chans \<and>
    rd32 4 (out (wav_file (wav_run ops w))) = 36 \<and> rd32 40 (out (wav_file (wav_run ops w))) = 0 \<and>
    bytesWritten (wav_run ops w) = of_nat (sum_list (List.map counted ops))"
proof -
  obtain w' where w': "NewWAVWriter (Some f) rate chans = Inr w'" "sound_sink (wav_file w')" "headerWritten w'"
    "bytesWritten w' = 0" "out (wav_file w') = wav_header rate chans"
    using NewWAVWriter_ok [OF assms(1,2), of rate chans] assms(4,6) by auto
  with assms(3) have "w' = w" by simp
  with w' wav_run_out [of w ops] have o:
    "out (wav_file (wav_run ops w)) = wav_header rate chans @ concat (List.map op_bytes ops)"
    "bytesWritten (wav_run ops w) = of_nat (sum_list (List.map counted ops))" by simp_all
  have rd: "rd32 off (h @ t) = rd32 off h" "rd16 off (h @ t) = rd16 off h" if "off + 4 \<le> length h" for off h t
    using that by (simp_all add: rd32_def rd16_def nth_append)
  have u: "uint (word_of_int rate :: u32) = rate" "uint (word_of_int chans :: u16) = chans"
    using assms(4-7) by (simp_all add: uint_word_of_int)
  show ?thesis using o u wav_fields [of rate chans] by (simp add: rd)
qed

theorem wav_file_contents_witness:
  "\<exists>w. NewWAVWriter (Some \<lparr>out = [], snk_calls = 0, snk_fault = (\<lambda>_. None)\<rparr>) 16000 2 = Inr w \<and>
     rd32 40 (out (wav_file (wav_run [W [1, 2], P [3, 4]] w))) = 0 \<and>
     bytesWritten (wav_run [W [1, 2], P [3, 4]] w) = 2"
proof -
  let ?f = "\<lparr>out = [], snk_calls = 0, snk_fault = (\<lambda>_. None)\<rparr>"
  have f: "sound_sink ?f" "out ?f = []" by (simp_all add: sound_sink_def)
  obtain w where w: "NewWAVWriter (Some ?f) 16000 2 = Inr w" using NewWAVWriter_ok [OF f] by blast
  from wav_file_contents [OF f w, of "[W [1, 2], P [3, 4]]"] w show ?thesis by auto
qed

end
