(* ===== verification/Resolver.thy ===== *)
theory Resolver
  imports Go_Strings "HOL-Library.Char_ord" "HOL-Library.List_Lexorder"
begin

text \<open>
  \<^verbatim>\<open>infra/resolver\<close>: targets, the Consul-backed resolver and the round-robin picker. Parsing of
  URLs and of query parameters, the Consul client and gRPC's balancer are outside the
  repository: their results are arguments.
\<close>

section \<open>target.go\<close>

record target =
  tg_Addr :: string
  tg_User :: string
  tg_Password :: string
  tg_Service :: string
  tg_Wait :: int
  tg_Timeout :: int
  tg_MaxBackoff :: int
  tg_Tag :: string
  tg_Near :: string
  tg_Limit :: int
  tg_Healthy :: bool
  tg_TLSInsecure :: bool
  tg_Token :: string
  tg_Dc :: string
  tg_AllowStale :: bool
  tg_RequireConsistent :: bool

definition zero_target :: target where
  "zero_target = \<lparr>tg_Addr = [], tg_User = [], tg_Password = [], tg_Service = [], tg_Wait = 0,
     tg_Timeout = 0, tg_MaxBackoff = 0, tg_Tag = [], tg_Near = [], tg_Limit = 0, tg_Healthy = False,
     tg_TLSInsecure = False, tg_Token = [], tg_Dc = [], tg_AllowStale = False,
     tg_RequireConsistent = False\<rparr>"

definition bool_text :: "bool \<Rightarrow> string" where
  "bool_text b = (if b then ''true'' else ''false'')"

definition target_String :: "target \<Rightarrow> string" where
  "target_String t = ''service='' @ [CHR 0x27] @ tg_Service t @ [CHR 0x27] @ '' healthy='' @ [CHR 0x27] @
     bool_text (tg_Healthy t) @ [CHR 0x27] @ '' tag='' @ [CHR 0x27] @ tg_Tag t @ [CHR 0x27]"

record 'q raw_url =
  ru_Scheme :: string
  ru_Username :: string
  ru_Password :: "string option"
  ru_Host :: string
  ru_Path :: string
  ru_Query :: 'q

definition schemeName :: string where "schemeName = ''wbt''"

text \<open>\<open>form_Decode\<close> fills the fields that have a form tag.\<close>

definition parseURL ::
  "(string \<Rightarrow> 'q raw_url res) \<Rightarrow> ('q \<Rightarrow> target \<Rightarrow> target res) \<Rightarrow> string \<Rightarrow> target res" where
  "parseURL url_Parse form_Decode u =
     (case url_Parse u of
        Inl e \<Rightarrow> Inl (Errorf ''malformed URL'')
      | Inr rawURL \<Rightarrow>
          if ru_Scheme rawURL \<noteq> schemeName \<or> ru_Host rawURL = [] \<or> TrimLeft (ru_Path rawURL) CHR ''/'' = []
          then Inl (Errorf (''malformed URL('' @ u @ '')''))
          else
            (let tgt = zero_target\<lparr>tg_User := ru_Username rawURL,
                   tg_Password := (case ru_Password rawURL of None \<Rightarrow> [] | Some p \<Rightarrow> p),
                   tg_Addr := ru_Host rawURL, tg_Service := TrimLeft (ru_Path rawURL) CHR ''/''\<rparr>
             in case form_Decode (ru_Query rawURL) tgt of
                  Inl e \<Rightarrow> Inl (Errorf ''malformed URL parameters'')
                | Inr t1 \<Rightarrow>
                    (let t2 = (if tg_Near t1 = [] then t1\<lparr>tg_Near := ''_agent''\<rparr> else t1)
                     in Inr (if tg_MaxBackoff t2 = 0 then t2\<lparr>tg_MaxBackoff := 1000000000\<rparr> else t2))))"

record api_config =
  cf_Address :: string
  cf_HttpAuth :: "(string \<times> string) option"
  cf_WaitTime :: int
  cf_Timeout :: int
  cf_InsecureSkipVerify :: bool
  cf_Token :: string

definition consulConfig :: "target \<Rightarrow> api_config" where
  "consulConfig t =
     \<lparr>cf_Address = tg_Addr t,
      cf_HttpAuth = (if tg_User t \<noteq> [] \<and> tg_Password t \<noteq> [] then Some (tg_User t, tg_Password t) else None),
      cf_WaitTime = tg_Wait t, cf_Timeout = tg_Timeout t,
      cf_InsecureSkipVerify = tg_TLSInsecure t, cf_Token = tg_Token t\<rparr>"

text \<open>What every parsed target satisfies, if the decoder only touches tagged fields.\<close>

lemma parseURL_ok:
  assumes "parseURL pu fd u = Inr t"
    and "\<And>q a b. fd q a = Inr b \<Longrightarrow> tg_Addr b = tg_Addr a \<and> tg_Service b = tg_Service a"
  shows "\<exists>r. pu u = Inr r \<and> ru_Scheme r = ''wbt'' \<and> tg_Addr t = ru_Host r \<and> tg_Addr t \<noteq> [] \<and>
    tg_Service t = TrimLeft (ru_Path r) CHR ''/'' \<and> tg_Service t \<noteq> [] \<and> tg_Near t \<noteq> [] \<and> tg_MaxBackoff t \<noteq> 0"
  using assms(1)
  by (auto simp: parseURL_def schemeName_def Let_def split: sum.splits if_splits dest!: assms(2))

section \<open>builder.go\<close>

text \<open>
  The client map is keyed by address. \<open>api.NewClient\<close> may fail, and then the nil client is
  stored all the same; a client is \<open>None\<close> here when it is nil. The answer of \<open>Build\<close> is what
  the watcher goroutine is started with.
\<close>

record build_url =
  bu_Host :: string
  bu_Path :: string
  bu_RawQuery :: string

definition build_dsn :: "build_url \<Rightarrow> string" where
  "build_dsn url = Join [schemeName @ '':/'', bu_Host url @ bu_Path url @ ''?'' @ bu_RawQuery url] ''/''"

definition Build ::
  "(string \<Rightarrow> target res) \<Rightarrow> (api_config \<Rightarrow> nat res) \<Rightarrow> build_url \<Rightarrow> (string \<rightharpoonup> nat option) \<Rightarrow>
   (target \<times> nat option) res \<times> (string \<rightharpoonup> nat option)" where
  "Build parse NewClient url clients =
     (case parse (build_dsn url) of
        Inl e \<Rightarrow> (Inl (Errorf ''wrong consul URL''), clients)
      | Inr tgt \<Rightarrow>
          (let cfg = consulConfig tgt
           in case clients (cf_Address cfg) of
                Some cli \<Rightarrow> (Inr (tgt, cli), clients)
              | None \<Rightarrow>
                  (case NewClient cfg of
                     Inl e \<Rightarrow> (Inl (Errorf (''couldn't connect to the Consul API'')), clients(cf_Address cfg \<mapsto> None))
                   | Inr c \<Rightarrow> (Inr (tgt, Some c), clients(cf_Address cfg \<mapsto> Some c)))))"

text \<open>
  When the Consul client for an address cannot be made, the nil client is kept: the next
  target at that address is built with it, without an error.
\<close>

theorem failed_client_is_cached:
  assumes "parse (build_dsn url) = Inr tgt" and "clients (tg_Addr tgt) = None"
    and "NewClient (consulConfig tgt) = Inl e" and "Build parse NewClient url clients = (r, clients')"
  shows "\<not> is_ok r \<and> Build parse NewClient' url clients' = (Inr (tgt, None), clients')"
  using assms by (auto simp: Build_def consulConfig_def Let_def)

theorem failed_client_is_cached_witness:
  "\<exists>r cl. Build (\<lambda>_. Inr (zero_target\<lparr>tg_Addr := ''c:1''\<rparr>)) (\<lambda>_. Inl EOF) \<lparr>bu_Host = [], bu_Path = [], bu_RawQuery = []\<rparr>
      Map.empty = (r, cl) \<and>
    fst (Build (\<lambda>_. Inr (zero_target\<lparr>tg_Addr := ''c:1''\<rparr>)) (\<lambda>_. Inr 4) \<lparr>bu_Host = [], bu_Path = [], bu_RawQuery = []\<rparr> cl) =
      Inr (zero_target\<lparr>tg_Addr := ''c:1''\<rparr>, None)"
proof -
  let ?u = "\<lparr>bu_Host = [], bu_Path = [], bu_RawQuery = []\<rparr>" and ?t = "zero_target\<lparr>tg_Addr := ''c:1''\<rparr>"
  obtain r cl where b: "Build (\<lambda>_. Inr ?t) (\<lambda>_. Inl EOF) ?u Map.empty = (r, cl)" by fastforce
  from failed_client_is_cached [OF _ _ _ b, of ?t EOF "\<lambda>_. Inr 4"] b show ?thesis by auto
qed

text \<open>A second target at the same address gets the first one's client, whatever its token.\<close>

lemma Build_same_address:
  assumes "clients (tg_Addr tgt) = Some cli" and "parse (build_dsn url) = Inr tgt"
  shows "Build parse NewClient url clients = (Inr (tgt, cli), clients)"
  using assms by (simp add: Build_def consulConfig_def Let_def)

section \<open>consul.go\<close>

record ServiceEntry =
  en_ServiceAddress :: string
  en_NodeAddress :: string
  en_Port :: int
  en_ID :: string

record serviceMeta =
  sm_addr :: string
  sm_id :: string

definition endpoint :: "ServiceEntry \<Rightarrow> serviceMeta" where
  "endpoint s =
     \<lparr>sm_addr = (if en_ServiceAddress s = [] then en_NodeAddress s else en_ServiceAddress s) @ '':'' @ int_dec (en_Port s),
      sm_id = en_ID s\<rparr>"

text \<open>Slicing with a negative bound panics.\<close>

definition fetch_endpoints :: "target \<Rightarrow> ServiceEntry list \<Rightarrow> serviceMeta list outcome" where
  "fetch_endpoints tgt ss =
     (let ee = List.map endpoint ss
      in if tg_Limit tgt \<noteq> 0 \<and> int (length ee) > tg_Limit tgt
         then (if tg_Limit tgt < 0 then Panics ''slice bounds out of range''
               else Returns (take (nat (tg_Limit tgt)) ee))
         else Returns ee)"

text \<open>
  The watching goroutine over the answers of \<open>Service\<close>: the index each query waits for, and
  what is published. After an error the same query is made again.
\<close>

fun watch_run ::
  "target \<Rightarrow> nat \<Rightarrow> (go_error + ServiceEntry list \<times> nat) list \<Rightarrow> (nat \<times> serviceMeta list option) list outcome" where
  "watch_run tgt lastIndex [] = Returns []"
| "watch_run tgt lastIndex (r # rs) =
     (case r of
        Inl e \<Rightarrow>
          (case watch_run tgt lastIndex rs of
             Panics m \<Rightarrow> Panics m | Returns l \<Rightarrow> Returns ((lastIndex, None) # l))
      | Inr (ss, meta) \<Rightarrow>
          (case fetch_endpoints tgt ss of
             Panics m \<Rightarrow> Panics m
           | Returns ee \<Rightarrow>
               (case watch_run tgt meta rs of
                  Panics m \<Rightarrow> Panics m | Returns l \<Rightarrow> Returns ((lastIndex, Some ee) # l))))"

text \<open>
  The fetched endpoints are cut to the limit, all of them for a limit of zero; a negative
  limit panics.
\<close>

theorem endpoints_within_limit:
  "fetch_endpoints tgt ss =
     (if tg_Limit tgt < 0 then Panics ''slice bounds out of range''
      else Returns (take (if tg_Limit tgt = 0 then length ss else nat (tg_Limit tgt)) (List.map endpoint ss)))"
  by (auto simp: fetch_endpoints_def Let_def)

lemma watch_run_total:
  "0 \<le> tg_Limit tgt \<Longrightarrow> \<exists>l. watch_run tgt i rs = Returns l \<and> length l = length rs"
proof (induction tgt i rs rule: watch_run.induct)
  case (2 tgt i r rs)
  show ?case
  proof (cases r)
    case (Inl e)
    with 2 show ?thesis by fastforce
  next
    case (Inr x)
    obtain ss meta where x: "x = (ss, meta)" by fastforce
    have "\<exists>ee. fetch_endpoints tgt ss = Returns ee"
      using 2(3) by (simp add: fetch_endpoints_def Let_def)
    then obtain ee where ee: "fetch_endpoints tgt ss = Returns ee" by blast
    from 2(2) [OF Inr x [symmetric] ee 2(3)] show ?thesis by (auto simp: Inr x ee)
  qed
qed simp

text \<open>\<open>populateEndpoints\<close>: \<open>sort.Sort\<close> with \<open>byAddressString\<close> is a parameter; it is not stable.\<close>

record Address =
  ad_Addr :: string
  ad_ServerName :: string

definition address_of :: "serviceMeta \<Rightarrow> Address" where
  "address_of v = \<lparr>ad_Addr = sm_addr v, ad_ServerName = sm_id v\<rparr>"

definition Less :: "Address \<Rightarrow> Address \<Rightarrow> bool" where
  "Less a b \<longleftrightarrow> ad_Addr a < ad_Addr b"

definition endpoint_state :: "(Address list \<Rightarrow> Address list) \<Rightarrow> serviceMeta list \<Rightarrow> Address list" where
  "endpoint_state srt cc = srt (List.map address_of cc)"

definition sorts :: "(Address list \<Rightarrow> Address list) \<Rightarrow> bool" where
  "sorts srt \<longleftrightarrow> (\<forall>xs. mset (srt xs) = mset xs \<and> sorted_wrt (\<lambda>a b. \<not> Less b a) (srt xs))"

text \<open>
  The same set of endpoints, in whatever order Consul lists them, gives the same address list
  as long as no two have the same address.
\<close>

lemma sorted_unique:
  assumes "sorted_wrt (\<lambda>a b. \<not> Less b a) xs" "sorted_wrt (\<lambda>a b. \<not> Less b a) ys"
    and "mset xs = mset ys" and "distinct (List.map ad_Addr xs)"
  shows "xs = ys"
proof -
  have s: "sorted (List.map ad_Addr zs)" if "sorted_wrt (\<lambda>a b. \<not> Less b a) zs" for zs
    using that by (simp add: sorted_wrt_map Less_def not_less)
  have "inj_on ad_Addr (set xs)" using assms(4) by (simp add: distinct_map)
  moreover have "set xs = set ys" using assms(3) by (rule mset_eq_setD)
  ultimately have inj: "inj_on ad_Addr (set xs \<union> set ys)" by simp
  have "mset (List.map ad_Addr xs) = mset (List.map ad_Addr ys)" using assms(3) by simp
  then have "List.map ad_Addr xs = List.map ad_Addr ys"
    using s [OF assms(1)] s [OF assms(2)] by (metis properties_for_sort)
  then show ?thesis using inj by (rule map_inj_on)
qed

text \<open>
  Two answers of Consul that list the same endpoints in a different order give the balancer
  the same address list, provided no two endpoints share an address, whatever the sorting
  routine does with ties.
\<close>

theorem endpoints_canonical:
  assumes "sorts srt" and "mset cc = mset cc'" and "distinct (List.map sm_addr cc)"
  shows "endpoint_state srt cc = endpoint_state srt cc' \<and>
    mset (endpoint_state srt cc) = mset (List.map address_of cc)"
proof -
  have m: "mset (endpoint_state srt cc) = mset (endpoint_state srt cc')"
    and c: "mset (endpoint_state srt cc) = mset (List.map address_of cc)"
    using assms(1,2) by (simp_all add: endpoint_state_def sorts_def)
  have "distinct (List.map ad_Addr (List.map address_of cc))"
    using assms(3) by (simp add: address_of_def comp_def)
  moreover have "mset (List.map ad_Addr (endpoint_state srt cc)) = mset (List.map ad_Addr (List.map address_of cc))"
    using c by (simp add: multiset.map_comp)
  ultimately have "distinct (List.map ad_Addr (endpoint_state srt cc))"
    using mset_eq_imp_distinct_iff by blast
  moreover have "sorted_wrt (\<lambda>a b. \<not> Less b a) (endpoint_state srt xs)" for xs
    using assms(1) by (simp add: endpoint_state_def sorts_def)
  ultimately have "endpoint_state srt cc = endpoint_state srt cc'" using sorted_unique [OF _ _ m] by blast
  with c show ?thesis by (intro conjI)
qed

definition stable_sort :: "Address list \<Rightarrow> Address list" where
  "stable_sort xs = sort_key ad_Addr xs"

lemma stable_sort_sorts: "sorts stable_sort"
proof -
  have "sorted_wrt (\<lambda>a b. \<not> Less b a) (stable_sort xs)" for xs
    using sorted_sort_key [of ad_Addr xs] by (simp add: stable_sort_def sorted_wrt_map Less_def not_less)
  then show ?thesis by (simp add: sorts_def stable_sort_def)
qed

theorem endpoints_canonical_witness:
  "endpoint_state stable_sort [\<lparr>sm_addr = ''b'', sm_id = ''2''\<rparr>, \<lparr>sm_addr = ''a'', sm_id = ''1''\<rparr>] =
   endpoint_state stable_sort [\<lparr>sm_addr = ''a'', sm_id = ''1''\<rparr>, \<lparr>sm_addr = ''b'', sm_id = ''2''\<rparr>]"
  using endpoints_canonical [OF stable_sort_sorts,
      of "[\<lparr>sm_addr = ''b'', sm_id = ''2''\<rparr>, \<lparr>sm_addr = ''a'', sm_id = ''1''\<rparr>]"
         "[\<lparr>sm_addr = ''a'', sm_id = ''1''\<rparr>, \<lparr>sm_addr = ''b'', sm_id = ''2''\<rparr>]"]
  by simp

section \<open>roundrobin.go\<close>

text \<open>
  \<open>Build\<close> walks a map, so the connections come in any order: the list is an argument, as is
  the random start.
\<close>

record 'c rrPicker =
  subConns :: "'c list"
  subIDIndex :: "string \<rightharpoonup> 'c"
  rr_next :: u32

definition rr_Build :: "('c \<times> Address) list \<Rightarrow> nat \<Rightarrow> 'c rrPicker option" where
  "rr_Build ready start =
     (if ready = [] then None
      else Some \<lparr>subConns = List.map fst ready,
        subIDIndex = fold (\<lambda>(sc, a) m. if ad_ServerName a \<noteq> [] then m(ad_ServerName a \<mapsto> sc) else m) ready Map.empty,
        rr_next = of_nat start\<rparr>)"

definition rr_Pick :: "string option \<Rightarrow> 'c rrPicker \<Rightarrow> 'c res \<times> 'c rrPicker" where
  "rr_Pick static p =
     (case static of
        Some name \<Rightarrow>
          (case subIDIndex p name of
             Some sc \<Rightarrow> (Inr sc, p) | None \<Rightarrow> (Inl (Errorf ''no such host''), p))
      | None \<Rightarrow>
          (let n = rr_next p + 1
           in (Inr (subConns p ! unat (n mod of_nat (length (subConns p)))), p\<lparr>rr_next := n\<rparr>)))"

fun rr_picks :: "nat \<Rightarrow> 'c rrPicker \<Rightarrow> 'c list" where
  "rr_picks 0 p = []"
| "rr_picks (Suc k) p =
     (case rr_Pick None p of
        (Inr sc, p') \<Rightarrow> sc # rr_picks k p'
      | (Inl _, p') \<Rightarrow> rr_picks k p')"

lemma rr_picks_eq:
  "\<lbrakk>unat (rr_next p) + k < 4294967296; length (subConns p) < 4294967296\<rbrakk> \<Longrightarrow>
   rr_picks k p = List.map (\<lambda>i. subConns p ! ((unat (rr_next p) + 1 + i) mod length (subConns p))) [0..<k]"
proof (induction k arbitrary: p)
  case (Suc k)
  have n: "unat (rr_next p + 1) = unat (rr_next p) + 1"
    using Suc.prems(1) by (simp add: unat_word_ariths)
  have l: "unat (of_nat (length (subConns p)) :: u32) = length (subConns p)"
    using Suc.prems(2) by (simp add: unat_of_nat)
  have i: "unat ((rr_next p + 1) mod of_nat (length (subConns p))) = (unat (rr_next p) + 1) mod length (subConns p)"
    unfolding unat_mod n l by simp
  have "rr_picks k (p\<lparr>rr_next := rr_next p + 1\<rparr>) =
      List.map (\<lambda>i. subConns p ! ((unat (rr_next p) + 1 + 1 + i) mod length (subConns p))) [0..<k]"
    using Suc.IH [of "p\<lparr>rr_next := rr_next p + 1\<rparr>"] Suc.prems by (simp add: n)
  moreover have "[0..<Suc k] = 0 # List.map Suc [0..<k]" by (simp add: upt_conv_Cons map_Suc_upt)
  ultimately show ?case by (simp add: rr_Pick_def i Let_def comp_def del: upt_Suc)
qed simp

lemma cycle_block:
  assumes "xs \<noteq> []"
  shows "mset (List.map (\<lambda>i. xs ! ((a + i) mod length xs)) [0..<length xs]) = mset xs"
proof -
  have "List.map (\<lambda>i. xs ! ((a + i) mod length xs)) [0..<length xs] = rotate a xs"
    by (rule nth_equalityI) (simp_all add: nth_rotate)
  moreover have "mset (rotate a xs) = mset xs"
    by (simp add: rotate_drop_take) (metis append_take_drop_id mset_append union_commute)
  ultimately show ?thesis by simp
qed

lemma cycle_blocks:
  assumes "xs \<noteq> []"
  shows "mset (List.map (\<lambda>i. xs ! ((a + i) mod length xs)) [0..<m * length xs]) = repeat_mset m (mset xs)"
proof (induction m)
  case (Suc m)
  have "[0..<Suc m * length xs] = [0..<m * length xs] @ List.map (\<lambda>i. m * length xs + i) [0..<length xs]"
    using upt_add_eq_append [of 0 "m * length xs" "length xs"] map_add_upt [of "m * length xs" "length xs"]
    by (simp add: add.commute)
  moreover have "(\<lambda>i. xs ! ((a + (m * length xs + i)) mod length xs)) = (\<lambda>i. xs ! ((a + i) mod length xs))"
    by (rule ext) (metis add.left_commute mod_mult_self3)
  ultimately show ?case using Suc cycle_block [OF assms, of a] by (simp add: comp_def add.commute)
qed simp

text \<open>
  C38. As long as the 32-bit counter does not wrap, m full cycles of picks choose every ready
  connection exactly m times, from whatever start.
\<close>

theorem round_robin_fair:
  assumes "subConns p \<noteq> []" and "unat (rr_next p) + m * length (subConns p) < 4294967296"
    and "length (subConns p) < 4294967296"
  shows "mset (rr_picks (m * length (subConns p)) p) = repeat_mset m (mset (subConns p))"
  using cycle_blocks [OF assms(1), of "unat (rr_next p) + 1" m] rr_picks_eq [OF assms(2,3)] by simp

theorem round_robin_fair_witness:
  "\<exists>p. rr_Build [(''x'', \<lparr>ad_Addr = ''a'', ad_ServerName = []\<rparr>), (''y'', \<lparr>ad_Addr = ''b'', ad_ServerName = []\<rparr>)] 1 = Some p \<and>
     mset (rr_picks 4 p) = {#''x'', ''y'', ''x'', ''y''#}"
proof -
  obtain p where p: "rr_Build [(''x'', \<lparr>ad_Addr = ''a'', ad_ServerName = []\<rparr>),
      (''y'', \<lparr>ad_Addr = ''b'', ad_ServerName = []\<rparr>)] 1 = Some p" by (simp add: rr_Build_def)
  then have s: "subConns p = [''x'', ''y'']" "unat (rr_next p) = 1" by (auto simp: rr_Build_def)
  have "2 * length (subConns p) = 4" "repeat_mset 2 (mset (subConns p)) = {#''x'', ''y'', ''x'', ''y''#}"
    by (simp_all add: s(1) numeral_2_eq_2)
  with round_robin_fair [of p 2] s have "mset (rr_picks 4 p) = {#''x'', ''y'', ''x'', ''y''#}" by simp
  with p show ?thesis by blast
qed

text \<open>A call bound to a host goes there or fails; it never moves the counter.\<close>

lemma static_pick:
  "rr_Pick (Some name) p = (r, p') \<Longrightarrow> p' = p \<and> (case subIDIndex p name of Some sc \<Rightarrow> r = Inr sc | None \<Rightarrow> \<not> is_ok r)"
  by (auto simp: rr_Pick_def split: option.splits)

end
