(* ===== verification/Resolver_Watch.thy ===== *)
theory Resolver_Watch
  imports Resolver
begin

text \<open>
  The goroutines of one resolver (\<^verbatim>\<open>infra/resolver/consul.go\<close>): the watcher that asks Consul, the
  loop of \<open>watchConsulService\<close> that forwards what it found, and \<open>populateEndpoints\<close>, which sorts
  and publishes it. They are joined by unbuffered channels, so a send and its receive are one
  step; \<open>quit\<close> is closed by the loop once it sees the context cancelled. The answers of Consul
  and the scheduling are the labels of a step relation.
\<close>

section \<open>The goroutines\<close>

datatype watcher =
    Asking nat                          \<comment> \<open>in \<open>s.Service\<close>, with \<open>lastIndex\<close>\<close>
  | Backing_off nat                     \<comment> \<open>in \<open>time.Sleep\<close> after an error\<close>
  | Offering nat "serviceMeta list"     \<comment> \<open>in the select on \<open>res <- ee\<close> and \<open>quit\<close>\<close>
  | Watcher_gone

datatype forwarder =
    Checking                            \<comment> \<open>at \<open>ctx.Err()\<close>\<close>
  | Selecting                           \<comment> \<open>in the select on \<open>res\<close> and \<open>ctx.Done()\<close>\<close>
  | Sending "serviceMeta list"          \<comment> \<open>in \<open>out <- ee\<close>\<close>
  | Forwarder_gone

datatype populator = Receiving | Populator_gone

record resolver_state =
  rv_cancelled :: bool
  rv_quit :: bool
  rv_watcher :: watcher
  rv_forwarder :: forwarder
  rv_populator :: populator
  rv_panic :: bool
  rv_fetched :: "serviceMeta list list"
  rv_published :: "Address list list"
  rv_dropped :: "serviceMeta list list"

text \<open>What \<open>builder.Build\<close> starts.\<close>

definition resolver_start :: resolver_state where
  "resolver_start = \<lparr>rv_cancelled = False, rv_quit = False, rv_watcher = Asking 0,
     rv_forwarder = Checking, rv_populator = Receiving, rv_panic = False, rv_fetched = [],
     rv_published = [], rv_dropped = []\<rparr>"

datatype resolver_event =
    Answer "go_error + ServiceEntry list \<times> nat"
  | Wake
  | Check
  | Hand_over
  | Forward
  | Watcher_quits
  | Forwarder_quits
  | Populator_quits
  | Close

text \<open>
  A panic in a goroutine ends the process. Whether \<open>UpdateState\<close> fails makes no difference: its
  error is only logged.
\<close>

inductive resolver_step ::
  "target \<Rightarrow> (Address list \<Rightarrow> Address list) \<Rightarrow> resolver_state \<Rightarrow> resolver_event \<Rightarrow> resolver_state \<Rightarrow> bool"
  for tgt srt where
  answer: "\<lbrakk>\<not> rv_panic p; rv_watcher p = Asking i; fetch_endpoints tgt ss = Returns ee\<rbrakk> \<Longrightarrow>
     resolver_step tgt srt p (Answer (Inr (ss, index)))
       (p\<lparr>rv_watcher := Offering index ee, rv_fetched := rv_fetched p @ [ee]\<rparr>)"
| answer_panics: "\<lbrakk>\<not> rv_panic p; rv_watcher p = Asking i; fetch_endpoints tgt ss = Panics m\<rbrakk> \<Longrightarrow>
     resolver_step tgt srt p (Answer (Inr (ss, index))) (p\<lparr>rv_panic := True\<rparr>)"
| answer_fails: "\<lbrakk>\<not> rv_panic p; rv_watcher p = Asking i\<rbrakk> \<Longrightarrow>
     resolver_step tgt srt p (Answer (Inl e))
       (p\<lparr>rv_watcher := (if rv_quit p then Watcher_gone else Backing_off i)\<rparr>)"
| wake: "\<lbrakk>\<not> rv_panic p; rv_watcher p = Backing_off i\<rbrakk> \<Longrightarrow>
     resolver_step tgt srt p Wake (p\<lparr>rv_watcher := Asking i\<rparr>)"
| check: "\<lbrakk>\<not> rv_panic p; rv_forwarder p = Checking\<rbrakk> \<Longrightarrow>
     resolver_step tgt srt p Check
       (if rv_cancelled p then p\<lparr>rv_quit := True, rv_forwarder := Forwarder_gone\<rparr>
        else p\<lparr>rv_forwarder := Selecting\<rparr>)"
| hand_over: "\<lbrakk>\<not> rv_panic p; rv_watcher p = Offering i ee; rv_forwarder p = Selecting\<rbrakk> \<Longrightarrow>
     resolver_step tgt srt p Hand_over (p\<lparr>rv_watcher := Asking i, rv_forwarder := Sending ee\<rparr>)"
| forward: "\<lbrakk>\<not> rv_panic p; rv_forwarder p = Sending ee; rv_populator p = Receiving\<rbrakk> \<Longrightarrow>
     resolver_step tgt srt p Forward
       (p\<lparr>rv_forwarder := Checking, rv_published := rv_published p @ [endpoint_state srt ee]\<rparr>)"
| watcher_quits: "\<lbrakk>\<not> rv_panic p; rv_watcher p = Offering i ee; rv_quit p\<rbrakk> \<Longrightarrow>
     resolver_step tgt srt p Watcher_quits
       (p\<lparr>rv_watcher := Watcher_gone, rv_dropped := rv_dropped p @ [ee]\<rparr>)"
| forwarder_quits: "\<lbrakk>\<not> rv_panic p; rv_forwarder p = Selecting; rv_cancelled p\<rbrakk> \<Longrightarrow>
     resolver_step tgt srt p Forwarder_quits (p\<lparr>rv_quit := True, rv_forwarder := Forwarder_gone\<rparr>)"
| populator_quits: "\<lbrakk>\<not> rv_panic p; rv_populator p = Receiving; rv_cancelled p\<rbrakk> \<Longrightarrow>
     resolver_step tgt srt p Populator_quits (p\<lparr>rv_populator := Populator_gone\<rparr>)"
| close: "\<not> rv_panic p \<Longrightarrow> resolver_step tgt srt p Close (p\<lparr>rv_cancelled := True\<rparr>)"

inductive resolver_run ::
  "target \<Rightarrow> (Address list \<Rightarrow> Address list) \<Rightarrow> resolver_state \<Rightarrow> resolver_event list \<Rightarrow> resolver_state \<Rightarrow> bool"
  for tgt srt where
  none: "resolver_run tgt srt p [] p"
| one: "\<lbrakk>resolver_run tgt srt p evs q; resolver_step tgt srt q ev r\<rbrakk> \<Longrightarrow>
     resolver_run tgt srt p (evs @ [ev]) r"

lemma run_step: "resolver_step tgt srt p ev q \<Longrightarrow> resolver_run tgt srt p [ev] q"
  using resolver_run.one [OF resolver_run.none] by fastforce

lemma run_trans:
  "\<lbrakk>resolver_run tgt srt q fs r; resolver_run tgt srt p evs q\<rbrakk> \<Longrightarrow> resolver_run tgt srt p (evs @ fs) r"
proof (induction rule: resolver_run.induct)
  case (one q fs r ev s)
  then show ?case using resolver_run.one [of tgt srt p "evs @ fs" r ev s] by simp
qed simp

section \<open>Nothing is lost or reordered\<close>

fun in_watcher :: "watcher \<Rightarrow> serviceMeta list list" where
  "in_watcher (Offering _ ee) = [ee]"
| "in_watcher _ = []"

fun in_forwarder :: "forwarder \<Rightarrow> serviceMeta list list" where
  "in_forwarder (Sending ee) = [ee]"
| "in_forwarder _ = []"

text \<open>
  Everything fetched was published, or is in one of the two hands it goes through, or was the
  last offer of a watcher that has quit.
\<close>

definition watch_inv :: "(Address list \<Rightarrow> Address list) \<Rightarrow> resolver_state \<Rightarrow> bool" where
  "watch_inv srt p \<longleftrightarrow>
     (\<exists>done. rv_fetched p = done @ in_forwarder (rv_forwarder p) @ in_watcher (rv_watcher p) @ rv_dropped p \<and>
        rv_published p = List.map (endpoint_state srt) done) \<and>
     (rv_quit p \<longleftrightarrow> rv_forwarder p = Forwarder_gone) \<and>
     (rv_quit p \<longrightarrow> rv_cancelled p) \<and> (rv_populator p = Populator_gone \<longrightarrow> rv_cancelled p) \<and>
     (rv_watcher p = Watcher_gone \<longrightarrow> rv_quit p) \<and> length (rv_dropped p) \<le> 1 \<and>
     (rv_watcher p = Watcher_gone \<or> rv_dropped p = [])"

lemma resolver_step_inv: "\<lbrakk>resolver_step tgt srt p ev q; watch_inv srt p\<rbrakk> \<Longrightarrow> watch_inv srt q"
  by (induction rule: resolver_step.induct) (auto simp: watch_inv_def)

lemma resolver_run_inv: "\<lbrakk>resolver_run tgt srt p evs q; watch_inv srt p\<rbrakk> \<Longrightarrow> watch_inv srt q"
  by (induction rule: resolver_run.induct) (auto dest: resolver_step_inv)

lemma resolver_start_inv: "watch_inv srt resolver_start"
  by (simp add: watch_inv_def resolver_start_def)

text \<open>The endpoint lists a run's answers carry.\<close>

fun answered :: "target \<Rightarrow> resolver_event list \<Rightarrow> serviceMeta list list" where
  "answered tgt [] = []"
| "answered tgt (Answer (Inr (ss, _)) # evs) =
     (case fetch_endpoints tgt ss of Returns ee \<Rightarrow> ee # answered tgt evs | Panics _ \<Rightarrow> answered tgt evs)"
| "answered tgt (_ # evs) = answered tgt evs"

lemma answered_append [simp]: "answered tgt (evs @ fs) = answered tgt evs @ answered tgt fs"
  by (induction tgt evs rule: answered.induct) (simp_all split: outcome.split)

lemma step_fetched: "resolver_step tgt srt p ev q \<Longrightarrow> rv_fetched q = rv_fetched p @ answered tgt [ev]"
  by (induction rule: resolver_step.induct) simp_all

lemma run_fetched: "resolver_run tgt srt p evs q \<Longrightarrow> rv_fetched q = rv_fetched p @ answered tgt evs"
  by (induction rule: resolver_run.induct) (simp_all add: step_fetched)

lemma in_hands: "length (in_forwarder f) \<le> 1" "length (in_watcher w) \<le> 1"
  by (cases f; simp) (cases w; simp)

text \<open>
  C37. The balancer is given the sorted endpoints of Consul's answers in the order of the
  answers, none twice and none skipped, and is never more than two answers behind, whatever
  the interleaving, the failures and the moment of closing.
\<close>

theorem endpoints_published_in_order:
  assumes "resolver_run tgt srt resolver_start evs p"
  shows "rv_published p = List.map (endpoint_state srt) (take (length (rv_published p)) (answered tgt evs)) \<and>
    length (answered tgt evs) \<le> length (rv_published p) + 2"
proof -
  have inv: "watch_inv srt p" by (rule resolver_run_inv [OF assms resolver_start_inv])
  have f: "rv_fetched p = answered tgt evs" using run_fetched [OF assms] by (simp add: resolver_start_def)
  from inv obtain d where d: "rv_fetched p = d @ in_forwarder (rv_forwarder p) @ in_watcher (rv_watcher p) @ rv_dropped p"
    and m: "rv_published p = List.map (endpoint_state srt) d" unfolding watch_inv_def by blast
  have "length (in_watcher (rv_watcher p)) + length (rv_dropped p) \<le> 1"
    using inv in_hands(2) [of "rv_watcher p"] by (auto simp: watch_inv_def)
  then have "length (rv_fetched p) \<le> length d + 2" using in_hands(1) [of "rv_forwarder p"] by (simp add: d)
  moreover have "take (length d) (rv_fetched p) = d" by (simp add: d)
  ultimately show ?thesis unfolding f [symmetric] by (simp add: m)
qed

definition a_target :: target where
  "a_target = zero_target\<lparr>tg_Addr := ''c:8500'', tg_Service := ''storage''\<rparr>"

lemma a_target_endpoints [simp]: "fetch_endpoints a_target ss = Returns (List.map endpoint ss)"
  by (simp add: fetch_endpoints_def a_target_def zero_target_def)

text \<open>A run that ends with a set in the forwarder's hand and nobody to take it.\<close>

definition stuck :: "resolver_state \<Rightarrow> bool" where
  "stuck p \<longleftrightarrow> (\<exists>ee. rv_forwarder p = Sending ee) \<and> rv_populator p = Populator_gone"

lemma run_to_stuck:
  "\<exists>p. resolver_run a_target srt resolver_start [Answer (Inr ([], 1)), Check, Hand_over, Close, Populator_quits] p \<and>
     rv_cancelled p \<and> \<not> rv_panic p \<and> stuck p \<and> rv_published p = []"
proof -
  let ?p0 = resolver_start
  let ?p1 = "?p0\<lparr>rv_watcher := Offering 1 [], rv_fetched := [[]]\<rparr>"
  let ?p2 = "?p1\<lparr>rv_forwarder := Selecting\<rparr>"
  let ?p3 = "?p2\<lparr>rv_watcher := Asking 1, rv_forwarder := Sending []\<rparr>"
  let ?p4 = "?p3\<lparr>rv_cancelled := True\<rparr>"
  let ?p5 = "?p4\<lparr>rv_populator := Populator_gone\<rparr>"
  note start = resolver_start_def
  have "resolver_step a_target srt ?p0 (Answer (Inr ([], 1))) ?p1"
    using resolver_step.answer [of ?p0 0 a_target "[]" "[]" srt 1] by (simp add: start)
  moreover have "resolver_step a_target srt ?p1 Check ?p2"
    using resolver_step.check [of ?p1 a_target srt] by (simp add: start)
  moreover have "resolver_step a_target srt ?p2 Hand_over ?p3"
    using resolver_step.hand_over [of ?p2 1 "[]" a_target srt] by (simp add: start)
  moreover have "resolver_step a_target srt ?p3 Close ?p4"
    using resolver_step.close [of ?p3 a_target srt] by (simp add: start)
  moreover have "resolver_step a_target srt ?p4 Populator_quits ?p5"
    using resolver_step.populator_quits [of ?p4 a_target srt] by (simp add: start)
  ultimately have "resolver_run a_target srt ?p0
      ((((([] @ [Answer (Inr ([], 1))]) @ [Check]) @ [Hand_over]) @ [Close]) @ [Populator_quits]) ?p5"
    by (intro resolver_run.one) (rule resolver_run.none, assumption+)
  moreover have "rv_cancelled ?p5 \<and> \<not> rv_panic ?p5 \<and> stuck ?p5 \<and> rv_published ?p5 = []"
    by (simp add: start stuck_def)
  ultimately show ?thesis by (metis append_Cons append_Nil)
qed

theorem endpoints_published_in_order_witness:
  "\<exists>p. resolver_run a_target stable_sort resolver_start
      [Answer (Inr ([], 1)), Check, Hand_over, Close, Populator_quits] p \<and> length (rv_published p) = 0 \<and>
    rv_published p = List.map (endpoint_state stable_sort) (take (length (rv_published p))
      (answered a_target [Answer (Inr ([], 1)), Check, Hand_over, Close, Populator_quits]))"
proof -
  obtain p where p: "resolver_run a_target stable_sort resolver_start
      [Answer (Inr ([], 1)), Check, Hand_over, Close, Populator_quits] p" "rv_published p = []"
    using run_to_stuck [of stable_sort] by blast
  from endpoints_published_in_order [OF p(1)] p show ?thesis by auto
qed

section \<open>Closing\<close>

definition all_gone :: "resolver_state \<Rightarrow> bool" where
  "all_gone p \<longleftrightarrow> rv_watcher p = Watcher_gone \<and> rv_forwarder p = Forwarder_gone \<and> rv_populator p = Populator_gone"

definition can_stop :: "target \<Rightarrow> (Address list \<Rightarrow> Address list) \<Rightarrow> resolver_state \<Rightarrow> bool" where
  "can_stop tgt srt p \<longleftrightarrow> (\<exists>evs q. resolver_run tgt srt p evs q \<and> all_gone q)"

lemma can_stop_step: "\<lbrakk>resolver_step tgt srt p ev q; can_stop tgt srt q\<rbrakk> \<Longrightarrow> can_stop tgt srt p"
  unfolding can_stop_def by (meson run_step run_trans)

lemma can_stop_populator:
  assumes "\<not> rv_panic p" "rv_cancelled p" "rv_watcher p = Watcher_gone" "rv_forwarder p = Forwarder_gone"
  shows "can_stop tgt srt p"
proof (cases "rv_populator p")
  case Receiving
  have "all_gone (p\<lparr>rv_populator := Populator_gone\<rparr>)" using assms by (simp add: all_gone_def)
  then show ?thesis
    unfolding can_stop_def using run_step [OF resolver_step.populator_quits [OF assms(1) Receiving assms(2)]] by blast
next
  case Populator_gone
  with assms show ?thesis by (auto simp: can_stop_def all_gone_def intro: resolver_run.none)
qed

lemma can_stop_watcher:
  assumes "\<not> rv_panic p" "rv_cancelled p" "rv_quit p" "rv_forwarder p = Forwarder_gone"
  shows "can_stop tgt srt p"
proof -
  have ask: "can_stop tgt srt p" if "\<not> rv_panic p" "rv_cancelled p" "rv_quit p" "rv_forwarder p = Forwarder_gone"
    "rv_watcher p = Asking i" for p i
    using that by (intro can_stop_step [OF resolver_step.answer_fails [OF that(1) that(5), of tgt srt EOF]] can_stop_populator) simp_all
  show ?thesis
  proof (cases "rv_watcher p")
    case (Asking i)
    with assms ask show ?thesis by blast
  next
    case (Backing_off i)
    with assms show ?thesis
      by (intro can_stop_step [OF resolver_step.wake [OF assms(1) Backing_off]] ask) simp_all
  next
    case (Offering i ee)
    with assms show ?thesis
      by (intro can_stop_step [OF resolver_step.watcher_quits [OF assms(1) Offering assms(3)]] can_stop_populator) simp_all
  next
    case Watcher_gone
    with assms show ?thesis by (intro can_stop_populator)
  qed
qed

lemma can_stop_forwarder:
  assumes "\<not> rv_panic p" "rv_cancelled p" "watch_inv srt p" "\<not> stuck p"
  shows "can_stop tgt srt p"
proof -
  have chk: "can_stop tgt srt p" if "\<not> rv_panic p" "rv_cancelled p" "rv_forwarder p = Checking" for p
    using that by (intro can_stop_step [OF resolver_step.check [OF that(1,3)]] can_stop_watcher) simp_all
  show ?thesis
  proof (cases "rv_forwarder p")
    case Checking
    with assms chk show ?thesis by blast
  next
    case Selecting
    with assms show ?thesis
      by (intro can_stop_step [OF resolver_step.forwarder_quits [OF assms(1) Selecting assms(2)]] can_stop_watcher) simp_all
  next
    case (Sending ee)
    with assms(4) have r: "rv_populator p = Receiving" by (cases "rv_populator p") (auto simp: stuck_def)
    from assms show ?thesis
      by (intro can_stop_step [OF resolver_step.forward [OF assms(1) Sending r]] chk) simp_all
  next
    case Forwarder_gone
    with assms show ?thesis by (intro can_stop_watcher) (simp_all add: watch_inv_def)
  qed
qed

lemma stuck_step: "\<lbrakk>resolver_step tgt srt p ev q; stuck p\<rbrakk> \<Longrightarrow> stuck q"
  by (induction rule: resolver_step.induct) (auto simp: stuck_def)

lemma stuck_run: "\<lbrakk>resolver_run tgt srt p evs q; stuck p\<rbrakk> \<Longrightarrow> stuck q"
  by (induction rule: resolver_run.induct) (auto dest: stuck_step)

text \<open>
  C36. After a close the goroutines of a resolver can all end, except when the populating one
  has already gone while the loop is still sending it a set of endpoints: then the loop never
  closes quit, and neither it nor the watcher ever ends.
\<close>

theorem closed_resolver_stops_unless_stuck:
  assumes "resolver_run tgt srt resolver_start evs p" and "rv_cancelled p" and "\<not> rv_panic p"
  shows "if stuck p
    then \<forall>fs q. resolver_run tgt srt p fs q \<longrightarrow> \<not> rv_quit q \<and> rv_forwarder q \<noteq> Forwarder_gone \<and> rv_watcher q \<noteq> Watcher_gone
    else \<exists>fs q. resolver_run tgt srt p fs q \<and> all_gone q"
proof -
  have inv: "watch_inv srt p" by (rule resolver_run_inv [OF assms(1) resolver_start_inv])
  show ?thesis
  proof (cases "stuck p")
    case True
    have "\<not> rv_quit q \<and> rv_forwarder q \<noteq> Forwarder_gone \<and> rv_watcher q \<noteq> Watcher_gone"
      if "resolver_run tgt srt p fs q" for fs q
      using stuck_run [OF that True] resolver_run_inv [OF that inv] by (auto simp: stuck_def watch_inv_def)
    with True show ?thesis by simp
  next
    case False
    with can_stop_forwarder [OF assms(3,2) inv False, of tgt] show ?thesis by (simp add: can_stop_def)
  qed
qed

theorem closed_resolver_stops_unless_stuck_witness:
  "\<exists>p. resolver_run a_target stable_sort resolver_start
      [Answer (Inr ([], 1)), Check, Hand_over, Close, Populator_quits] p \<and>
    (\<forall>fs q. resolver_run a_target stable_sort p fs q \<longrightarrow> rv_watcher q \<noteq> Watcher_gone)"
proof -
  obtain p where p: "resolver_run a_target stable_sort resolver_start
      [Answer (Inr ([], 1)), Check, Hand_over, Close, Populator_quits] p" "rv_cancelled p" "\<not> rv_panic p" "stuck p"
    using run_to_stuck [of stable_sort] by blast
  from closed_resolver_stops_unless_stuck [OF p(1-3)] p(1,4) show ?thesis by auto
qed

end
