(* ===== verification/Job_Runs.thy ===== *)
theory Job_Runs
  imports Job_Store
begin

text \<open>
  Runs of the job store. Several processes share the table \<^verbatim>\<open>webrtc_rec.file_jobs\<close>, each with
  its own instance id; every statement of \<^verbatim>\<open>internal/store/file_job.go\<close> is one step of a run.
  The specification is a queue of owned jobs with a step relation; runs of the SQL statements
  refine it, and what holds of the queue then holds of the table.
\<close>

section \<open>The specification\<close>

record owned =
  ow_inst :: string
  ow_state :: JobState
  ow_job :: Job

text \<open>\<open>q_used\<close> are the ids that were ever given out: the sequence never goes back.\<close>

record job_queue =
  q_jobs :: "int \<rightharpoonup> owned"
  q_used :: "int set"

datatype store_call =
    CallCreate string "JobConfig option" File
  | CallUpdate JobState Job
  | CallSetError int go_error
  | CallFetch int string
  | CallDelete int
  | CallReset

datatype store_answer = Refused | Done | Jobs "Job list"

definition take_up :: "owned \<Rightarrow> owned" where
  "take_up o' = o'\<lparr>ow_state := JobActive, ow_job := (ow_job o')\<lparr>job_Retry := job_Retry (ow_job o') + 1\<rparr>\<rparr>"

definition waits :: "string \<Rightarrow> string \<Rightarrow> owned \<Rightarrow> bool" where
  "waits a ty o' \<longleftrightarrow> ow_inst o' = a \<and> ow_state o' = JobIdle \<and> job_Type (ow_job o') = ty"

inductive queue_step :: "job_queue \<Rightarrow> string \<Rightarrow> store_call \<Rightarrow> store_answer \<Rightarrow> job_queue \<Rightarrow> bool" where
  refused: "queue_step q a c Refused q"
| create: "i \<notin> q_used q \<Longrightarrow> queue_step q a (CallCreate ty cfg f) Done
     \<lparr>q_jobs = (q_jobs q)(i \<mapsto> \<lparr>ow_inst = a, ow_state = JobIdle,
        ow_job = \<lparr>job_ID = i, job_Type = ty, job_File = f, job_Config = cfg, job_Retry = 0\<rparr>\<rparr>),
      q_used = insert i (q_used q)\<rparr>"
| update: "queue_step q a (CallUpdate st j) Done
     (q\<lparr>q_jobs := (q_jobs q)(job_ID j :=
        map_option (\<lambda>x. x\<lparr>ow_state := st, ow_job := j\<rparr>) (q_jobs q (job_ID j)))\<rparr>)"
| set_error: "queue_step q a (CallSetError i err) Done
     (q\<lparr>q_jobs := (q_jobs q)(i := map_option (\<lambda>x. x\<lparr>ow_state := JobIdle\<rparr>) (q_jobs q i))\<rparr>)"
| delete: "queue_step q a (CallDelete i) Done (q\<lparr>q_jobs := (q_jobs q)(i := None)\<rparr>)"
| reset: "queue_step q a CallReset Done
     (q\<lparr>q_jobs := \<lambda>i. map_option (\<lambda>x. if ow_inst x = a then x\<lparr>ow_state := JobIdle\<rparr> else x) (q_jobs q i)\<rparr>)"
| fetch: "\<lbrakk>distinct (List.map job_ID js); int (length js) \<le> n;
     \<forall>j \<in> set js. \<exists>x. q_jobs q (job_ID j) = Some x \<and> waits a ty x \<and> ow_job x = j;
     int (length js) < n \<longrightarrow> (\<forall>i x. q_jobs q i = Some x \<longrightarrow> waits a ty x \<longrightarrow> i \<in> job_ID ` set js)\<rbrakk> \<Longrightarrow>
   queue_step q a (CallFetch n ty) (Jobs js)
     (q\<lparr>q_jobs := \<lambda>i. if i \<in> job_ID ` set js then map_option take_up (q_jobs q i) else q_jobs q i\<rparr>)"

inductive queue_run ::
  "job_queue \<Rightarrow> (string \<times> store_call) list \<Rightarrow> store_answer list \<Rightarrow> job_queue \<Rightarrow> bool" where
  stop: "queue_run q [] [] q"
| more: "\<lbrakk>queue_step q a c r q1; queue_run q1 cs rs q2\<rbrakk> \<Longrightarrow> queue_run q ((a, c) # cs) (r # rs) q2"

section \<open>Runs of the statements\<close>

definition answer :: "go_error option \<times> db \<Rightarrow> store_answer \<times> db" where
  "answer x = (case x of (Some _, d) \<Rightarrow> (Refused, d) | (None, d) \<Rightarrow> (Done, d))"

fun issue :: "string \<Rightarrow> store_call \<Rightarrow> db \<Rightarrow> store_answer \<times> db" where
  "issue a (CallCreate ty cfg f) d = answer (Create \<lparr>instance_id = a\<rparr> ty cfg f d)"
| "issue a (CallUpdate st j) d = answer (Update \<lparr>instance_id = a\<rparr> st j d)"
| "issue a (CallSetError i err) d = answer (SetError \<lparr>instance_id = a\<rparr> i err d)"
| "issue a (CallFetch n ty) d =
     (case Fetch \<lparr>instance_id = a\<rparr> n ty d of (Inl _, d') \<Rightarrow> (Refused, d') | (Inr js, d') \<Rightarrow> (Jobs js, d'))"
| "issue a (CallDelete i) d = answer (Delete \<lparr>instance_id = a\<rparr> i d)"
| "issue a CallReset d = answer (Reset \<lparr>instance_id = a\<rparr> d)"

fun store_run :: "(string \<times> store_call) list \<Rightarrow> db \<Rightarrow> store_answer list \<times> db" where
  "store_run [] d = ([], d)"
| "store_run ((a, c) # cs) d =
     (case issue a c d of (r, d1) \<Rightarrow> (case store_run cs d1 of (rs, d2) \<Rightarrow> (r # rs, d2)))"

fun wf_call :: "store_call \<Rightarrow> bool" where
  "wf_call (CallCreate ty cfg f) = wf_File f"
| "wf_call (CallUpdate st j) = wf_File (job_File j)"
| "wf_call _ = True"

section \<open>The table as a queue\<close>

definition owned_of :: "job_row \<Rightarrow> owned" where
  "owned_of r = (let e = entry_of (r_instance r) r
     in \<lparr>ow_inst = r_instance r, ow_state = e_state e, ow_job = e_job e\<rparr>)"

definition queue_of :: "db \<Rightarrow> job_queue" where
  "queue_of d = \<lparr>q_jobs = (\<lambda>i. map_option owned_of (row_at d i)), q_used = {i. i < next_id d}\<rparr>"

text \<open>
  A queue is the owners of the rows next to the view of any one instance, so the laws of the
  interface carry over to it.
\<close>

definition owner :: "db \<Rightarrow> int \<Rightarrow> string option" where
  "owner d i = map_option r_instance (row_at d i)"

definition own :: "string option \<Rightarrow> job_entry option \<Rightarrow> owned option" where
  "own a e = (case (a, e) of
     (Some b, Some x) \<Rightarrow> Some \<lparr>ow_inst = b, ow_state = e_state x, ow_job = e_job x\<rparr> | _ \<Rightarrow> None)"

lemma own_simps [simp]:
  "own None e = None" "own a None = None"
  "own (Some b) (Some x) = Some \<lparr>ow_inst = b, ow_state = e_state x, ow_job = e_job x\<rparr>"
  by (auto simp: own_def split: option.split)

lemma queue_of_own: "q_jobs (queue_of d) i = own (owner d i) (table_view s d i)"
  by (cases "row_at d i") (simp_all add: queue_of_def owner_def table_view_def owned_of_def entry_of_def Let_def)

lemma owner_None: "owner d i = None \<longleftrightarrow> table_view s d i = None"
  by (simp add: owner_def table_view_def)

lemma owner_mine: "table_view s d i = Some e \<Longrightarrow> \<exists>b. owner d i = Some b \<and> (e_mine e \<longleftrightarrow> b = instance_id s)"
  by (auto simp: owner_def table_view_def entry_of_def)

lemma queue_of_used [simp]: "q_used (queue_of d) = {i. i < next_id d}"
  by (simp add: queue_of_def)

lemma queue_eqI:
  assumes "\<And>i. own (owner d i) (table_view s d i) = q_jobs q i" and "q_used q = {i. i < next_id d}"
  shows "queue_of d = q"
  using assms queue_of_own [of d _ s]
  by (intro job_queue.equality) (simp_all add: fun_eq_iff)

text \<open>What the statements do to the owners and to the sequence.\<close>

lemma owner_calls [simp]: "owner (d\<lparr>db_calls := n\<rparr>) = owner d"
  by (rule ext) (simp add: owner_def)

lemma owner_update_rows:
  assumes "\<And>r. r_id (f r) = r_id r" and "\<And>r. r_instance (f r) = r_instance r"
  shows "owner (update_rows P f d) = owner d"
proof
  fix i
  show "owner (update_rows P f d) i = owner d i"
    using assms by (cases "row_at d i") (simp_all add: owner_def row_at_update_rows)
qed

lemma Exec_owner:
  assumes "\<And>d. owner (stmt d) = owner d" "\<And>d. next_id (stmt d) = next_id d" and "db_Exec stmt d = (e, d')"
  shows "owner d' = owner d \<and> next_id d' = next_id d"
  using assms(3) by (cases rule: db_Exec_cases) (simp_all add: assms(1,2))

lemma Update_owner: "Update s st j d = (e, d') \<Longrightarrow> owner d' = owner d \<and> next_id d' = next_id d"
  unfolding Update_def by (erule Exec_owner [rotated 2]) (simp_all add: owner_update_rows)

lemma SetError_owner: "SetError s i err d = (e, d') \<Longrightarrow> owner d' = owner d \<and> next_id d' = next_id d"
  unfolding SetError_def by (erule Exec_owner [rotated 2]) (simp_all add: owner_update_rows)

lemma Reset_owner: "Reset s d = (e, d') \<Longrightarrow> owner d' = owner d \<and> next_id d' = next_id d"
  unfolding Reset_def by (erule Exec_owner [rotated 2]) (simp_all add: owner_update_rows)

lemma Delete_owner:
  assumes "Delete s i d = (None, d')"
  shows "owner d' = (owner d)(i := None) \<and> next_id d' = next_id d"
  using assms unfolding Delete_def
proof (cases rule: db_Exec_cases)
  case 2
  then have "owner d' k = (if k = i then None else owner d k)" for k
    by (simp add: owner_def row_at_def find_filter_key)
  with 2 show ?thesis by (auto simp: fun_eq_iff)
qed simp

lemma Fetch_owner: "Fetch s n ty d = (r, d') \<Longrightarrow> owner d' = owner d \<and> next_id d' = next_id d"
  by (auto simp: Fetch_def db_Select_def Let_def owner_update_rows fetch_mark_def
      split: option.splits if_splits)

lemma scan_state [simp]: "scan_job (r\<lparr>r_state := n\<rparr>) = scan_job r"
  by (simp add: scan_job_def)

lemma Reset_law:
  assumes "wf_db d" and "Reset s d = (e, d')"
  shows "wf_db d' \<and> table_view s d' i =
    (case e of Some _ \<Rightarrow> table_view s d i
     | None \<Rightarrow> map_option (\<lambda>x. if e_mine x then x\<lparr>e_state := JobIdle\<rparr> else x) (table_view s d i))"
  using assms(2)[unfolded Reset_def]
proof (cases rule: db_Exec_cases)
  case (1 x)
  with assms(1) show ?thesis by simp
next
  case 2
  have "wf_db d'" using Reset_wf [OF assms(1), of s] assms(2) by simp
  moreover have "entry_of (instance_id s) (r\<lparr>r_state := state_code JobIdle\<rparr>) =
      (entry_of (instance_id s) r)\<lparr>e_state := JobIdle\<rparr>"
    for r by (cases "scan_job r") (simp_all add: entry_of_def)
  moreover have "e_mine (entry_of (instance_id s) r) = (r_instance r = instance_id s)" for r
    by (simp add: entry_of_def)
  ultimately show ?thesis using 2
    by (cases "row_at d i") (simp_all add: table_view_def row_at_update_rows)
qed

section \<open>Refinement\<close>

lemma answer_cases:
  assumes "answer x = (r, d')"
  obtains e where "r = Refused" "x = (Some e, d')" | "r = Done" "x = (None, d')"
  using assms by (auto simp: answer_def split: prod.splits option.splits)

lemma sql_select [simp]:
  "op_Create (sql_ops s) = Create s" "op_Update (sql_ops s) = Update s"
  "op_SetError (sql_ops s) = SetError s" "op_Fetch (sql_ops s) = Fetch s" "op_Delete (sql_ops s) = Delete s"
  by (simp_all add: sql_ops_def)

lemma same_queue:
  assumes "owner d' = owner d" "next_id d' = next_id d" "table_view s d' = table_view s d"
  shows "queue_of d' = queue_of d"
  by (rule queue_eqI [of _ s]) (simp_all add: assms queue_of_own [of d _ s])

lemma queue_Some:
  "q_jobs (queue_of d) i = Some x \<longleftrightarrow>
     (\<exists>b e. owner d i = Some b \<and> table_view s d i = Some e \<and>
        x = \<lparr>ow_inst = b, ow_state = e_state e, ow_job = e_job e\<rparr>)"
  unfolding queue_of_own [of d i s] own_def by (auto split: option.splits)

lemma waits_ready:
  assumes "owner d i = Some b" "table_view s d i = Some e"
  shows "waits (instance_id s) ty \<lparr>ow_inst = b, ow_state = e_state e, ow_job = e_job e\<rparr> = ready_entry ty e"
  using owner_mine [OF assms(2)] assms(1) by (auto simp: waits_def ready_entry_def)

lemma create_refines:
  assumes "wf_db d" "wf_File f" "Create \<lparr>instance_id = a\<rparr> ty cfg f d = (None, d')"
  shows "queue_step (queue_of d) a (CallCreate ty cfg f) Done (queue_of d')"
proof -
  let ?s = "\<lparr>instance_id = a\<rparr>" and ?i = "next_id d"
  have "next_id d' = ?i + 1" and own: "owner d' = (owner d)(?i \<mapsto> a)" and new: "?i \<notin> r_id ` set (rows d)"
  proof -
    show new: "?i \<notin> r_id ` set (rows d)" using assms(1) by (auto simp: wf_db_def)
    from assms(3) [unfolded Create_def] show "next_id d' = ?i + 1" "owner d' = (owner d)(?i \<mapsto> a)"
      using new row_at_None [of d ?i]
      by (cases rule: db_Exec_cases; auto simp: fun_eq_iff owner_def row_at_def find_append split: option.split)+
  qed
  moreover obtain i where i: "table_view ?s d i = None" "table_view ?s d' = (table_view ?s d)(i \<mapsto> \<lparr>e_state = JobIdle,
      e_mine = True, e_job = \<lparr>job_ID = i, job_Type = ty, job_File = f, job_Config = cfg, job_Retry = 0\<rparr>\<rparr>)"
    using sql.create_law [OF assms(1,2), of ?s ty cfg None d'] assms(3) by auto
  moreover have "i = ?i"
  proof (rule ccontr)
    assume "i \<noteq> ?i"
    with own have "owner d' i = owner d i" by simp
    with i owner_None [of d i ?s] owner_None [of d' i ?s] show False by simp
  qed
  ultimately have "queue_of d' = \<lparr>q_jobs = (q_jobs (queue_of d))(?i \<mapsto> \<lparr>ow_inst = a, ow_state = JobIdle,
      ow_job = \<lparr>job_ID = ?i, job_Type = ty, job_File = f, job_Config = cfg, job_Retry = 0\<rparr>\<rparr>),
      q_used = insert ?i (q_used (queue_of d))\<rparr>"
    by (intro queue_eqI [of _ ?s]) (auto simp: queue_of_own [of d _ ?s])
  then show ?thesis using queue_step.create [of ?i "queue_of d" a ty cfg f] by simp
qed

lemma update_refines:
  assumes "wf_db d" "wf_File (job_File j)" "Update \<lparr>instance_id = a\<rparr> st j d = (None, d')"
  shows "queue_step (queue_of d) a (CallUpdate st j) Done (queue_of d')"
proof -
  let ?s = "\<lparr>instance_id = a\<rparr>"
  have "table_view ?s d' = (table_view ?s d)(job_ID j :=
      map_option (\<lambda>x. x\<lparr>e_state := st, e_job := j\<rparr>) (table_view ?s d (job_ID j)))"
    using sql.update_law [OF assms(1,2), of ?s st None d'] assms(3) by simp
  then have "queue_of d' = (queue_of d)\<lparr>q_jobs := (q_jobs (queue_of d))(job_ID j :=
      map_option (\<lambda>x. x\<lparr>ow_state := st, ow_job := j\<rparr>) (q_jobs (queue_of d) (job_ID j)))\<rparr>"
    using Update_owner [OF assms(3)]
    by (intro queue_eqI [of _ ?s]) (auto simp: queue_of_own [of d _ ?s] own_def split: option.split)
  then show ?thesis using queue_step.update [of "queue_of d" a st j] by simp
qed

lemma set_error_refines:
  assumes "wf_db d" "SetError \<lparr>instance_id = a\<rparr> i err d = (None, d')"
  shows "queue_step (queue_of d) a (CallSetError i err) Done (queue_of d')"
proof -
  let ?s = "\<lparr>instance_id = a\<rparr>"
  have "table_view ?s d' = (table_view ?s d)(i := map_option (\<lambda>x. x\<lparr>e_state := JobIdle\<rparr>) (table_view ?s d i))"
    using sql.set_error_law [OF assms(1), of ?s i err None d'] assms(2) by simp
  then have "queue_of d' = (queue_of d)\<lparr>q_jobs := (q_jobs (queue_of d))(i :=
      map_option (\<lambda>x. x\<lparr>ow_state := JobIdle\<rparr>) (q_jobs (queue_of d) i))\<rparr>"
    using SetError_owner [OF assms(2)]
    by (intro queue_eqI [of _ ?s]) (auto simp: queue_of_own [of d _ ?s] own_def split: option.split)
  then show ?thesis using queue_step.set_error [of "queue_of d" a i err] by simp
qed

lemma delete_refines:
  assumes "wf_db d" "Delete \<lparr>instance_id = a\<rparr> i d = (None, d')"
  shows "queue_step (queue_of d) a (CallDelete i) Done (queue_of d')"
proof -
  let ?s = "\<lparr>instance_id = a\<rparr>"
  have "table_view ?s d' = (table_view ?s d)(i := None)"
    using sql.delete_law [OF assms(1), of ?s i None d'] assms(2) by simp
  then have "queue_of d' = (queue_of d)\<lparr>q_jobs := (q_jobs (queue_of d))(i := None)\<rparr>"
    using Delete_owner [OF assms(2)]
    by (intro queue_eqI [of _ ?s]) (auto simp: queue_of_own [of d _ ?s])
  then show ?thesis using queue_step.delete [of "queue_of d" a i] by simp
qed

lemma reset_refines:
  assumes "wf_db d" "Reset \<lparr>instance_id = a\<rparr> d = (None, d')"
  shows "queue_step (queue_of d) a CallReset Done (queue_of d')"
proof -
  let ?s = "\<lparr>instance_id = a\<rparr>"
  have v: "table_view ?s d' i =
      map_option (\<lambda>x. if e_mine x then x\<lparr>e_state := JobIdle\<rparr> else x) (table_view ?s d i)" for i
    using Reset_law [OF assms] by simp
  have "own (owner d' i) (table_view ?s d' i) =
      map_option (\<lambda>x. if ow_inst x = a then x\<lparr>ow_state := JobIdle\<rparr> else x) (q_jobs (queue_of d) i)" for i
  proof (cases "table_view ?s d i")
    case (Some e)
    with owner_mine [OF Some] Reset_owner [OF assms(2)] show ?thesis
      by (auto simp: v queue_of_own [of d i ?s])
  qed (simp add: v queue_of_own [of d i ?s])
  then have "queue_of d' = (queue_of d)\<lparr>q_jobs := \<lambda>i. map_option
      (\<lambda>x. if ow_inst x = a then x\<lparr>ow_state := JobIdle\<rparr> else x) (q_jobs (queue_of d) i)\<rparr>"
    using Reset_owner [OF assms(2)] by (intro queue_eqI [of _ ?s]) simp_all
  then show ?thesis using queue_step.reset [of "queue_of d" a] by simp
qed

lemma fetch_refines:
  assumes "wf_db d" "Fetch \<lparr>instance_id = a\<rparr> n ty d = (Inr js, d')"
  shows "queue_step (queue_of d) a (CallFetch n ty) (Jobs js) (queue_of d')"
proof -
  let ?s = "\<lparr>instance_id = a\<rparr>"
  have o: "op_Fetch (sql_ops ?s) n ty d = (Inr js, d')" using assms(2) by simp
  note F = sql.fetch_law [OF assms(1) o]
  have "own (owner d' i) (table_view ?s d' i) = (if i \<in> job_ID ` set js
      then map_option take_up (q_jobs (queue_of d) i) else q_jobs (queue_of d) i)" for i
  proof -
    have "table_view ?s d' i = (if i \<in> job_ID ` set js
        then map_option mark_active (table_view ?s d i) else table_view ?s d i)" using F by blast
    moreover have "owner d' = owner d" using Fetch_owner [OF assms(2)] by simp
    moreover have "own b (map_option mark_active e) = map_option take_up (own b e)" for b e
      by (cases b; cases e) (simp_all add: mark_active_def take_up_def)
    ultimately show ?thesis by (simp add: queue_of_own [of d i ?s])
  qed
  then have q: "queue_of d' = (queue_of d)\<lparr>q_jobs := \<lambda>i. if i \<in> job_ID ` set js
      then map_option take_up (q_jobs (queue_of d) i) else q_jobs (queue_of d) i\<rparr>"
    using Fetch_owner [OF assms(2)] by (intro queue_eqI [of _ ?s]) simp_all
  have each: "\<forall>j \<in> set js. \<exists>x. q_jobs (queue_of d) (job_ID j) = Some x \<and> waits a ty x \<and> ow_job x = j"
  proof
    fix j assume "j \<in> set js"
    with F obtain e where e: "table_view ?s d (job_ID j) = Some e" "ready_entry ty e" "e_job e = j" by blast
    obtain b where b: "owner d (job_ID j) = Some b" using owner_mine [OF e(1)] by blast
    show "\<exists>x. q_jobs (queue_of d) (job_ID j) = Some x \<and> waits a ty x \<and> ow_job x = j"
      using e waits_ready [OF b e(1), of ty] by (simp add: queue_of_own [of d _ ?s] b)
  qed
  have all: "int (length js) < n \<longrightarrow>
      (\<forall>i x. q_jobs (queue_of d) i = Some x \<longrightarrow> waits a ty x \<longrightarrow> i \<in> job_ID ` set js)"
  proof (intro impI allI)
    fix i x assume l: "int (length js) < n" and x: "q_jobs (queue_of d) i = Some x" "waits a ty x"
    from x(1) obtain b e where b: "owner d i = Some b" "table_view ?s d i = Some e"
      and "x = \<lparr>ow_inst = b, ow_state = e_state e, ow_job = e_job e\<rparr>"
      unfolding queue_Some [of d i x ?s] by blast
    with x(2) waits_ready [OF b, of ty] have "ready_entry ty e" by simp
    with F l b(2) show "i \<in> job_ID ` set js" by blast
  qed
  from F have "distinct (List.map job_ID js)" "int (length js) \<le> n" by blast+
  then show ?thesis unfolding q by (rule queue_step.fetch [OF _ _ each all])
qed

text \<open>A refused statement changes nothing.\<close>

lemma refused_same:
  assumes "wf_db d" "wf_call c" "issue a c d = (Refused, d')"
  shows "queue_of d' = queue_of d"
proof -
  let ?s = "\<lparr>instance_id = a\<rparr>"
  have ex: "queue_of d' = queue_of d" if "db_Exec stmt d = (Some e, d')" for stmt e
    using that by (cases rule: db_Exec_cases) (simp_all add: queue_of_def)
  show ?thesis
  proof (cases c)
    case (CallFetch n ty)
    with assms(3) obtain e where f: "Fetch ?s n ty d = (Inl e, d')" by (auto split: prod.splits sum.splits)
    with Fetch_owner [OF f] sql.fetch_err_law [OF assms(1), of ?s n ty e d'] show ?thesis
      by (intro same_queue [of _ _ ?s]) simp_all
  qed (use assms(3) ex in \<open>auto simp: Create_def Update_def SetError_def Delete_def Reset_def
      answer_def split: prod.splits option.splits\<close>)
qed

lemma issue_wf:
  assumes "wf_db d" "wf_call c"
  shows "wf_db (snd (issue a c d))"
proof -
  let ?s = "\<lparr>instance_id = a\<rparr>"
  have w: "snd (answer x) = snd x" for x by (auto simp: answer_def split: prod.split option.split)
  show ?thesis
  proof (cases c)
    case (CallCreate ty cfg f)
    with assms sql.create_law [OF assms(1), of f ?s ty cfg] show ?thesis
      by (cases "Create ?s ty cfg f d") (auto simp: w)
  next
    case (CallUpdate st j)
    with assms sql.update_law [OF assms(1), of j ?s st] show ?thesis
      by (cases "Update ?s st j d") (auto simp: w)
  next
    case (CallSetError i err)
    with sql.set_error_law [OF assms(1), of ?s i err] show ?thesis
      by (cases "SetError ?s i err d") (auto simp: w)
  next
    case (CallFetch n ty)
    with sql.fetch_law [OF assms(1), of ?s n ty] sql.fetch_err_law [OF assms(1), of ?s n ty] show ?thesis
      by (cases "Fetch ?s n ty d") (auto split: sum.split)
  next
    case (CallDelete i)
    with sql.delete_law [OF assms(1), of ?s i] show ?thesis
      by (cases "Delete ?s i d") (auto simp: w)
  next
    case CallReset
    with Reset_wf [OF assms(1)] show ?thesis by (simp add: w)
  qed
qed

lemma issue_refines:
  assumes "wf_db d" "wf_call c" "issue a c d = (r, d')"
  shows "queue_step (queue_of d) a c r (queue_of d')"
proof (cases "r = Refused")
  case True
  with refused_same [OF assms(1,2)] assms(3) show ?thesis by (simp add: queue_step.refused)
next
  case False
  show ?thesis
  proof (cases c)
    case (CallFetch n ty)
    with assms(3) False show ?thesis
      by (auto split: prod.splits sum.splits intro: fetch_refines [OF assms(1)])
  qed (use assms False in \<open>auto elim!: answer_cases intro: create_refines update_refines
      set_error_refines delete_refines reset_refines\<close>)
qed

lemma run_refines:
  "\<lbrakk>wf_db d; \<forall>(a, c) \<in> set cs. wf_call c; store_run cs d = (rs, d')\<rbrakk> \<Longrightarrow>
   wf_db d' \<and> queue_run (queue_of d) cs rs (queue_of d')"
proof (induction cs arbitrary: d rs)
  case Nil
  then show ?case by (auto intro: queue_run.stop)
next
  case (Cons ac cs)
  obtain a c where ac: "ac = (a, c)" by fastforce
  obtain r d1 where i: "issue a c d = (r, d1)" by fastforce
  obtain rs1 where r: "store_run cs d1 = (rs1, d')" "rs = r # rs1"
    using Cons.prems(3) by (auto simp: ac i split: prod.splits)
  have wc: "wf_call c" "\<forall>(a, c) \<in> set cs. wf_call c" using Cons.prems(2) by (simp_all add: ac)
  have d1: "wf_db d1" using issue_wf [OF Cons.prems(1) wc(1), of a] by (simp add: i)
  from Cons.IH [OF d1 wc(2) r(1)] issue_refines [OF Cons.prems(1) wc(1) i] show ?case
    by (auto simp: ac r(2) intro: queue_run.more)
qed

text \<open>
  C8. Any sequence of statements of any processes on a well-formed table, failing or not, is a
  run of the queue of owned jobs: the table stays well formed, and every answer and every
  change is one the specification allows.
\<close>

theorem statements_refine_queue:
  assumes "wf_db d" and "\<forall>(a, c) \<in> set cs. wf_call c" and "store_run cs d = (rs, d')"
  shows "wf_db d' \<and> queue_run (queue_of d) cs rs (queue_of d')"
  by (rule run_refines [OF assms])

theorem statements_refine_queue_witness:
  "\<exists>rs d'. store_run [(''1'', CallReset), (''2'', CallCreate ''upload'' None sample_File),
       (''1'', CallFetch 3 ''upload''), (''2'', CallDelete 4)] (one_row_db ''1'' JobActive waiting_job) = (rs, d') \<and>
     queue_run (queue_of (one_row_db ''1'' JobActive waiting_job))
       [(''1'', CallReset), (''2'', CallCreate ''upload'' None sample_File),
        (''1'', CallFetch 3 ''upload''), (''2'', CallDelete 4)] rs (queue_of d')"
proof -
  let ?cs = "[(''1'', CallReset), (''2'', CallCreate ''upload'' None sample_File),
       (''1'', CallFetch 3 ''upload''), (''2'', CallDelete 4)]"
  obtain rs d' where r: "store_run ?cs (one_row_db ''1'' JobActive waiting_job) = (rs, d')" by fastforce
  have "\<forall>(a, c) \<in> set ?cs. wf_call c" using waiting_job_wf by (simp add: waiting_job_def)
  from statements_refine_queue [OF one_row_db(1) [OF waiting_job_wf] this r] r show ?thesis by blast
qed

section \<open>A job is worked on once at a time\<close>

text \<open>What makes a job that process \<open>a\<close> has taken available again.\<close>

fun releases :: "string \<Rightarrow> int \<Rightarrow> string \<times> store_call \<Rightarrow> bool" where
  "releases a i (b, CallUpdate st j) = (st = JobIdle \<and> job_ID j = i)"
| "releases a i (b, CallSetError k err) = (k = i)"
| "releases a i (b, CallReset) = (b = a)"
| "releases a i (b, _) = False"

text \<open>
  The invariant of a taken job: its id stays used, its row stays with its owner, and it is
  idle only if it was released.
\<close>

definition held :: "string \<Rightarrow> int \<Rightarrow> bool \<Rightarrow> job_queue \<Rightarrow> bool" where
  "held a i released q \<longleftrightarrow> i \<in> q_used q \<and>
     (\<forall>x. q_jobs q i = Some x \<longrightarrow> ow_inst x = a \<and> (ow_state x = JobIdle \<longrightarrow> released))"

inductive_cases step_fetchE: "queue_step q a (CallFetch n ty) (Jobs js) q'"

lemma held_step:
  assumes "queue_step q b c r q'" and "held a i X q"
  shows "held a i (X \<or> r = Done \<and> releases a i (b, c)) q'"
  using assms
proof (cases rule: queue_step.cases)
  case (fetch js n ty)
  with assms(2) show ?thesis by (auto simp: held_def take_up_def split: if_splits)
qed (auto simp: held_def split: if_splits)

lemma held_run:
  "\<lbrakk>queue_run q cs rs q'; held a i X q\<rbrakk> \<Longrightarrow>
   held a i (X \<or> (\<exists>c. (c, Done) \<in> set (zip cs rs) \<and> releases a i c)) q'"
proof (induction arbitrary: X rule: queue_run.induct)
  case (more q b c r q1 cs rs q2)
  let ?X = "X \<or> r = Done \<and> releases a i (b, c)"
  have "held a i (?X \<or> (\<exists>c. (c, Done) \<in> set (zip cs rs) \<and> releases a i c)) q2"
    using more.IH [OF held_step [OF more.hyps(1) more.prems]] .
  then show ?case by (auto simp: held_def)
qed (auto simp: held_def)

lemma fetched_held:
  assumes "queue_step q a (CallFetch n ty) (Jobs js) q'" and "i \<in> job_ID ` set js"
    and "dom (q_jobs q) \<subseteq> q_used q"
  shows "held a i False q'"
  using assms(1)
proof (rule step_fetchE)
  assume q': "q' = q\<lparr>q_jobs := \<lambda>i. if i \<in> job_ID ` set js then map_option take_up (q_jobs q i) else q_jobs q i\<rparr>"
    and js: "\<forall>j \<in> set js. \<exists>x. q_jobs q (job_ID j) = Some x \<and> waits a ty x \<and> ow_job x = j"
  from js assms(2) obtain x where x: "q_jobs q i = Some x" "waits a ty x" by blast
  with assms(3) have "i \<in> q_used q" by blast
  with x assms(2) show ?thesis by (simp add: held_def q' take_up_def waits_def)
qed

lemma held_fetched:
  assumes "queue_step q b (CallFetch n ty) (Jobs js) q'" and "i \<in> job_ID ` set js" and "held a i X q"
  shows "a = b \<and> X"
  using assms(1)
proof (rule step_fetchE)
  assume "\<forall>j \<in> set js. \<exists>x. q_jobs q (job_ID j) = Some x \<and> waits b ty x \<and> ow_job x = j"
  with assms(2) obtain x where "q_jobs q i = Some x" "waits b ty x" by blast
  with assms(3) show ?thesis by (auto simp: held_def waits_def)
qed

lemma queue_dom: "wf_db d \<Longrightarrow> dom (q_jobs (queue_of d)) \<subseteq> q_used (queue_of d)"
  by (auto simp: queue_of_def wf_db_def dest!: row_at_Some)

text \<open>
  C7. Two fetches, by any processes and with any statements of any processes in between, hand
  out the same job only if both processes are the same one and in between the job was
  released: its error was recorded, it was put back as idle, or its process was started again.
\<close>

theorem job_taken_once:
  assumes "wf_db d" and "Fetch \<lparr>instance_id = a\<rparr> n ty d = (Inr js, d1)"
    and "\<forall>(p, c) \<in> set cs. wf_call c" and "store_run cs d1 = (rs, d2)"
    and "Fetch \<lparr>instance_id = b\<rparr> m ty' d2 = (Inr ks, d3)"
    and "i \<in> job_ID ` set js" and "i \<in> job_ID ` set ks"
  shows "a = b \<and> (\<exists>c. (c, Done) \<in> set (zip cs rs) \<and> releases a i c)"
proof -
  have d1: "wf_db d1" using sql.fetch_law [OF assms(1), of "\<lparr>instance_id = a\<rparr>"] assms(2) by simp
  from run_refines [OF d1 assms(3,4)] have d2: "wf_db d2" and
    run: "queue_run (queue_of d1) cs rs (queue_of d2)" by simp_all
  from fetched_held [OF fetch_refines [OF assms(1,2)] assms(6) queue_dom [OF assms(1)]]
  have "held a i False (queue_of d1)" .
  from held_fetched [OF fetch_refines [OF d2 assms(5)] assms(7) held_run [OF run this]] show ?thesis by blast
qed

lemma fetch_single:
  assumes "wf_db d" "db_healthy d" "table_view s d = [i \<mapsto> e]" "ready_entry ty e" "1 < n"
  shows "\<exists>js d'. Fetch s n ty d = (Inr js, d') \<and> wf_db d' \<and> db_healthy d' \<and> i \<in> job_ID ` set js \<and>
    table_view s d' = [i \<mapsto> mark_active e]"
proof -
  obtain js d' where f: "Fetch s n ty d = (Inr js, d')"
    using healthy_Fetch [OF assms(1,2), of n s ty] assms(5) by (cases "Fetch s n ty d") auto
  note F = sql.fetch_law [OF assms(1), of s n ty js d', simplified, OF f]
  from F assms(3) have ids: "job_ID ` set js \<subseteq> {i}" by (fastforce split: if_splits)
  have "length js \<le> 1"
    using F distinct_card [of "List.map job_ID js"] card_mono [OF _ ids] by simp
  with F assms(3-5) have i: "i \<in> job_ID ` set js" by auto
  have "table_view s d' = [i \<mapsto> mark_active e]"
  proof
    fix k
    have "table_view s d' k = (if k \<in> job_ID ` set js then map_option mark_active (table_view s d k)
        else table_view s d k)" using F by blast
    then show "table_view s d' k = [i \<mapsto> mark_active e] k" using i ids assms(3) by auto
  qed
  then show ?thesis using f F i healthy_preserved(5) [OF assms(2), of s n ty] by auto
qed

theorem job_taken_once_witness:
  "\<exists>js d1 d2 ks d3. Fetch \<lparr>instance_id = ''1''\<rparr> 3 ''upload'' (one_row_db ''1'' JobIdle waiting_job) = (Inr js, d1) \<and>
     store_run [(''1'', CallSetError 4 EOF)] d1 = ([Done], d2) \<and>
     Fetch \<lparr>instance_id = ''1''\<rparr> 3 ''upload'' d2 = (Inr ks, d3) \<and>
     (\<exists>c. (c, Done) \<in> set (zip [(''1'', CallSetError 4 EOF)] [Done]) \<and> releases ''1'' 4 c)"
proof -
  let ?d = "one_row_db ''1'' JobIdle waiting_job" and ?s = "\<lparr>instance_id = ''1''\<rparr>"
  let ?cs = "[(''1'', CallSetError 4 EOF)]"
  let ?e = "\<lparr>e_state = JobIdle, e_mine = True, e_job = waiting_job\<rparr>"
  have d: "wf_db ?d" "db_healthy ?d" "table_view ?s ?d = [4 \<mapsto> ?e]"
    using one_row_db [OF waiting_job_wf, of "''1''" JobIdle] by (simp_all add: waiting_job_def)
  have "ready_entry ''upload'' ?e" by (simp add: ready_entry_def waiting_job_def)
  from fetch_single [OF d this, of 3] obtain js d1 where f1: "Fetch ?s 3 ''upload'' ?d = (Inr js, d1)"
    "wf_db d1" "db_healthy d1" "4 \<in> job_ID ` set js" "table_view ?s d1 = [4 \<mapsto> mark_active ?e]" by auto
  obtain d2 where se: "SetError ?s 4 EOF d1 = (None, d2)"
    using healthy_ops(3) [OF f1(3), of ?s 4 EOF] by (cases "SetError ?s 4 EOF d1") auto
  have d2: "wf_db d2" "db_healthy d2" "table_view ?s d2 = [4 \<mapsto> (mark_active ?e)\<lparr>e_state := JobIdle\<rparr>]"
    using sql.set_error_law [OF f1(2), of ?s 4 EOF None d2] healthy_preserved(3) [OF f1(3), of ?s 4 EOF] se
    by (simp_all add: f1(5))
  have "ready_entry ''upload'' ((mark_active ?e)\<lparr>e_state := JobIdle\<rparr>)"
    by (simp add: ready_entry_def mark_active_def waiting_job_def)
  from fetch_single [OF d2 this, of 3] obtain ks d3 where f2: "Fetch ?s 3 ''upload'' d2 = (Inr ks, d3)"
    "4 \<in> job_ID ` set ks" by auto
  have r: "store_run ?cs d1 = ([Done], d2)" by (simp add: answer_def se)
  have "\<forall>(p, c) \<in> set ?cs. wf_call c" by simp
  from job_taken_once [OF d(1) f1(1) this r f2(1) f1(4) f2(2)] f1(1) r f2(1) show ?thesis by blast
qed

end
