(* ===== verification/Job_Work.thy ===== *)
theory Job_Work
  imports Transcoder
begin

text \<open>
  What a job service is meant to do, without channels, goroutines and SQL: it has some jobs in
  hand, a multiset, and it shares a table with others. The state is the pair of the two; a step
  fetches jobs into the hand or takes one out of it. \<^verbatim>\<open>Job_Services\<close> shows that the listeners,
  pools and executors of the code refine this.
\<close>

section \<open>The specification\<close>

text \<open>
  What an execution leaves in the table when its statement is carried out: no row, an idle row
  for a retry, or, for a service with a successor, an idle row of the next type.
\<close>

definition settled_to :: "string option \<Rightarrow> int \<Rightarrow> Job \<Rightarrow> job_table \<Rightarrow> job_table \<Rightarrow> bool" where
  "settled_to nx m j t t' \<longleftrightarrow>
     t' = t(job_ID j := None) \<or>
     job_Retry j < m \<and> t' = t(job_ID j \<mapsto> \<lparr>e_state = JobIdle, e_mine = True, e_job = j\<rparr>) \<or>
     (\<exists>ty' f. nx = Some ty' \<and> t' = t(job_ID j \<mapsto> \<lparr>e_state = JobIdle, e_mine = True,
        e_job = j\<lparr>job_File := f, job_Type := ty', job_Retry := 0\<rparr>\<rparr>))"

text \<open>
  The flag \<open>H\<close> says that the table always answers. When it does not, a job can leave the hand
  with its row as it is.
\<close>

inductive work_step ::
  "bool \<Rightarrow> string \<Rightarrow> string option \<Rightarrow> int \<Rightarrow> Job multiset \<times> job_table \<Rightarrow> Job multiset \<times> job_table \<Rightarrow> bool"
  for H ty nx m where
  skip: "work_step H ty nx m (M, t) (M, t)"
| fetch: "\<lbrakk>distinct (List.map job_ID js);
     \<forall>j \<in> set js. \<exists>e. t (job_ID j) = Some e \<and> ready_entry ty e \<and>
       j = (e_job e)\<lparr>job_Retry := job_Retry (e_job e) + 1\<rparr> \<and>
       t' (job_ID j) = Some \<lparr>e_state = JobActive, e_mine = True, e_job = j\<rparr>;
     \<forall>i. i \<notin> job_ID ` set js \<longrightarrow> t' i = t i\<rbrakk> \<Longrightarrow>
   work_step H ty nx m (M, t) (mset js + M, t')"
| settle: "settled_to nx m j t t' \<Longrightarrow> work_step H ty nx m (add_mset j M, t) (M, t')"
| lose: "\<not> H \<Longrightarrow> work_step H ty nx m (add_mset j M, t) (M, t)"

section \<open>The jobs in hand and the active rows\<close>

definition keyed :: "job_table \<Rightarrow> bool" where
  "keyed t \<longleftrightarrow> (\<forall>i e. t i = Some e \<longrightarrow> job_ID (e_job e) = i)"

text \<open>
  Each job in hand is there once and its row is active; and, when the table always answers,
  each active row of the type is in hand.
\<close>

definition in_hand :: "bool \<Rightarrow> string \<Rightarrow> Job multiset \<Rightarrow> job_table \<Rightarrow> bool" where
  "in_hand H ty M t \<longleftrightarrow>
     (\<forall>j. j \<in># M \<longrightarrow> t (job_ID j) = Some \<lparr>e_state = JobActive, e_mine = True, e_job = j\<rparr> \<and>
        job_Type j = ty \<and> count M j = 1) \<and>
     (H \<longrightarrow> (\<forall>i e. t i = Some e \<longrightarrow> e_mine e \<longrightarrow> e_state e = JobActive \<longrightarrow> job_Type (e_job e) = ty \<longrightarrow>
        e_job e \<in># M))"

lemma in_handD:
  assumes "in_hand H ty M t" "j \<in># M"
  shows "t (job_ID j) = Some \<lparr>e_state = JobActive, e_mine = True, e_job = j\<rparr>"
    "job_Type j = ty" "count M j = 1"
  using assms by (auto simp: in_hand_def)

lemma in_hand_active:
  "\<lbrakk>in_hand True ty M t; t i = Some e; e_mine e; e_state e = JobActive; job_Type (e_job e) = ty\<rbrakk> \<Longrightarrow>
   e_job e \<in># M"
  by (auto simp: in_hand_def)

text \<open>Only the own rows matter.\<close>

definition own_table :: "job_table \<Rightarrow> job_table" where
  "own_table t i = (case t i of Some e \<Rightarrow> if e_mine e then Some e else None | None \<Rightarrow> None)"

lemma own_table_Some: "own_table t i = Some e \<longleftrightarrow> t i = Some e \<and> e_mine e"
  by (auto simp: own_table_def split: option.splits)

lemma in_hand_own_table: "in_hand H ty M (own_table t) = in_hand H ty M t"
  by (auto simp: in_hand_def own_table_Some)

lemma in_hand_cong: "own_table t = own_table t' \<Longrightarrow> in_hand H ty M t = in_hand H ty M t'"
  by (metis in_hand_own_table)

lemma count_mset_distinct: "distinct js \<Longrightarrow> count (mset js) j = (if j \<in> set js then 1 else 0)"
  by (induction js) auto

text \<open>How a step changes the rows: idle rows of the type become active, a job in hand is settled.\<close>

lemma settled_to_other: "settled_to nx m j t t' \<Longrightarrow> i \<noteq> job_ID j \<Longrightarrow> t' i = t i"
  by (auto simp: settled_to_def)

lemma settled_to_idle: "settled_to nx m j t t' \<Longrightarrow> t' (job_ID j) = Some e \<Longrightarrow> e_state e = JobIdle \<and> e_mine e"
  by (auto simp: settled_to_def)

lemma fetched_rows:
  assumes "\<forall>j \<in> set js. \<exists>e. t (job_ID j) = Some e \<and> ready_entry ty e \<and>
       j = (e_job e)\<lparr>job_Retry := job_Retry (e_job e) + 1\<rparr> \<and>
       t' (job_ID j) = Some \<lparr>e_state = JobActive, e_mine = True, e_job = j\<rparr>"
    and "j \<in> set js"
  obtains e where "t (job_ID j) = Some e" "e_state e = JobIdle" "e_mine e" "job_Type (e_job e) = ty"
    "j = (e_job e)\<lparr>job_Retry := job_Retry (e_job e) + 1\<rparr>" "job_Type j = ty"
    "t' (job_ID j) = Some \<lparr>e_state = JobActive, e_mine = True, e_job = j\<rparr>"
proof -
  from assms obtain e where e: "t (job_ID j) = Some e" "ready_entry ty e"
    "j = (e_job e)\<lparr>job_Retry := job_Retry (e_job e) + 1\<rparr>"
    "t' (job_ID j) = Some \<lparr>e_state = JobActive, e_mine = True, e_job = j\<rparr>" by blast
  moreover have "job_Type j = ty" using e(2,3) by (metis (no_types) Job.select_convs(2) Job.surjective
        Job.update_convs(5) ready_entry_def)
  ultimately show thesis using that by (simp add: ready_entry_def)
qed

lemma step_keeps_held:
  assumes "work_step H ty nx m (M, t) (M', t')"
    and "t i = Some e" "e_state e = JobActive" "i \<notin> job_ID ` set_mset M"
  shows "t' i = Some e \<and> i \<notin> job_ID ` set_mset M'"
  using assms(1)
proof cases
  case (fetch js)
  have "i \<notin> job_ID ` set js"
  proof
    assume "i \<in> job_ID ` set js"
    then obtain j where "j \<in> set js" "i = job_ID j" by blast
    with fetched_rows [OF fetch(3) this(1)] assms(2,3) show False by (metis JobState.distinct(1) option.inject)
  qed
  with fetch assms(2,4) show ?thesis by auto
next
  case (settle j)
  then have "i \<noteq> job_ID j" using assms(4) by auto
  with settle(1) assms(2,4) settled_to_other [OF settle(2)] show ?thesis by auto
qed (use assms in auto)

text \<open>Rows of other owners and rows that are not there are left alone.\<close>

lemma step_frame:
  assumes "work_step H ty nx m (M, t) (M', t')" and "in_hand H ty M t"
  shows "(t i = Some e \<longrightarrow> \<not> e_mine e \<longrightarrow> t' i = Some e) \<and> (t i = None \<longrightarrow> t' i = None)"
  using assms(1)
proof cases
  case (fetch js)
  show ?thesis
  proof (cases "i \<in> job_ID ` set js")
    case True
    then obtain j where "j \<in> set js" "i = job_ID j" by blast
    with fetched_rows [OF fetch(3) this(1)] show ?thesis by (metis option.distinct(1) option.inject)
  qed (use fetch in simp)
next
  case (settle j)
  then have "t (job_ID j) = Some \<lparr>e_state = JobActive, e_mine = True, e_job = j\<rparr>"
    using in_handD(1) [OF assms(2), of j] by simp
  then show ?thesis using settled_to_other [OF settle(2), of i] by (cases "i = job_ID j") auto
qed simp_all

lemma step_in_hand:
  assumes "work_step H ty nx m (M, t) (M', t')" and "in_hand H ty M t" "keyed t" "nx \<noteq> Some ty"
  shows "in_hand H ty M' t'"
  using assms(1)
proof cases
  case skip
  with assms(2) show ?thesis by simp
next
  case (fetch js)
  note row = fetched_rows [OF fetch(3)]
  have out: "job_ID j \<notin> job_ID ` set js" if "j \<in># M" for j
  proof
    assume "job_ID j \<in> job_ID ` set js"
    then obtain k where "k \<in> set js" "job_ID j = job_ID k" by blast
    with row [OF this(1)] in_handD(1) [OF assms(2) that] show False
      by (metis JobState.distinct(1) job_entry.select_convs(1) option.inject)
  qed
  then have dis: "j \<notin># M" if "j \<in> set js" for j using that by blast
  have d: "distinct js" using fetch(2) by (simp add: distinct_map)
  show ?thesis unfolding in_hand_def
  proof (intro conjI allI impI)
    fix j assume j: "j \<in># M'"
    show "t' (job_ID j) = Some \<lparr>e_state = JobActive, e_mine = True, e_job = j\<rparr>" "job_Type j = ty"
      "count M' j = 1"
    proof -
      show "t' (job_ID j) = Some \<lparr>e_state = JobActive, e_mine = True, e_job = j\<rparr>"
        using j fetch out [of j] in_handD(1) [OF assms(2), of j] by auto
      show "job_Type j = ty" using j fetch(1) in_handD(2) [OF assms(2), of j] by (auto elim: row)
      show "count M' j = 1"
        using j fetch(1) in_handD(3) [OF assms(2), of j] dis [of j] count_mset_distinct [OF d, of j]
        by (auto simp: count_eq_zero_iff)
    qed
  next
    fix i e
    assume H: "H" and e: "t' i = Some e" "e_mine e" "e_state e = JobActive" "job_Type (e_job e) = ty"
    show "e_job e \<in># M'"
    proof (cases "i \<in> job_ID ` set js")
      case True
      then obtain j where "j \<in> set js" "i = job_ID j" by blast
      then have "e_job e = j" using fetch(3) e(1) by (metis job_entry.select_convs(3) option.inject)
      with \<open>j \<in> set js\<close> fetch(1) show ?thesis by simp
    next
      case False
      with fetch(1,4) H assms(2) e show ?thesis by (auto simp: in_hand_def)
    qed
  qed
next
  case (settle j)
  have j: "j \<in># M" "M = add_mset j M'" using settle by simp_all
  note tj = in_handD [OF assms(2) j(1)]
  have "count M' j = 0" using tj(3) unfolding j(2) by simp
  then have no: "j \<notin># M'" by (simp add: count_eq_zero_iff)
  have ne: "job_ID k \<noteq> job_ID j" if "k \<in># M'" for k
  proof
    assume "job_ID k = job_ID j"
    moreover have "k \<in># M" using that j(2) by simp
    ultimately have "k = j" by (metis in_handD(1) [OF assms(2)] tj(1) job_entry.select_convs(3) option.inject)
    with that no show False by simp
  qed
  show ?thesis unfolding in_hand_def
  proof (intro conjI allI impI)
    fix k assume k: "k \<in># M'"
    then have kM: "k \<in># M" using j(2) by simp
    note D = in_handD [OF assms(2) kM]
    show "t' (job_ID k) = Some \<lparr>e_state = JobActive, e_mine = True, e_job = k\<rparr>" "job_Type k = ty"
      using D settled_to_other [OF settle(2) ne [OF k]] by simp_all
    show "count M' k = 1" using D(3) j(2) k no by (auto split: if_splits)
  next
    fix i e
    assume H: "H" and e: "t' i = Some e" "e_mine e" "e_state e = JobActive" "job_Type (e_job e) = ty"
    have i: "i \<noteq> job_ID j" using settled_to_idle [OF settle(2), of e] e by auto
    then have t: "t i = Some e" using e settled_to_other [OF settle(2) i] by simp
    with assms(2) H e have "e_job e \<in># M" by (auto simp: in_hand_def)
    moreover have "e_job e \<noteq> j" using t i assms(3) by (auto simp: keyed_def)
    ultimately show "e_job e \<in># M'" using j(2) by auto
  qed
next
  case (lose j)
  then have l: "\<not> H" "M = add_mset j M'" "t' = t" by simp_all
  have "count M' k = 1" if "k \<in># M'" for k
  proof -
    have "count M k = 1" "count M' k > 0" using in_handD(3) [OF assms(2), of k] that l(2) by simp_all
    moreover have "count M' k \<noteq> 0" using that by (simp add: count_eq_zero_iff)
    ultimately show ?thesis unfolding l(2) by (cases "k = j") simp_all
  qed
  then show ?thesis using assms(2) l by (auto simp: in_hand_def)
qed

text \<open>The hand of another service of the same process keeps its jobs and its rows.\<close>

lemma step_other_type:
  assumes "work_step H ty nx m (M, t) (M', t')" and "in_hand H ty M t" "ty' \<noteq> ty" "in_hand H ty' N t"
  shows "in_hand H ty' N t'"
proof -
  have keep: "t' i = t i" if "t i = Some e" "job_Type (e_job e) = ty'" for i e
    using assms(1)
  proof cases
    case (fetch js)
    have "i \<notin> job_ID ` set js"
    proof
      assume "i \<in> job_ID ` set js"
      then obtain j where "j \<in> set js" "i = job_ID j" by blast
      with fetched_rows [OF fetch(3) this(1)] that assms(3) show False by (metis option.inject)
    qed
    with fetch show ?thesis by simp
  next
    case (settle j)
    with in_handD(1,2) [OF assms(2), of j] that assms(3) have "i \<noteq> job_ID j" by auto
    with settled_to_other [OF settle(2)] show ?thesis by simp
  qed simp_all
  have came: "t i = Some e" if e: "t' i = Some e" "e_state e = JobActive" "job_Type (e_job e) = ty'" for i e
    using assms(1)
  proof cases
    case (fetch js)
    have "i \<notin> job_ID ` set js"
    proof
      assume "i \<in> job_ID ` set js"
      then obtain j where "j \<in> set js" "i = job_ID j" by blast
      with fetched_rows [OF fetch(3) this(1)] e assms(3) show False
        by (metis job_entry.select_convs(3) option.inject)
    qed
    with fetch e show ?thesis by simp
  next
    case (settle j)
    with settled_to_idle [OF settle(2), of e] e have "i \<noteq> job_ID j" by auto
    with settled_to_other [OF settle(2)] e show ?thesis by simp
  qed (use e in simp_all)
  show ?thesis unfolding in_hand_def
  proof (intro conjI allI impI)
    fix j assume "j \<in># N"
    note D = in_handD [OF assms(4) this]
    with keep [OF D(1)] show "t' (job_ID j) = Some \<lparr>e_state = JobActive, e_mine = True, e_job = j\<rparr>"
      "job_Type j = ty'" "count N j = 1" by simp_all
  next
    fix i e
    assume e: "H" "t' i = Some e" "e_mine e" "e_state e = JobActive" "job_Type (e_job e) = ty'"
    from came [OF e(2,4,5)] have "t i = Some e" .
    with assms(4) e(1,3-5) show "e_job e \<in># N" unfolding in_hand_def by blast
  qed
qed

section \<open>The work that is left\<close>

text \<open>
  How often a job is still taken up and put down, when no one adds work: an idle row is fetched
  and then executed; a transcoding job may become an upload job.
\<close>

definition turns :: "int \<Rightarrow> JobState \<Rightarrow> int \<Rightarrow> nat" where
  "turns m st r = (case st of JobActive \<Rightarrow> 1 + 2 * nat (m - r) | JobIdle \<Rightarrow> 2 + 2 * nat (m - r - 1))"

definition effort :: "int \<Rightarrow> int \<Rightarrow> job_entry option \<Rightarrow> nat" where
  "effort mt mu x = (case x of
     None \<Rightarrow> 0
   | Some e \<Rightarrow>
       if \<not> e_mine e then 0
       else if job_Type (e_job e) = UploadJobName then turns mu (e_state e) (job_Retry (e_job e))
       else if job_Type (e_job e) = TranscodingJobName
         then turns mt (e_state e) (job_Retry (e_job e)) + turns mu JobIdle 0
       else 0)"

definition table_effort :: "int \<Rightarrow> int \<Rightarrow> job_table \<Rightarrow> nat" where
  "table_effort mt mu t = (\<Sum>i \<in> dom t. effort mt mu (t i))"

lemma effort_None [simp]: "effort mt mu None = 0"
  by (simp add: effort_def)

lemma table_effort_on:
  assumes "finite A" "dom t \<subseteq> A"
  shows "table_effort mt mu t = (\<Sum>i \<in> A. effort mt mu (t i))"
  unfolding table_effort_def using assms
  by (intro sum.mono_neutral_left) (auto simp: domIff)

lemma job_names [simp]: "TranscodingJobName \<noteq> UploadJobName" "UploadJobName \<noteq> TranscodingJobName"
  by (simp_all add: TranscodingJobName_def UploadJobName_def)

text \<open>The two services of the program.\<close>

definition service_of :: "string \<Rightarrow> string option \<Rightarrow> int \<Rightarrow> int \<Rightarrow> int \<Rightarrow> bool" where
  "service_of ty nx m mt mu \<longleftrightarrow>
     (ty = UploadJobName \<and> nx = None \<and> m = mu) \<or>
     (ty = TranscodingJobName \<and> nx = Some UploadJobName \<and> m = mt)"

lemma effort_fetch:
  assumes "service_of ty nx m mt mu" "ready_entry ty e"
  shows "Suc (effort mt mu (Some \<lparr>e_state = JobActive, e_mine = True,
      e_job = (e_job e)\<lparr>job_Retry := job_Retry (e_job e) + 1\<rparr>\<rparr>)) \<le> effort mt mu (Some e)"
  using assms by (auto simp: effort_def turns_def service_of_def ready_entry_def algebra_simps)

lemma effort_settle:
  assumes "service_of ty nx m mt mu" "settled_to nx m j t t'" "job_Type j = ty"
    and "t (job_ID j) = Some \<lparr>e_state = JobActive, e_mine = True, e_job = j\<rparr>"
  shows "effort mt mu (t' i) \<le> effort mt mu (t i)"
proof (cases "i = job_ID j")
  case True
  with assms show ?thesis
    by (auto simp: effort_def turns_def service_of_def settled_to_def)
qed (use settled_to_other [OF assms(2)] in simp)

lemma step_effort:
  assumes "work_step H ty nx m (M, t) (M', t')" and "in_hand H ty M t"
    and "service_of ty nx m mt mu" "finite (dom t)"
  shows "table_effort mt mu t' + (size M' - size M) \<le> table_effort mt mu t \<and> dom t' \<subseteq> dom t"
proof -
  have sub: "dom t' \<subseteq> dom t"
    using step_frame [OF assms(1,2)] by (auto simp: dom_def) (metis not_Some_eq)
  note E = table_effort_on [OF assms(4) sub, of mt mu] table_effort_on [OF assms(4) order_refl, of mt mu]
  show ?thesis using assms(1)
  proof cases
    case (fetch js)
    let ?b = "\<lambda>i. if i \<in> job_ID ` set js then 1 else 0 :: nat"
    have "effort mt mu (t' i) + ?b i \<le> effort mt mu (t i)" for i
    proof (cases "i \<in> job_ID ` set js")
      case True
      then obtain j where "j \<in> set js" "i = job_ID j" by blast
      with fetch(3) obtain e where "t i = Some e" "ready_entry ty e"
        "j = (e_job e)\<lparr>job_Retry := job_Retry (e_job e) + 1\<rparr>"
        "t' i = Some \<lparr>e_state = JobActive, e_mine = True, e_job = j\<rparr>" by blast
      with effort_fetch [OF assms(3), of e] True show ?thesis by simp
    qed (use fetch in simp)
    then have "(\<Sum>i \<in> dom t. effort mt mu (t' i) + ?b i) \<le> (\<Sum>i \<in> dom t. effort mt mu (t i))"
      by (intro sum_mono) simp
    moreover have "job_ID ` set js \<subseteq> dom t"
      using fetch(3) by auto
    then have "(\<Sum>i \<in> dom t. ?b i) = length js"
      using assms(4) fetch(2) distinct_card [of "List.map job_ID js"]
      by (simp add: sum.If_cases Int_absorb1)
    ultimately show ?thesis using sub fetch(1) by (simp add: E sum.distrib)
  next
    case (settle j)
    then have j: "j \<in># M" by simp
    have "(\<Sum>i \<in> dom t. effort mt mu (t' i)) \<le> (\<Sum>i \<in> dom t. effort mt mu (t i))"
      by (intro sum_mono effort_settle [OF assms(3) settle(2) in_handD(2,1) [OF assms(2) j]])
    with settle(1) sub show ?thesis by (simp add: E)
  qed (use sub in simp_all)
qed

lemma effort_positive:
  assumes "t i = Some e" "e_mine e" "job_Type (e_job e) \<in> {TranscodingJobName, UploadJobName}" "finite (dom t)"
  shows "0 < table_effort mt mu t"
proof -
  have "0 < effort mt mu (t i)" using assms(1-3) by (auto simp: effort_def turns_def split: JobState.split)
  moreover have "i \<in> dom t" using assms(1) by blast
  ultimately show ?thesis
    unfolding table_effort_def using assms(4) by (metis gr_zeroI sum_eq_0_iff less_nat_zero_code)
qed

end
