(* ===== verification/Job_Services.thy ===== *)
theory Job_Services
  imports App Job_Runs Job_Work
begin

text \<open>
  The two job services as they run: the goroutine of \<open>listen\<close>, the channel and the workers of
  its pool, and the executions, interleaved step by step over one shared table; then any number
  of processes over that table, with their sessions, crashes and restarts.
\<close>

section \<open>One service\<close>

text \<open>\<open>ln_pending\<close> are the fetched jobs the \<open>for\<close> loop of \<open>listen\<close> has not yet passed to the pool.\<close>

record listener = "Job job_service" +
  ln_pending :: "Job list"

definition listening :: "Job job_service \<Rightarrow> listener" where
  "listening sv = \<lparr>js_limit = js_limit sv, js_maxRetry = js_maxRetry sv, js_pool = js_pool sv, ln_pending = []\<rparr>"

datatype svc_event =
    Tick "Job list" | Hand Job | Meet Job nat | TakeUp nat | Settle nat
  | Quit nat | Cancelled | CloseTasks

text \<open>
  \<open>Execute\<close> uses the table once, in its last statement; that statement and the return of the
  worker are one step. Whatever happens to files and streams before is part of \<open>exec\<close>. The
  \<open>select\<close> of \<open>listen\<close> is only reached when every fetched job was passed on.
\<close>

inductive service_step ::
  "'d JobStoreOps \<Rightarrow> string \<Rightarrow> (Job \<Rightarrow> 'd \<Rightarrow> 'd \<Rightarrow> bool) \<Rightarrow> listener \<times> 'd \<Rightarrow> svc_event \<Rightarrow> listener \<times> 'd \<Rightarrow> bool"
  for ops ty exec where
  tick: "\<lbrakk>ln_pending l = []; \<not> p_closed (js_pool l); listen_tick ops (js_limit l) ty d = (js, d')\<rbrakk> \<Longrightarrow>
     service_step ops ty exec (l, d) (Tick js) (l\<lparr>ln_pending := js\<rparr>, d')"
| hand: "\<lbrakk>ln_pending l = j # js; pool_step (js_pool l) (Exec j) p\<rbrakk> \<Longrightarrow>
     service_step ops ty exec (l, d) (Hand j) (l\<lparr>js_pool := p, ln_pending := js\<rparr>, d)"
| meet: "\<lbrakk>ln_pending l = j # js; pool_step (js_pool l) (Handoff j i) p\<rbrakk> \<Longrightarrow>
     service_step ops ty exec (l, d) (Meet j i) (l\<lparr>js_pool := p, ln_pending := js\<rparr>, d)"
| take_up: "pool_step (js_pool l) (Take i) p \<Longrightarrow>
     service_step ops ty exec (l, d) (TakeUp i) (l\<lparr>js_pool := p\<rparr>, d)"
| settle: "\<lbrakk>p_workers (js_pool l) ! i = Running j; pool_step (js_pool l) (Finish i) p; exec j d d'\<rbrakk> \<Longrightarrow>
     service_step ops ty exec (l, d) (Settle i) (l\<lparr>js_pool := p\<rparr>, d')"
| quit: "pool_step (js_pool l) (WorkerExit i) p \<Longrightarrow>
     service_step ops ty exec (l, d) (Quit i) (l\<lparr>js_pool := p\<rparr>, d)"
| cancelled: "pool_step (js_pool l) Cancel p \<Longrightarrow>
     service_step ops ty exec (l, d) Cancelled (l\<lparr>js_pool := p\<rparr>, d)"
| close_tasks: "\<lbrakk>ln_pending l = []; p_done (js_pool l); \<not> p_closed (js_pool l); pool_step (js_pool l) ClosePool p\<rbrakk> \<Longrightarrow>
     service_step ops ty exec (l, d) CloseTasks (l\<lparr>js_pool := p\<rparr>, d)"

inductive_cases service_stepE [consumes 1, case_names tick hand meet take_up settle quit cancelled close_tasks]:
  "service_step ops ty exec (l, d) ev (l', d')"

text \<open>The jobs a service has taken from the table and not settled, wherever they are.\<close>

definition taken :: "listener \<Rightarrow> Job multiset" where
  "taken l = mset (ln_pending l) + mset (p_tasks (js_pool l)) + all_running (p_workers (js_pool l))"

text \<open>No send can panic: the tasks are closed only when nothing is left to send.\<close>

definition sends_ok :: "listener \<Rightarrow> bool" where
  "sends_ok l \<longleftrightarrow> \<not> p_panic (js_pool l) \<and> (p_closed (js_pool l) \<longrightarrow> ln_pending l = [])"

text \<open>Steps that move a job: those of a service that is neither idle nor going down.\<close>

fun moves :: "svc_event \<Rightarrow> bool" where
  "moves (Tick js) = (js \<noteq> [])"
| "moves (Hand j) = True"
| "moves (Meet j i) = True"
| "moves (TakeUp i) = True"
| "moves (Settle i) = True"
| "moves _ = False"

definition place :: "listener \<Rightarrow> nat" where
  "place l = 3 * length (ln_pending l) + 2 * length (p_tasks (js_pool l)) +
     size (all_running (p_workers (js_pool l)))"

definition up_and_running :: "listener \<Rightarrow> bool" where
  "up_and_running l \<longleftrightarrow> 0 < js_limit l \<and> \<not> p_closed (js_pool l) \<and> (\<exists>w \<in> set (p_workers (js_pool l)). w \<noteq> Exited)"

lemma size_taken: "size (taken l) = length (ln_pending l) + length (p_tasks (js_pool l)) +
    size (all_running (p_workers (js_pool l)))"
  by (simp add: taken_def)

inductive_cases handoffE [consumes 1]: "pool_step p (Handoff t i) q"
inductive_cases takeE [consumes 1]: "pool_step p (Take i) q"
inductive_cases finishE [consumes 1]: "pool_step p (Finish i) q"
inductive_cases quitE [consumes 1]: "pool_step p (WorkerExit i) q"
inductive_cases cancelE [consumes 1]: "pool_step p Cancel q"
inductive_cases closeE [consumes 1]: "pool_step p ClosePool q"

lemma running_started:
  assumes "i < length ws" "ws ! i = Waiting"
  shows "all_running (ws[i := Running t]) = add_mset t (all_running ws)"
  using all_running_update [OF assms(1), of "Running t"] assms(2) by simp

lemma running_left:
  assumes "i < length ws" "ws ! i = Waiting"
  shows "all_running (ws[i := Exited]) = all_running ws"
  using all_running_update [OF assms(1), of Exited] assms(2) by simp

lemma running_finished:
  assumes "i < length ws" "ws ! i = Running t"
  shows "all_running ws = add_mset t (all_running (ws[i := Waiting]))"
  using all_running_update [OF assms(1), of Waiting] assms(2) by simp

text \<open>What each step does to the jobs in hand, the table being left to the locale below.\<close>

lemma service_step_taken:
  assumes "service_step ops ty exec (l, d) ev (l', d')" and "sends_ok l"
  obtains (same) "\<forall>i. ev \<noteq> Settle i" "taken l' = taken l" "d' = d" "sends_ok l'" "place l' \<le> place l" "moves ev \<longrightarrow> place l' < place l"
      "js_limit l' = js_limit l" "js_maxRetry l' = js_maxRetry l"
  | (ticked) js where "ev = Tick js" "listen_tick ops (js_limit l) ty d = (js, d')"
      "taken l' = mset js + taken l" "sends_ok l'" "place l' = place l + 3 * length js"
      "js_limit l' = js_limit l" "js_maxRetry l' = js_maxRetry l"
  | (settled) i j where "ev = Settle i" "p_workers (js_pool l) ! i = Running j" "exec j d d'" "taken l = add_mset j (taken l')" "sends_ok l'" "place l' < place l"
      "js_limit l' = js_limit l" "js_maxRetry l' = js_maxRetry l"
  using assms(1)
proof (cases rule: service_stepE)
  case (tick js)
  with assms(2) show thesis by (intro ticked [of js]) (simp_all add: taken_def sends_ok_def place_def)
next
  case (hand j js p)
  with assms(2) show thesis
    by (intro same) (auto simp: exec_step_iff taken_def sends_ok_def place_def)
next
  case step: (meet j js i p)
  from step(3) show thesis
  proof (cases rule: handoffE)
    case 1
    with step assms(2) running_started [OF 1(4,5), of j] show thesis
      by (intro same) (simp_all add: taken_def sends_ok_def place_def)
  qed
next
  case step: (take_up i p)
  from step(2) show thesis
  proof (cases rule: takeE)
    case (1 t ts)
    with step assms(2) running_started [OF 1(2,3), of t] show thesis
      by (intro same) (simp_all add: taken_def sends_ok_def place_def)
  qed
next
  case step: (settle i j p)
  from step(4) show thesis
  proof (cases rule: finishE)
    case (1 t)
    with step assms(2) running_finished [OF 1(2,3)] show thesis
      by (intro settled [of i j]) (simp_all add: taken_def sends_ok_def place_def)
  qed
next
  case step: (quit i p)
  from step(2) show thesis
    by (cases rule: quitE)
       (use step assms(2) in \<open>auto intro!: same simp: taken_def sends_ok_def place_def running_left\<close>)
next
  case step: (cancelled p)
  from step(2) show thesis
    by (cases rule: cancelE)
       (use step assms(2) in \<open>auto intro!: same simp: taken_def sends_ok_def place_def\<close>)
next
  case step: (close_tasks p)
  from step(5) show thesis
    by (cases rule: closeE)
       (use step assms(2) in \<open>auto intro!: same simp: taken_def sends_ok_def place_def\<close>)
qed

section \<open>A service refines the specification\<close>

text \<open>
  What a listener and its pool rely on in an executor: it settles the job it is given, or
  leaves its row alone when the table does not answer. \<open>ok\<close> says that the table answers from
  now on, \<open>G\<close> is what every access guarantees to the other users of the table.
\<close>

locale job_executor = file_job_store ops view inv
  for ops :: "'d JobStoreOps" and view :: "'d \<Rightarrow> job_table" and inv :: "'d \<Rightarrow> bool" +
  fixes exec :: "Job \<Rightarrow> 'd \<Rightarrow> 'd \<Rightarrow> bool"
    and ty :: string and nx :: "string option" and m :: int
    and ok :: "'d \<Rightarrow> bool" and G :: "'d \<Rightarrow> 'd \<Rightarrow> bool"
  assumes exec_law: "\<lbrakk>inv d; view d (job_ID j) = Some \<lparr>e_state = JobActive, e_mine = True, e_job = j\<rparr>;
      exec j d d'\<rbrakk> \<Longrightarrow>
      inv d' \<and> (settled_to nx m j (view d) (view d') \<or> \<not> ok d \<and> view d' = view d)"
    and exec_total: "\<exists>d'. exec j d d'"
    and exec_G: "exec j d d' \<Longrightarrow> G d d'"
    and fetch_G: "op_Fetch ops n ty d = (r, d') \<Longrightarrow> G d d'"
    and fetch_ok: "\<lbrakk>inv d; ok d; 0 \<le> n\<rbrakk> \<Longrightarrow> \<exists>js. fst (op_Fetch ops n ty d) = Inr js"
    and G_refl: "G d d"
    and G_ok: "\<lbrakk>G d d'; ok d\<rbrakk> \<Longrightarrow> ok d'"
    and successor: "nx \<noteq> Some ty"
begin

lemma tick_G: "listen_tick ops n ty d = (js, d') \<Longrightarrow> G d d'"
  by (cases "op_Fetch ops n ty d") (auto simp: listen_tick_def split: sum.splits intro: fetch_G)

text \<open>Each step of the listener and its pool is a step of the specification.\<close>

lemma refines:
  assumes "service_step ops ty exec (l, d) ev (l', d')"
    and "inv d" "H \<longrightarrow> ok d" "in_hand H ty (taken l) (view d)" "sends_ok l"
  shows "work_step H ty nx m (taken l, view d) (taken l', view d') \<and> inv d' \<and> G d d' \<and> sends_ok l' \<and>
    js_limit l' = js_limit l \<and> js_maxRetry l' = js_maxRetry l"
  using assms(1,5)
proof (cases rule: service_step_taken)
  case same
  then show ?thesis using assms(2) G_refl work_step.skip [of H ty nx m "taken l" "view d"] by simp
next
  case (ticked js)
  note law = listen_tick_law [OF assms(2) ticked(2)]
  have "\<forall>j \<in> set js. \<exists>e. view d (job_ID j) = Some e \<and> ready_entry ty e \<and>
       j = (e_job e)\<lparr>job_Retry := job_Retry (e_job e) + 1\<rparr> \<and>
       view d' (job_ID j) = Some \<lparr>e_state = JobActive, e_mine = True, e_job = j\<rparr>"
  proof
    fix j assume j: "j \<in> set js"
    from law j obtain e x where "view d (job_ID j) = Some e" "ready_entry ty e"
      "j = (e_job e)\<lparr>job_Retry := job_Retry (e_job e) + 1\<rparr>"
      "view d' (job_ID j) = Some x" "e_state x = JobActive" "e_mine x" "e_job x = j" by blast
    moreover have "x = \<lparr>e_state = JobActive, e_mine = True, e_job = j\<rparr>" using calculation(5-7) by simp
    ultimately show "\<exists>e. view d (job_ID j) = Some e \<and> ready_entry ty e \<and>
       j = (e_job e)\<lparr>job_Retry := job_Retry (e_job e) + 1\<rparr> \<and>
       view d' (job_ID j) = Some \<lparr>e_state = JobActive, e_mine = True, e_job = j\<rparr>" by blast
  qed
  moreover have "distinct (List.map job_ID js)" "\<forall>i. i \<notin> job_ID ` set js \<longrightarrow> view d' i = view d i"
    using law by blast+
  ultimately have "work_step H ty nx m (taken l, view d) (mset js + taken l, view d')"
    by (intro work_step.fetch)
  then show ?thesis using ticked law tick_G [OF ticked(2)] by simp
next
  case (settled i j)
  then have "j \<in># taken l" by simp
  note x = exec_law [OF assms(2) in_handD(1) [OF assms(4) this] settled(3)]
  then have "work_step H ty nx m (add_mset j (taken l'), view d) (taken l', view d')"
    using assms(3) work_step.settle [of nx m j "view d" "view d'" H ty "taken l'"]
      work_step.lose [of H ty nx m j "taken l'" "view d"] by auto
  then show ?thesis using settled x exec_G [OF settled(3)] by simp
qed

text \<open>Every step that moves a job brings the service nearer to its rest.\<close>

lemma moves_down:
  assumes "service_step ops ty exec (l, d) ev (l', d')" "moves ev"
    and "inv d" "H \<longrightarrow> ok d" "in_hand H ty (taken l) (view d)" "sends_ok l"
    and "service_of ty nx m mt mu" "finite (dom (view d))"
  shows "4 * table_effort mt mu (view d') + place l' < 4 * table_effort mt mu (view d) + place l"
proof -
  from refines [OF assms(1,3-6)] have w: "work_step H ty nx m (taken l, view d) (taken l', view d')" by simp
  note e = step_effort [OF w assms(5,7,8)]
  show ?thesis using assms(1,6)
  proof (cases rule: service_step_taken)
    case same
    with assms(2) e show ?thesis by simp
  next
    case (ticked js)
    then have "size (taken l') - size (taken l) = length js" "place l' = place l + 3 * length js"
      "0 < length js" using assms(2) by auto
    with e show ?thesis by linarith
  next
    case (settled i j)
    with e show ?thesis by simp
  qed
qed

lemma never_up:
  assumes "service_step ops ty exec (l, d) ev (l', d')"
    and "inv d" "H \<longrightarrow> ok d" "in_hand H ty (taken l) (view d)" "sends_ok l"
    and "service_of ty nx m mt mu" "finite (dom (view d))"
  shows "4 * table_effort mt mu (view d') + place l' \<le> 4 * table_effort mt mu (view d) + place l"
proof -
  from refines [OF assms(1-5)] have w: "work_step H ty nx m (taken l, view d) (taken l', view d')" by simp
  note e = step_effort [OF w assms(4,6,7)]
  show ?thesis using assms(1,5)
  proof (cases rule: service_step_taken)
    case (ticked js)
    then have "size (taken l') - size (taken l) = length js" "place l' = place l + 3 * length js" by auto
    with e show ?thesis by linarith
  qed (use e in simp_all)
qed

text \<open>
  A service whose pool is up always finds something to do while there is an own row of its
  type, or the table has stopped answering.
\<close>

lemma can_move:
  assumes "inv d" "ok d" "in_hand True ty (taken l) (view d)" "sends_ok l" "up_and_running l"
    and "view d i = Some e" "e_mine e" "job_Type (e_job e) = ty"
  shows "\<exists>ev l' d'. moves ev \<and> service_step ops ty exec (l, d) ev (l', d')"
proof -
  let ?p = "js_pool l"
  have waiting: "\<exists>k. k < length (p_workers ?p) \<and> p_workers ?p ! k = Waiting"
    if no: "all_running (p_workers ?p) = {#}"
  proof -
    obtain w where w: "w \<in> set (p_workers ?p)" "w \<noteq> Exited" using assms(5) by (auto simp: up_and_running_def)
    with no have "w = Waiting" by (cases w) (auto simp: all_running_empty)
    with w(1) show ?thesis by (metis in_set_conv_nth)
  qed
  consider (run) "all_running (p_workers ?p) \<noteq> {#}"
    | (queued) "all_running (p_workers ?p) = {#}" "p_tasks ?p \<noteq> []"
    | (pending) "all_running (p_workers ?p) = {#}" "p_tasks ?p = []" "ln_pending l \<noteq> []"
    | (free) "taken l = {#}" "ln_pending l = []"
    by (auto simp: taken_def)
  then show ?thesis
  proof cases
    case run
    then obtain w where w: "w \<in> set (p_workers ?p)" "running w \<noteq> {#}" by (auto simp: all_running_empty)
    from w(2) obtain j where "w = Running j" by (cases w) simp_all
    with w(1) obtain k where k: "k < length (p_workers ?p)" "p_workers ?p ! k = Running j"
      by (auto simp: in_set_conv_nth)
    obtain d' where x: "exec j d d'" using exec_total by blast
    from service_step.settle [of l k j _ exec d d' ops ty, OF k(2) pool_step.finish [OF k] x] show ?thesis
      by (metis moves.simps(5))
  next
    case queued
    then obtain t ts where t: "p_tasks ?p = t # ts" by (cases "p_tasks ?p") simp_all
    from waiting [OF queued(1)] obtain k where k: "k < length (p_workers ?p)" "p_workers ?p ! k = Waiting" by blast
    from service_step.take_up [OF pool_step.take [OF k t]] show ?thesis by (metis moves.simps(4))
  next
    case pending
    then obtain j js where j: "ln_pending l = j # js" by (cases "ln_pending l") simp_all
    have c: "\<not> p_closed ?p" using assms(5) by (simp add: up_and_running_def)
    show ?thesis
    proof (cases "p_cap ?p = 0")
      case True
      from waiting [OF pending(1)] obtain k where "k < length (p_workers ?p)" "p_workers ?p ! k = Waiting" by blast
      from service_step.meet [OF j pool_step.handoff [OF c True this]] show ?thesis by (metis moves.simps(3))
    next
      case False
      then have "length (p_tasks ?p) < p_cap ?p" using pending(2) by simp
      from service_step.hand [OF j pool_step.exec [OF c this]] show ?thesis by (metis moves.simps(2))
    qed
  next
    case free
    have "\<not> p_closed ?p" "0 < js_limit l" using assms(5) by (simp_all add: up_and_running_def)
    have "e_state e = JobIdle"
    proof (rule ccontr)
      assume "e_state e \<noteq> JobIdle"
      then have "e_state e = JobActive" by (cases "e_state e") simp_all
      with in_hand_active [OF assms(3,6,7) this assms(8)] free(1) show False by simp
    qed
    then have r: "ready_entry ty e" using assms(7,8) by (simp add: ready_entry_def)
    obtain ks d' where f: "op_Fetch ops (js_limit l) ty d = (Inr ks, d')"
      using fetch_ok [OF assms(1,2), of "js_limit l"] \<open>0 < js_limit l\<close> by (metis less_imp_le prod.collapse)
    have "ks \<noteq> []"
    proof
      assume "ks = []"
      with fetch_law [OF assms(1) f] \<open>0 < js_limit l\<close> assms(6) r show False by auto
    qed
    moreover obtain js where js: "listen_tick ops (js_limit l) ty d = (js, d')"
      "js = List.map (\<lambda>j. j\<lparr>job_Retry := job_Retry j + 1\<rparr>) ks"
      using f by (simp add: listen_tick_def)
    ultimately have "js \<noteq> []" by simp
    with service_step.tick [of l, OF free(2) \<open>\<not> p_closed ?p\<close> js(1)] show ?thesis
      by (metis moves.simps(1))
  qed
qed

end

section \<open>The two executors\<close>

context file_job_store
begin

lemma cleanup_any:
  assumes "inv (w_db w)"
  shows "inv (w_db (cleanup ops j w)) \<and> (settled_to nx m j (view (w_db w)) (view (w_db (cleanup ops j w))) \<or>
    fst (op_Delete ops (job_ID j) (w_db w)) \<noteq> None \<and> view (w_db (cleanup ops j w)) = view (w_db w))"
  using cleanup_law [OF assms, of j] by (auto simp: settled_to_def)

lemma errorJob_any:
  assumes "inv (w_db w)"
    and "view (w_db w) (job_ID j) = Some \<lparr>e_state = JobActive, e_mine = True, e_job = j\<rparr>"
  shows "inv (w_db (errorJob ops j m err w)) \<and>
    (settled_to nx m j (view (w_db w)) (view (w_db (errorJob ops j m err w))) \<or>
     (fst (op_Delete ops (job_ID j) (w_db w)) \<noteq> None \<or> fst (op_SetError ops (job_ID j) err (w_db w)) \<noteq> None) \<and>
     view (w_db (errorJob ops j m err w)) = view (w_db w))"
proof (cases "m \<le> job_Retry j")
  case True
  then show ?thesis using cleanup_any [OF assms(1), of j nx m] by (auto simp: errorJob_def)
next
  case False
  obtain e d' where s: "op_SetError ops (job_ID j) err (w_db w) = (e, d')" by fastforce
  with False set_error_law [OF assms(1) s] assms(2) show ?thesis
    by (cases e) (auto simp: errorJob_def settled_to_def)
qed

lemma successJob_any:
  assumes "inv (w_db w)" "wf_File f"
    and "view (w_db w) (job_ID j) = Some \<lparr>e_state = JobActive, e_mine = True, e_job = j\<rparr>"
  shows "inv (w_db (successJob ops j f w)) \<and>
    (settled_to (Some UploadJobName) m j (view (w_db w)) (view (w_db (successJob ops j f w))) \<or>
     fst (op_Update ops JobIdle (j\<lparr>job_File := f, job_Type := UploadJobName, job_Retry := 0\<rparr>) (w_db w)) \<noteq> None \<and>
     view (w_db (successJob ops j f w)) = view (w_db w))"
proof -
  let ?u = "j\<lparr>job_File := f, job_Type := UploadJobName, job_Retry := 0\<rparr>"
  obtain e d' where u: "op_Update ops JobIdle ?u (w_db w) = (e, d')" by fastforce
  have "wf_File (job_File ?u)" using assms(2) by simp
  with update_law [OF assms(1) this u] u assms(3) show ?thesis
    by (cases e) (auto simp: successJob_def Let_def settled_to_def)
qed

end

text \<open>\<open>Execute\<close> as the table sees it: any files, any answer of ffmpeg or of the storage.\<close>

definition upload_exec :: "FileJobStore \<Rightarrow> int \<Rightarrow> Job \<Rightarrow> db \<Rightarrow> db \<Rightarrow> bool" where
  "upload_exec s m j d d' \<longleftrightarrow>
     (\<exists>env fs. d' = w_db (snd (Upload_Execute (sql_ops s) m env j \<lparr>w_fs = fs, w_db = d\<rparr>)))"

definition transcode_exec :: "FileJobStore \<Rightarrow> int \<Rightarrow> Job \<Rightarrow> db \<Rightarrow> db \<Rightarrow> bool" where
  "transcode_exec s m j d d' \<longleftrightarrow>
     (\<exists>tmp env newid fs. d' = w_db (Transcode_Execute (sql_ops s) tmp env newid m j \<lparr>w_fs = fs, w_db = d\<rparr>))"

text \<open>What one statement of instance \<open>a\<close> guarantees: no row changes its owner.\<close>

definition keeps_owners :: "string \<Rightarrow> db \<Rightarrow> db \<Rightarrow> bool" where
  "keeps_owners a d d' \<longleftrightarrow>
     (\<forall>i. owner d' i = owner d i \<or> owner d' i = None \<or> owner d i = None \<and> owner d' i = Some a) \<and>
     (db_healthy d \<longrightarrow> db_healthy d')"

lemmas healthy_answers [simp] = healthy_ops [unfolded sql_select]
lemmas healthy_after [simp] = healthy_preserved [unfolded sql_select]

lemma keeps_owners_refl: "keeps_owners a d d"
  by (simp add: keeps_owners_def)

lemma keeps_owners_same: "owner d' = owner d \<Longrightarrow> (db_healthy d \<Longrightarrow> db_healthy d') \<Longrightarrow> keeps_owners a d d'"
  by (simp add: keeps_owners_def)

lemma Delete_keeps: "keeps_owners a d (snd (Delete s i d))"
proof (cases "Delete s i d")
  case (Pair e d')
  have h: "db_healthy d \<Longrightarrow> db_healthy d'" using healthy_after(2) [of d s i] Pair by simp
  show ?thesis
  proof (cases e)
    case None
    with Delete_owner [of s i d d'] Pair h show ?thesis by (auto simp: keeps_owners_def)
  next
    case (Some x)
    then have "owner d' = owner d" using Pair unfolding Delete_def by (auto elim!: db_Exec_cases)
    with Pair h show ?thesis by (simp add: keeps_owners_same)
  qed
qed

lemma SetError_keeps: "keeps_owners a d (snd (SetError s i err d))"
  using SetError_owner [of s i err d] healthy_after(3) [of d s i err]
  by (cases "SetError s i err d") (auto intro: keeps_owners_same)

lemma Update_keeps: "keeps_owners a d (snd (Update s st j d))"
  using Update_owner [of s st j d] healthy_after(1) [of d s st j]
  by (cases "Update s st j d") (auto intro: keeps_owners_same)

lemma Fetch_keeps: "Fetch s n ty d = (r, d') \<Longrightarrow> keeps_owners a d d'"
  using Fetch_owner [of s n ty d r d'] healthy_after(5) [of d s n ty]
  by (auto intro: keeps_owners_same)

lemma cleanup_keeps: "keeps_owners a (w_db w) (w_db (cleanup (sql_ops s) j w))"
  by (simp add: cleanup_def Let_def Delete_keeps)

lemma errorJob_keeps: "keeps_owners a (w_db w) (w_db (errorJob (sql_ops s) j m err w))"
  by (simp add: errorJob_def cleanup_keeps SetError_keeps)

lemma upload_exec_law:
  assumes "wf_db d" "upload_exec s m j d d'"
    and "table_view s d (job_ID j) = Some \<lparr>e_state = JobActive, e_mine = True, e_job = j\<rparr>"
  shows "wf_db d' \<and> (settled_to None m j (table_view s d) (table_view s d') \<or>
     \<not> db_healthy d \<and> table_view s d' = table_view s d)"
proof -
  from assms(2) obtain env fs where d': "d' = w_db (snd (Upload_Execute (sql_ops s) m env j \<lparr>w_fs = fs, w_db = d\<rparr>))"
    unfolding upload_exec_def by blast
  let ?w = "\<lparr>w_fs = fs, w_db = d\<rparr>"
  have w: "wf_db (w_db ?w)" "table_view s (w_db ?w) (job_ID j) = Some \<lparr>e_state = JobActive, e_mine = True, e_job = j\<rparr>"
    using assms(1,3) by simp_all
  show ?thesis
  proof (cases "snd (upload_file env (job_File j) fs)")
    case None
    then have "d' = w_db (cleanup (sql_ops s) j ?w)" using d' by (simp add: Upload_Execute_db)
    with sql.cleanup_any [OF w(1), of s j None m] show ?thesis by auto
  next
    case (Some err)
    then have "d' = w_db (errorJob (sql_ops s) j m err ?w)" using d' by (simp add: Upload_Execute_db)
    with sql.errorJob_any [OF w, of m err None] show ?thesis by auto
  qed
qed

lemma upload_exec_keeps:
  assumes "upload_exec s m j d d'"
  shows "keeps_owners a d d'"
proof -
  from assms obtain env fs where "d' = w_db (snd (Upload_Execute (sql_ops s) m env j \<lparr>w_fs = fs, w_db = d\<rparr>))"
    unfolding upload_exec_def by blast
  then show ?thesis
    using cleanup_keeps [of a "\<lparr>w_fs = fs, w_db = d\<rparr>" s j] errorJob_keeps [of a "\<lparr>w_fs = fs, w_db = d\<rparr>" s j m]
    by (simp add: Upload_Execute_db split: option.split)
qed

lemma transcode_exec_cases:
  assumes "transcode_exec s m j d d'"
  obtains err fs where "d' = w_db (errorJob (sql_ops s) j m err \<lparr>w_fs = fs, w_db = d\<rparr>)"
  | f fs where "wf_File (job_File j) \<longrightarrow> wf_File f" "d' = w_db (successJob (sql_ops s) j f \<lparr>w_fs = fs, w_db = d\<rparr>)"
proof -
  from assms obtain tmp env newid fs where
    d': "d' = w_db (Transcode_Execute (sql_ops s) tmp env newid m j \<lparr>w_fs = fs, w_db = d\<rparr>)"
    unfolding transcode_exec_def by blast
  obtain r x where t: "transcode_job tmp env newid (job_File j) fs = (r, x)" by fastforce
  show thesis
  proof (cases r)
    case (Inl err)
    with d' t show thesis by (intro that(1) [of err x]) (simp add: Transcode_Execute_def)
  next
    case (Inr f)
    with d' t transcode_job_wf [of "job_File j" tmp env newid fs f x] show thesis
      by (intro that(2) [of f x]) (simp_all add: Transcode_Execute_def)
  qed
qed

lemma transcode_exec_law:
  assumes "wf_db d" "transcode_exec s m j d d'"
    and "table_view s d (job_ID j) = Some \<lparr>e_state = JobActive, e_mine = True, e_job = j\<rparr>"
  shows "wf_db d' \<and> (settled_to (Some UploadJobName) m j (table_view s d) (table_view s d') \<or>
     \<not> db_healthy d \<and> table_view s d' = table_view s d)"
  using assms(2)
proof (cases rule: transcode_exec_cases)
  case (1 err fs)
  let ?w = "\<lparr>w_fs = fs, w_db = d\<rparr>"
  have w: "wf_db (w_db ?w)" "table_view s (w_db ?w) (job_ID j) = Some \<lparr>e_state = JobActive, e_mine = True, e_job = j\<rparr>"
    using assms(1,3) by simp_all
  from 1 sql.errorJob_any [OF w, of m err "Some UploadJobName"] show ?thesis by auto
next
  case (2 f fs)
  let ?w = "\<lparr>w_fs = fs, w_db = d\<rparr>"
  have w: "wf_db (w_db ?w)" "table_view s (w_db ?w) (job_ID j) = Some \<lparr>e_state = JobActive, e_mine = True, e_job = j\<rparr>"
    using assms(1,3) by simp_all
  have "wf_File f" using 2(1) table_view_wf [OF assms(1,3)] by simp
  from 2(2) sql.successJob_any [OF w(1) this w(2), of m] show ?thesis by auto
qed

lemma transcode_exec_keeps:
  assumes "transcode_exec s m j d d'"
  shows "keeps_owners a d d'"
  using assms
proof (cases rule: transcode_exec_cases)
  case (1 err fs)
  then show ?thesis using errorJob_keeps [of a "\<lparr>w_fs = fs, w_db = d\<rparr>" s j m err] by simp
next
  case (2 f fs)
  then show ?thesis by (simp add: successJob_def Let_def Update_keeps)
qed

lemma exec_total:
  "\<exists>d'. upload_exec s m j d d'" "\<exists>d'. transcode_exec s m j d d'"
  unfolding upload_exec_def transcode_exec_def by blast+

lemma keeps_owners_healthy: "keeps_owners a d d' \<Longrightarrow> db_healthy d \<Longrightarrow> db_healthy d'"
  by (simp add: keeps_owners_def)

interpretation up: job_executor "sql_ops s" "table_view s" wf_db "upload_exec s m" UploadJobName None m
  db_healthy "keeps_owners (instance_id s)" for s m
proof unfold_locales
  fix d j d' n r
  show "wf_db d' \<and> (settled_to None m j (table_view s d) (table_view s d') \<or>
      \<not> db_healthy d \<and> table_view s d' = table_view s d)"
    if "wf_db d" "table_view s d (job_ID j) = Some \<lparr>e_state = JobActive, e_mine = True, e_job = j\<rparr>"
      "upload_exec s m j d d'" by (rule upload_exec_law [OF that(1,3,2)])
  show "\<exists>d'. upload_exec s m j d d'" by (rule exec_total)
  show "keeps_owners (instance_id s) d d'" if "upload_exec s m j d d'" by (rule upload_exec_keeps [OF that])
  show "keeps_owners (instance_id s) d d'" if "op_Fetch (sql_ops s) n UploadJobName d = (r, d')"
    using that by (intro Fetch_keeps) simp
  show "\<exists>js. fst (op_Fetch (sql_ops s) n UploadJobName d) = Inr js"
    if "wf_db d" "db_healthy d" "0 \<le> n" by (rule healthy_Fetch [OF that])
  show "keeps_owners (instance_id s) d d" by (rule keeps_owners_refl)
  show "db_healthy d'" if "keeps_owners (instance_id s) d d'" "db_healthy d"
    by (rule keeps_owners_healthy [OF that])
qed simp

interpretation tr: job_executor "sql_ops s" "table_view s" wf_db "transcode_exec s m" TranscodingJobName
  "Some UploadJobName" m db_healthy "keeps_owners (instance_id s)" for s m
proof unfold_locales
  fix d j d' n r
  show "wf_db d' \<and> (settled_to (Some UploadJobName) m j (table_view s d) (table_view s d') \<or>
      \<not> db_healthy d \<and> table_view s d' = table_view s d)"
    if "wf_db d" "table_view s d (job_ID j) = Some \<lparr>e_state = JobActive, e_mine = True, e_job = j\<rparr>"
      "transcode_exec s m j d d'" by (rule transcode_exec_law [OF that(1,3,2)])
  show "\<exists>d'. transcode_exec s m j d d'" by (rule exec_total)
  show "keeps_owners (instance_id s) d d'" if "transcode_exec s m j d d'" by (rule transcode_exec_keeps [OF that])
  show "keeps_owners (instance_id s) d d'" if "op_Fetch (sql_ops s) n TranscodingJobName d = (r, d')"
    using that by (intro Fetch_keeps) simp
  show "\<exists>js. fst (op_Fetch (sql_ops s) n TranscodingJobName d) = Inr js"
    if "wf_db d" "db_healthy d" "0 \<le> n" by (rule healthy_Fetch [OF that])
  show "keeps_owners (instance_id s) d d" by (rule keeps_owners_refl)
  show "db_healthy d'" if "keeps_owners (instance_id s) d d'" "db_healthy d"
    by (rule keeps_owners_healthy [OF that])
qed simp

end
