(* ===== verification/Job_Cluster.thy ===== *)
theory Job_Cluster
  imports Job_Services
begin

text \<open>
  Several processes of the program over one table: each has its instance id, its two services
  and the sessions that end in it; it can die at any moment, and be started again with the same
  id. No two processes run under one id at the same time. The connection to the database may
  fail for any statement.
\<close>

record process =
  pr_transcoding :: listener
  pr_uploader :: listener

record cluster =
  cl_db :: db
  cl_procs :: "string \<rightharpoonup> process"

datatype 'c cl_event =
    Starts "'c svc_env" AppConfig | Crash string | Clock int | Recorded string File
  | Transcoding string svc_event | Uploading string svc_event

definition booted :: "'c services \<Rightarrow> process" where
  "booted sv = \<lparr>pr_transcoding = listening (sc_transcoding sv), pr_uploader = listening (sc_uploader sv)\<rparr>"

text \<open>A start-up that dies may have reset its rows before.\<close>

inductive cluster_step :: "cluster \<Rightarrow> 'c cl_event \<Rightarrow> cluster \<Rightarrow> bool" where
  starts: "\<lbrakk>cl_procs c (sv_ID (Service cfg)) = None; initAppHandlers env cfg (cl_db c) = Returns (sv, d)\<rbrakk> \<Longrightarrow>
     cluster_step c (Starts env cfg) \<lparr>cl_db = d, cl_procs = (cl_procs c)(sv_ID (Service cfg) \<mapsto> booted sv)\<rparr>"
| dies: "\<lbrakk>cl_procs c (sv_ID (Service cfg)) = None; initAppHandlers env cfg (cl_db c) = Panics msg;
       d = cl_db c \<or> d = snd (NewFileJobStore (sv_ID (Service cfg)) (cl_db c))\<rbrakk> \<Longrightarrow>
     cluster_step c (Starts env cfg) (c\<lparr>cl_db := d\<rparr>)"
| crash: "cl_procs c a = Some p \<Longrightarrow> cluster_step c (Crash a) (c\<lparr>cl_procs := (cl_procs c)(a := None)\<rparr>)"
| clock: "cluster_step c (Clock n) (c\<lparr>cl_db := (cl_db c)\<lparr>db_now := n\<rparr>\<rparr>)"
| recorded: "\<lbrakk>cl_procs c a = Some p; wf_File f; CreateJob (sql_ops \<lparr>instance_id = a\<rparr>) f (cl_db c) = (e, d)\<rbrakk> \<Longrightarrow>
     cluster_step c (Recorded a f) (c\<lparr>cl_db := d\<rparr>)"
| transcoding: "\<lbrakk>cl_procs c a = Some p;
       service_step (sql_ops \<lparr>instance_id = a\<rparr>) TranscodingJobName
         (transcode_exec \<lparr>instance_id = a\<rparr> (js_maxRetry (pr_transcoding p))) (pr_transcoding p, cl_db c) ev (l, d)\<rbrakk> \<Longrightarrow>
     cluster_step c (Transcoding a ev)
       \<lparr>cl_db = d, cl_procs = (cl_procs c)(a \<mapsto> p\<lparr>pr_transcoding := l\<rparr>)\<rparr>"
| uploading: "\<lbrakk>cl_procs c a = Some p;
       service_step (sql_ops \<lparr>instance_id = a\<rparr>) UploadJobName
         (upload_exec \<lparr>instance_id = a\<rparr> (js_maxRetry (pr_uploader p))) (pr_uploader p, cl_db c) ev (l, d)\<rbrakk> \<Longrightarrow>
     cluster_step c (Uploading a ev)
       \<lparr>cl_db = d, cl_procs = (cl_procs c)(a \<mapsto> p\<lparr>pr_uploader := l\<rparr>)\<rparr>"

inductive cluster_run :: "cluster \<Rightarrow> 'c cl_event list \<Rightarrow> cluster \<Rightarrow> bool" where
  stop: "cluster_run c [] c"
| more: "\<lbrakk>cluster_step c ev c1; cluster_run c1 evs c2\<rbrakk> \<Longrightarrow> cluster_run c (ev # evs) c2"

abbreviation rows_of :: "string \<Rightarrow> cluster \<Rightarrow> job_table" where
  "rows_of a c \<equiv> table_view \<lparr>instance_id = a\<rparr> (cl_db c)"

text \<open>The jobs a process works on.\<close>

definition work :: "process \<Rightarrow> Job multiset" where
  "work p = taken (pr_transcoding p) + taken (pr_uploader p)"

section \<open>Other processes\<close>

lemma view_of: "table_view \<lparr>instance_id = b\<rparr> d i =
    map_option (\<lambda>e. e\<lparr>e_mine := (owner d i = Some b)\<rparr>) (table_view \<lparr>instance_id = a\<rparr> d i)"
  by (cases "row_at d i") (simp_all add: table_view_def owner_def entry_of_def)

lemma view_mine: "table_view \<lparr>instance_id = a\<rparr> d i = Some e \<Longrightarrow> e_mine e = (owner d i = Some a)"
  using owner_mine [of "\<lparr>instance_id = a\<rparr>" d i e] by auto

lemma own_table_view: "own_table (table_view \<lparr>instance_id = b\<rparr> d) i =
    (if owner d i = Some b then table_view \<lparr>instance_id = b\<rparr> d i else None)"
  using view_mine [of b d i] by (auto simp: own_table_def split: option.split)

definition framed :: "job_table \<Rightarrow> job_table \<Rightarrow> bool" where
  "framed t t' \<longleftrightarrow> (\<forall>i e. t i = Some e \<longrightarrow> \<not> e_mine e \<longrightarrow> t' i = Some e)"

lemma others_keep:
  assumes "keeps_owners a d d'" "a \<noteq> b"
    and "framed (table_view \<lparr>instance_id = a\<rparr> d) (table_view \<lparr>instance_id = a\<rparr> d')"
  shows "own_table (table_view \<lparr>instance_id = b\<rparr> d') = own_table (table_view \<lparr>instance_id = b\<rparr> d)"
proof
  fix i
  let ?a = "\<lparr>instance_id = a\<rparr>" and ?b = "\<lparr>instance_id = b\<rparr>"
  have k: "owner d' i = owner d i \<or> owner d' i = None \<or> owner d i = None \<and> owner d' i = Some a"
    using assms(1) by (simp add: keeps_owners_def)
  show "own_table (table_view ?b d') i = own_table (table_view ?b d) i"
  proof (cases "owner d i = Some b")
    case True
    then obtain e where e: "table_view ?a d i = Some e"
      using owner_None [of d i ?a] by (cases "table_view ?a d i") simp_all
    with True assms(2) view_mine [OF e] have "table_view ?a d' i = Some e" using assms(3) by (simp add: framed_def)
    moreover from this have "owner d' i = Some b" using k True owner_None [of d' i ?a] by auto
    ultimately show ?thesis using True e by (simp add: own_table_view view_of [of b _ i a])
  next
    case False
    with k assms(2) have "owner d' i \<noteq> Some b" by auto
    with False show ?thesis by (simp add: own_table_view)
  qed
qed

section \<open>The invariant\<close>

definition proc_ok :: "bool \<Rightarrow> process \<Rightarrow> job_table \<Rightarrow> bool" where
  "proc_ok H p t \<longleftrightarrow> in_hand H TranscodingJobName (taken (pr_transcoding p)) t \<and>
     in_hand H UploadJobName (taken (pr_uploader p)) t \<and>
     sends_ok (pr_transcoding p) \<and> sends_ok (pr_uploader p)"

text \<open>\<open>H\<close>: the database answers every statement.\<close>

definition cl_ok :: "bool \<Rightarrow> cluster \<Rightarrow> bool" where
  "cl_ok H c \<longleftrightarrow> wf_db (cl_db c) \<and> (H \<longrightarrow> db_healthy (cl_db c)) \<and>
     (\<forall>a p. cl_procs c a = Some p \<longrightarrow> proc_ok H p (rows_of a c))"

lemma proc_ok_cong: "own_table t = own_table t' \<Longrightarrow> proc_ok H p t = proc_ok H p t'"
  by (simp only: proc_ok_def in_hand_cong [of t t'])

lemma keyed_view: "wf_db d \<Longrightarrow> keyed (table_view s d)"
  using table_view_wf by (auto simp: keyed_def)

lemma booted_ok:
  assumes "initAppHandlers env cfg d = Returns (sv, d')"
  shows "work (booted sv) = {#} \<and> sends_ok (pr_transcoding (booted sv)) \<and> sends_ok (pr_uploader (booted sv)) \<and>
    d' = snd (Reset \<lparr>instance_id = sv_ID (Service cfg)\<rparr> d)"
  using assms
  by (auto simp: initAppHandlers_def NewUploader_def NewTranscoding_service_def new_job_service_def
      NewPool_def NewFileJobStore_def Let_def booted_def listening_def work_def taken_def sends_ok_def grow_eq
      split: outcome.splits if_splits)

lemma Reset_healthy: "db_healthy d \<Longrightarrow> fst (Reset s d) = None \<and> db_healthy (snd (Reset s d))"
  by (simp add: Reset_def db_Exec_def Let_def db_healthy_def)

lemma Reset_effect:
  assumes "wf_db d" "d' = snd (Reset \<lparr>instance_id = a\<rparr> d)"
  shows "wf_db d'" "keeps_owners a d d'" "framed (table_view \<lparr>instance_id = a\<rparr> d) (table_view \<lparr>instance_id = a\<rparr> d')"
    "db_healthy d \<Longrightarrow> table_view \<lparr>instance_id = a\<rparr> d' i = Some e \<Longrightarrow> e_mine e \<Longrightarrow> e_state e = JobIdle"
proof -
  obtain e where r: "Reset \<lparr>instance_id = a\<rparr> d = (e, d')" using assms(2) by (cases "Reset \<lparr>instance_id = a\<rparr> d") simp
  note law = Reset_law [OF assms(1) r]
  show "wf_db d'" using law by simp
  show "keeps_owners a d d'" using Reset_owner [OF r] Reset_healthy [of d "\<lparr>instance_id = a\<rparr>"] assms(2)
    by (intro keeps_owners_same) simp_all
  show "framed (table_view \<lparr>instance_id = a\<rparr> d) (table_view \<lparr>instance_id = a\<rparr> d')"
    using law by (auto simp: framed_def split: option.split)
  show "e_state x = JobIdle" if "db_healthy d" "table_view \<lparr>instance_id = a\<rparr> d' i = Some x" "e_mine x" for x i
  proof -
    have "e = None" using Reset_healthy [OF that(1), of "\<lparr>instance_id = a\<rparr>"] r by simp
    with law [of i] that show ?thesis
      by (cases "table_view \<lparr>instance_id = a\<rparr> d i") (auto split: if_splits)
  qed
qed

lemma cl_ok_update:
  assumes "cl_ok H c" "wf_db d" "keeps_owners a (cl_db c) d"
    and "framed (rows_of a c) (table_view \<lparr>instance_id = a\<rparr> d)"
    and "\<And>b. b \<noteq> a \<Longrightarrow> procs b = cl_procs c b"
    and "\<And>p. procs a = Some p \<Longrightarrow> proc_ok H p (table_view \<lparr>instance_id = a\<rparr> d)"
  shows "cl_ok H \<lparr>cl_db = d, cl_procs = procs\<rparr>"
proof -
  have "H \<longrightarrow> db_healthy d" using assms(1,3) by (auto simp: cl_ok_def keeps_owners_def)
  moreover have "proc_ok H p (table_view \<lparr>instance_id = b\<rparr> d)" if "procs b = Some p" for b p
  proof (cases "b = a")
    case False
    with that assms(1,5) have "proc_ok H p (rows_of b c)" by (simp add: cl_ok_def)
    with proc_ok_cong [OF others_keep [OF assms(3) _ assms(4), of b]] False show ?thesis by simp
  qed (use that assms(6) in simp)
  ultimately show ?thesis using assms(2) by (simp add: cl_ok_def)
qed

lemma in_hand_insert:
  assumes "in_hand H ty M t" "t i = None" "e_state e = JobIdle"
  shows "in_hand H ty M (t(i \<mapsto> e))"
  using assms unfolding in_hand_def by (metis JobState.distinct(1) fun_upd_apply option.distinct(1) option.inject)

lemma Create_owner:
  assumes "wf_db d" "Create \<lparr>instance_id = a\<rparr> ty cfg f d = (e, d')"
  shows "owner d' = owner d \<or> owner d (next_id d) = None \<and> owner d' = (owner d)(next_id d \<mapsto> a)"
proof -
  have new: "next_id d \<notin> r_id ` set (rows d)" using assms(1) by (auto simp: wf_db_def)
  from assms(2) [unfolded Create_def] show ?thesis
    using new row_at_None [of d "next_id d"]
    by (cases rule: db_Exec_cases; auto simp: fun_eq_iff owner_def row_at_def find_append split: option.split)
qed

lemma Create_effect:
  assumes "wf_db d" "wf_File f" "CreateJob (sql_ops \<lparr>instance_id = a\<rparr>) f d = (e, d')"
  shows "wf_db d'" "keeps_owners a d d'"
    "table_view \<lparr>instance_id = a\<rparr> d' = table_view \<lparr>instance_id = a\<rparr> d \<or>
     (\<exists>i x. table_view \<lparr>instance_id = a\<rparr> d i = None \<and> e_state x = JobIdle \<and>
        table_view \<lparr>instance_id = a\<rparr> d' = (table_view \<lparr>instance_id = a\<rparr> d)(i \<mapsto> x))"
proof -
  have c: "op_Create (sql_ops \<lparr>instance_id = a\<rparr>) TranscodingJobName (Some ()) f d = (e, d')"
    using assms(3) by (simp only: CreateJob_def)
  note law = sql.create_law [OF assms(1,2) c]
  show "wf_db d'" using law by simp
  have "db_healthy d \<Longrightarrow> db_healthy d'"
    using healthy_preserved(4) [of d "\<lparr>instance_id = a\<rparr>" TranscodingJobName "Some ()" f] unfolding c by simp
  with Create_owner [OF assms(1) c [unfolded sql_select]] show "keeps_owners a d d'"
    by (auto simp: keeps_owners_def split: if_splits)
  show "table_view \<lparr>instance_id = a\<rparr> d' = table_view \<lparr>instance_id = a\<rparr> d \<or>
     (\<exists>i x. table_view \<lparr>instance_id = a\<rparr> d i = None \<and> e_state x = JobIdle \<and>
        table_view \<lparr>instance_id = a\<rparr> d' = (table_view \<lparr>instance_id = a\<rparr> d)(i \<mapsto> x))"
  proof (cases e)
    case None
    with law obtain i where "table_view \<lparr>instance_id = a\<rparr> d i = None"
      "table_view \<lparr>instance_id = a\<rparr> d' = (table_view \<lparr>instance_id = a\<rparr> d)(i \<mapsto>
         \<lparr>e_state = JobIdle, e_mine = True, e_job = \<lparr>job_ID = i, job_Type = TranscodingJobName, job_File = f,
           job_Config = Some (), job_Retry = 0\<rparr>\<rparr>)" by auto
    then show ?thesis by (metis job_entry.select_convs(1))
  qed (use law in simp)
qed

lemma framed_step:
  assumes "work_step H ty nx m (M, t) (M', t')" "in_hand H ty M t"
  shows "framed t t'"
  using step_frame [OF assms] by (auto simp: framed_def)

lemma service_steps_ok:
  assumes "cl_ok H c" "cl_procs c a = Some p"
    and "work_step H ty nx m (M, rows_of a c) (M', table_view \<lparr>instance_id = a\<rparr> d)"
    and "in_hand H ty M (rows_of a c)" "wf_db d" "keeps_owners a (cl_db c) d"
    and "proc_ok H p' (table_view \<lparr>instance_id = a\<rparr> d)"
  shows "cl_ok H \<lparr>cl_db = d, cl_procs = (cl_procs c)(a \<mapsto> p')\<rparr>"
  using assms(7) by (intro cl_ok_update [OF assms(1,5,6) framed_step [OF assms(3,4)]]) auto

text \<open>What a step of one of the two services does, in terms of the specification.\<close>

lemma transcoding_refines:
  assumes "cl_ok H c" "cl_procs c a = Some p"
    and "service_step (sql_ops \<lparr>instance_id = a\<rparr>) TranscodingJobName
         (transcode_exec \<lparr>instance_id = a\<rparr> m) (pr_transcoding p, cl_db c) ev (l, d)"
  shows "work_step H TranscodingJobName (Some UploadJobName) m (taken (pr_transcoding p), rows_of a c)
      (taken l, table_view \<lparr>instance_id = a\<rparr> d) \<and> wf_db d \<and> keeps_owners a (cl_db c) d \<and> sends_ok l \<and>
    js_limit l = js_limit (pr_transcoding p) \<and> js_maxRetry l = js_maxRetry (pr_transcoding p)"
proof -
  have "wf_db (cl_db c)" "H \<longrightarrow> db_healthy (cl_db c)" "sends_ok (pr_transcoding p)"
    "in_hand H TranscodingJobName (taken (pr_transcoding p)) (rows_of a c)"
    using assms(1,2) by (simp_all add: cl_ok_def proc_ok_def)
  from tr.refines [OF assms(3) this(1,2,4,3)] show ?thesis by simp
qed

lemma uploading_refines:
  assumes "cl_ok H c" "cl_procs c a = Some p"
    and "service_step (sql_ops \<lparr>instance_id = a\<rparr>) UploadJobName
         (upload_exec \<lparr>instance_id = a\<rparr> m) (pr_uploader p, cl_db c) ev (l, d)"
  shows "work_step H UploadJobName None m (taken (pr_uploader p), rows_of a c)
      (taken l, table_view \<lparr>instance_id = a\<rparr> d) \<and> wf_db d \<and> keeps_owners a (cl_db c) d \<and> sends_ok l \<and>
    js_limit l = js_limit (pr_uploader p) \<and> js_maxRetry l = js_maxRetry (pr_uploader p)"
proof -
  have "wf_db (cl_db c)" "H \<longrightarrow> db_healthy (cl_db c)" "sends_ok (pr_uploader p)"
    "in_hand H UploadJobName (taken (pr_uploader p)) (rows_of a c)"
    using assms(1,2) by (simp_all add: cl_ok_def proc_ok_def)
  from up.refines [OF assms(3) this(1,2,4,3)] show ?thesis by simp
qed

lemma proc_okD:
  assumes "cl_ok H c" "cl_procs c a = Some p"
  shows "in_hand H TranscodingJobName (taken (pr_transcoding p)) (rows_of a c)"
    "in_hand H UploadJobName (taken (pr_uploader p)) (rows_of a c)"
    "sends_ok (pr_transcoding p)" "sends_ok (pr_uploader p)" "wf_db (cl_db c)" "keyed (rows_of a c)"
    "H \<Longrightarrow> db_healthy (cl_db c)"
  using assms keyed_view by (auto simp: cl_ok_def proc_ok_def)

lemma view_clock [simp]: "table_view s (d\<lparr>db_now := n\<rparr>) = table_view s d"
  by (rule ext) (simp add: table_view_def row_at_def)

lemma Reset_ok:
  assumes "cl_ok H c" "d = snd (Reset \<lparr>instance_id = a\<rparr> (cl_db c))" "\<And>b. b \<noteq> a \<Longrightarrow> procs b = cl_procs c b"
    and "\<And>p. procs a = Some p \<Longrightarrow> work p = {#} \<and> sends_ok (pr_transcoding p) \<and> sends_ok (pr_uploader p)"
  shows "cl_ok H \<lparr>cl_db = d, cl_procs = procs\<rparr>"
proof -
  have wf: "wf_db (cl_db c)" and h: "H \<longrightarrow> db_healthy (cl_db c)" using assms(1) by (simp_all add: cl_ok_def)
  note R = Reset_effect [OF wf assms(2)]
  have "proc_ok H p (table_view \<lparr>instance_id = a\<rparr> d)" if "procs a = Some p" for p
    using assms(4) [OF that] h R(4) by (fastforce simp: proc_ok_def in_hand_def work_def)
  with cl_ok_update [OF assms(1) R(1-3) assms(3)] show ?thesis by blast
qed

lemma cluster_step_ok:
  assumes "cluster_step c ev c'" "cl_ok H c"
  shows "cl_ok H c'"
  using assms(1)
proof cases
  case (starts cfg env sv d)
  note b = booted_ok [OF starts(4)]
  show ?thesis unfolding starts(2)
    by (rule Reset_ok [OF assms(2)]) (use b in auto)
next
  case (dies cfg env msg d)
  have eq: "c' = \<lparr>cl_db = d, cl_procs = cl_procs c\<rparr>" using dies(2) by simp
  from dies(5) show ?thesis
  proof
    assume "d = cl_db c"
    with dies(2) assms(2) show ?thesis by simp
  next
    assume "d = snd (NewFileJobStore (sv_ID (Service cfg)) (cl_db c))"
    then have "d = snd (Reset \<lparr>instance_id = sv_ID (Service cfg)\<rparr> (cl_db c))"
      by (simp add: NewFileJobStore_def Let_def)
    from Reset_ok [OF assms(2) this, of "cl_procs c"] dies(3) show ?thesis unfolding eq by simp
  qed
next
  case (crash a p)
  with assms(2) show ?thesis by (auto simp: cl_ok_def)
next
  case (clock n)
  with assms(2) show ?thesis by (auto simp: cl_ok_def wf_db_def db_healthy_def)
next
  case (recorded a p f e d)
  note P = proc_okD [OF assms(2) recorded(3)]
  note C = Create_effect [OF P(5) recorded(4,5)]
  have eq: "c' = \<lparr>cl_db = d, cl_procs = cl_procs c\<rparr>" using recorded(2) by simp
  have "framed (rows_of a c) (table_view \<lparr>instance_id = a\<rparr> d)" using C(3) by (auto simp: framed_def)
  moreover have "proc_ok H p (table_view \<lparr>instance_id = a\<rparr> d)"
    using C(3) P(1-4) in_hand_insert unfolding proc_ok_def by metis
  ultimately show ?thesis unfolding eq
    using recorded(3) by (intro cl_ok_update [OF assms(2) C(1,2)]) simp_all
next
  case (transcoding a p sev l d)
  note P = proc_okD [OF assms(2) transcoding(3)] and R = transcoding_refines [OF assms(2) transcoding(3,4)]
  have "proc_ok H (p\<lparr>pr_transcoding := l\<rparr>) (table_view \<lparr>instance_id = a\<rparr> d)"
    using R P(4) step_in_hand [OF conjunct1 [OF R] P(1,6)] step_other_type [OF conjunct1 [OF R] P(1) _ P(2)]
    by (simp add: proc_ok_def)
  with R P(1) service_steps_ok [OF assms(2) transcoding(3), of TranscodingJobName] show ?thesis
    unfolding transcoding(2) by blast
next
  case (uploading a p sev l d)
  note P = proc_okD [OF assms(2) uploading(3)] and R = uploading_refines [OF assms(2) uploading(3,4)]
  have "proc_ok H (p\<lparr>pr_uploader := l\<rparr>) (table_view \<lparr>instance_id = a\<rparr> d)"
    using R P(3) step_in_hand [OF conjunct1 [OF R] P(2,6)] step_other_type [OF conjunct1 [OF R] P(2) _ P(1)]
    by (simp add: proc_ok_def)
  with R P(2) service_steps_ok [OF assms(2) uploading(3), of UploadJobName] show ?thesis
    unfolding uploading(2) by blast
qed

lemma run_append: "cluster_run c evs c1 \<Longrightarrow> cluster_run c1 evs' c2 \<Longrightarrow> cluster_run c (evs @ evs') c2"
  by (induction rule: cluster_run.induct) (auto intro: cluster_run.more)

lemma cluster_run_ok: "cluster_run c evs c' \<Longrightarrow> cl_ok H c \<Longrightarrow> cl_ok H c'"
  by (induction rule: cluster_run.induct) (auto dest: cluster_step_ok)

section \<open>A run\<close>

text \<open>
  For concrete inputs: an instance that died during an upload is started again with the default
  configuration, fetches the job and starts to execute it. The outcomes of the statements are \<open>F\<close>.
\<close>

definition demo_cluster :: "(nat \<Rightarrow> go_error option) \<Rightarrow> cluster" where
  "demo_cluster F = \<lparr>cl_db = (one_row_db ''1'' JobActive waiting_job)\<lparr>db_fails := F\<rparr>, cl_procs = Map.empty\<rparr>"

definition demo_start :: "(string \<times> nat) list cl_event" where
  "demo_start = Starts demo_svc_env (load_config nothing_given)"

definition demo_job :: Job where
  "demo_job = waiting_job\<lparr>job_Retry := 1\<rparr>"

definition demo_events :: "(string \<times> nat) list cl_event list" where
  "demo_events = [Uploading ''1'' (Tick [demo_job]), Uploading ''1'' (Hand demo_job), Uploading ''1'' (TakeUp 0)]"

lemma view_fails [simp]: "table_view s (d\<lparr>db_fails := F\<rparr>) = table_view s d"
  by (rule ext) (simp add: table_view_def row_at_def)

lemma demo_cluster:
  "wf_db (cl_db (demo_cluster F))" "cl_procs (demo_cluster F) = Map.empty"
  "db_healthy (cl_db (demo_cluster (\<lambda>_. None)))"
  "rows_of ''1'' (demo_cluster F) = [4 \<mapsto> \<lparr>e_state = JobActive, e_mine = True, e_job = waiting_job\<rparr>]"
  using one_row_db [OF waiting_job_wf, of "''1''" JobActive]
  by (auto simp: demo_cluster_def wf_db_def db_healthy_def waiting_job_def)

lemma Fetch_answers:
  assumes "wf_db d" "db_fails d (db_calls d) = None" "0 \<le> n"
  shows "\<exists>js. fst (op_Fetch (sql_ops s) n ty d) = Inr js"
proof -
  let ?x = "fetch_select (instance_id s) ty (nat n) (rows d)"
  have "\<forall>r \<in> set ?x. wf_row r"
    using fetch_select_props(1) assms(1) by (fastforce simp: wf_db_def)
  then obtain js where "all_res scan_job ?x = Inr js" using all_res_scan by blast
  with assms show ?thesis by (simp add: Fetch_def db_Select_def Let_def)
qed

lemma demo_services:
  "\<exists>sv. initAppHandlers demo_svc_env (load_config nothing_given) d = Returns (sv, snd (Reset \<lparr>instance_id = ''1''\<rparr> d)) \<and>
     js_limit (sc_uploader sv) = 12 \<and> js_limit (sc_transcoding sv) = 5 \<and>
     p_workers (js_pool (sc_uploader sv)) = replicate 10 Waiting \<and> p_tasks (js_pool (sc_uploader sv)) = [] \<and>
     p_cap (js_pool (sc_uploader sv)) = 2 \<and>
     p_workers (js_pool (sc_transcoding sv)) = replicate 4 Waiting \<and>
     \<not> p_closed (js_pool (sc_uploader sv)) \<and> \<not> p_closed (js_pool (sc_transcoding sv))"
proof -
  obtain up where u: "NewUploader False (load_config nothing_given) = Returns up" "js_limit up = 12"
    "p_workers (js_pool up) = replicate 10 Waiting" "p_tasks (js_pool up) = []" "p_cap (js_pool up) = 2"
    "\<not> p_closed (js_pool up)"
    by (simp add: NewUploader_def new_job_service_def NewPool_def load_config_eq grow_eq in_i64_def)
  obtain tr where t: "NewTranscoding_service False (load_config nothing_given) = Returns tr" "js_limit tr = 5"
    "p_workers (js_pool tr) = replicate 4 Waiting" "\<not> p_closed (js_pool tr)"
    by (simp add: NewTranscoding_service_def new_job_service_def NewPool_def load_config_eq grow_eq in_i64_def)
  obtain tmp where f: "NewTempFileService (se_stat demo_svc_env) (se_mkdir demo_svc_env)
      (se_absdir demo_svc_env (TempDir (load_config nothing_given))) = Returns tmp"
    by (simp add: demo_svc_env_def NewTempFileService_def)
  obtain ss where s: "NewSessionStore (se_NewLRU demo_svc_env) = Returns ss"
    by (simp add: demo_svc_env_def NewSessionStore_def list_NewLRU_def cacheClientsSize_def)
  have c: "se_ctx_done demo_svc_env = False" by (simp add: demo_svc_env_def)
  have id: "sv_ID (Service (load_config nothing_given)) = ''1''" by (simp add: load_config_eq)
  have "initAppHandlers demo_svc_env (load_config nothing_given) d =
      Returns (\<lparr>sc_sessions = ss, sc_temp = tmp, sc_jobs = \<lparr>instance_id = ''1''\<rparr>, sc_uploader = up, sc_transcoding = tr\<rparr>,
        snd (Reset \<lparr>instance_id = ''1''\<rparr> d))"
    by (simp add: initAppHandlers_def f s c id u(1) t(1) NewFileJobStore_def Let_def)
  with u t show ?thesis by simp
qed

lemma demo_started:
  assumes "F 0 = None"
  shows "\<exists>c p. cluster_run (demo_cluster F) [demo_start] c \<and> cl_procs c ''1'' = Some p \<and>
    up_and_running (pr_transcoding p) \<and> up_and_running (pr_uploader p) \<and>
    rows_of ''1'' c = [4 \<mapsto> \<lparr>e_state = JobIdle, e_mine = True, e_job = waiting_job\<rparr>] \<and>
    wf_db (cl_db c) \<and> db_calls (cl_db c) = 1 \<and> db_fails (cl_db c) = F \<and>
    js_limit (pr_uploader p) = 12 \<and> ln_pending (pr_uploader p) = [] \<and>
    p_workers (js_pool (pr_uploader p)) = replicate 10 Waiting \<and> p_tasks (js_pool (pr_uploader p)) = [] \<and>
    p_cap (js_pool (pr_uploader p)) = 2 \<and> \<not> p_closed (js_pool (pr_uploader p))"
proof -
  let ?c = "demo_cluster F" and ?s = "\<lparr>instance_id = ''1''\<rparr>"
  obtain sv where sv: "initAppHandlers demo_svc_env (load_config nothing_given) (cl_db ?c) =
      Returns (sv, snd (Reset ?s (cl_db ?c)))" "js_limit (sc_uploader sv) = 12" "js_limit (sc_transcoding sv) = 5"
    "p_workers (js_pool (sc_uploader sv)) = replicate 10 Waiting" "p_tasks (js_pool (sc_uploader sv)) = []"
    "p_cap (js_pool (sc_uploader sv)) = 2" "p_workers (js_pool (sc_transcoding sv)) = replicate 4 Waiting"
    "\<not> p_closed (js_pool (sc_uploader sv))" "\<not> p_closed (js_pool (sc_transcoding sv))"
    using demo_services by blast
  let ?d = "snd (Reset ?s (cl_db ?c))"
  have id: "sv_ID (Service (load_config nothing_given)) = ''1''" by (simp add: load_config_eq)
  have step: "cluster_step ?c demo_start \<lparr>cl_db = ?d, cl_procs = (cl_procs ?c)(''1'' \<mapsto> booted sv)\<rparr>"
    using cluster_step.starts [of ?c "load_config nothing_given", OF _ sv(1)] demo_cluster(2)
    unfolding id demo_start_def by simp
  have d: "db_fails (cl_db ?c) = F" "db_calls (cl_db ?c) = 0" by (simp_all add: demo_cluster_def one_row_db_def)
  have r: "Reset ?s (cl_db ?c) = (None, ?d)" "db_calls ?d = 1" "db_fails ?d = F"
    using assms by (simp_all add: Reset_def db_Exec_def Let_def d)
  have law: "wf_db ?d \<and> table_view ?s ?d i =
      map_option (\<lambda>x. if e_mine x then x\<lparr>e_state := JobIdle\<rparr> else x) (table_view ?s (cl_db ?c) i)" for i
    using Reset_law [OF demo_cluster(1) r(1), of i] by simp
  then have v: "table_view ?s ?d = [4 \<mapsto> \<lparr>e_state = JobIdle, e_mine = True, e_job = waiting_job\<rparr>]"
    using demo_cluster(4) [of F] by (auto simp: fun_eq_iff)
  have wf: "wf_db ?d" using law by blast
  show ?thesis
    by (intro exI [of _ "\<lparr>cl_db = ?d, cl_procs = (cl_procs ?c)(''1'' \<mapsto> booted sv)\<rparr>"] exI [of _ "booted sv"] conjI
        cluster_run.more [OF step cluster_run.stop])
       (use sv(2-9) wf r(2,3) v in \<open>simp_all add: booted_def listening_def up_and_running_def\<close>)
qed

lemma tick_calls:
  "listen_tick (sql_ops s) n ty d = (js, d') \<Longrightarrow> db_calls d' = Suc (db_calls d) \<and> db_fails d' = db_fails d"
  by (auto simp: listen_tick_def Fetch_def db_Select_def Let_def split: prod.splits sum.splits option.splits if_splits)

definition at_work :: "(nat \<Rightarrow> go_error option) \<Rightarrow> cluster \<Rightarrow> process \<Rightarrow> cluster \<Rightarrow> process \<Rightarrow> bool" where
  "at_work F c1 p1 c p \<longleftrightarrow>
    cluster_run (demo_cluster F) [demo_start] c1 \<and> cl_procs c1 ''1'' = Some p1 \<and>
    cluster_run c1 demo_events c \<and>
    cl_procs c ''1'' = Some p \<and> p_workers (js_pool (pr_uploader p)) ! 0 = Running demo_job \<and>
    0 < length (p_workers (js_pool (pr_uploader p))) \<and> demo_job \<in># work p \<and>
    rows_of ''1'' c = [4 \<mapsto> \<lparr>e_state = JobActive, e_mine = True, e_job = demo_job\<rparr>] \<and>
    db_calls (cl_db c) = 2 \<and> db_fails (cl_db c) = F"

lemma demo_running:
  assumes "F 0 = None" "F 1 = None"
  shows "\<exists>c1 p1 c p. at_work F c1 p1 c p"
proof -
  let ?s = "\<lparr>instance_id = ''1''\<rparr>" and ?e = "\<lparr>e_state = JobIdle, e_mine = True, e_job = waiting_job\<rparr>"
  obtain c1 p1 where c1: "cluster_run (demo_cluster F) [demo_start] c1" "cl_procs c1 ''1'' = Some p1"
    "rows_of ''1'' c1 = [4 \<mapsto> ?e]" "wf_db (cl_db c1)" "db_calls (cl_db c1) = 1" "db_fails (cl_db c1) = F"
    "js_limit (pr_uploader p1) = 12" "ln_pending (pr_uploader p1) = []"
    "p_workers (js_pool (pr_uploader p1)) = replicate 10 Waiting" "p_tasks (js_pool (pr_uploader p1)) = []"
    "p_cap (js_pool (pr_uploader p1)) = 2" "\<not> p_closed (js_pool (pr_uploader p1))"
    using demo_started [of F, OF assms(1)] by blast
  have ready: "ready_entry UploadJobName ?e" by (simp add: ready_entry_def waiting_job_def UploadJobName_def)
  have answers: "\<exists>js. fst (op_Fetch (sql_ops ?s) 12 UploadJobName (cl_db c1)) = Inr js"
    by (rule Fetch_answers) (use c1(4-6) assms(2) in simp_all)
  have job: "(e_job ?e)\<lparr>job_Retry := job_Retry (e_job ?e) + 1\<rparr> = demo_job"
    by (simp add: demo_job_def waiting_job_def)
  have mark: "mark_active ?e = \<lparr>e_state = JobActive, e_mine = True, e_job = demo_job\<rparr>"
    by (simp add: mark_active_def demo_job_def waiting_job_def)
  have v: "table_view ?s (cl_db c1) 4 = Some ?e" by (simp add: c1(3))
  have only: "\<forall>k x. table_view ?s (cl_db c1) k = Some x \<longrightarrow> ready_entry UploadJobName x \<longrightarrow> k = 4"
    by (simp add: c1(3))
  obtain d where t: "listen_tick (sql_ops ?s) 12 UploadJobName (cl_db c1) = ([demo_job], d)"
    and "table_view ?s d = (table_view ?s (cl_db c1))(4 \<mapsto> mark_active ?e)"
    using sql.listen_tick_single [OF c1(4) v ready _ only answers] unfolding job by auto
  then have td: "table_view ?s d = [4 \<mapsto> \<lparr>e_state = JobActive, e_mine = True, e_job = demo_job\<rparr>]"
    unfolding mark by (simp add: c1(3))
  let ?l = "pr_uploader p1" and ?q = "js_pool (pr_uploader p1)"
  let ?q1 = "?q\<lparr>p_tasks := p_tasks ?q @ [demo_job], p_accepted := p_accepted ?q @ [demo_job]\<rparr>"
  let ?q2 = "?q1\<lparr>p_workers := (p_workers ?q1)[0 := Running demo_job], p_tasks := [], p_started := p_started ?q1 @ [demo_job]\<rparr>"
  let ?l1 = "?l\<lparr>ln_pending := [demo_job]\<rparr>"
  let ?l2 = "?l1\<lparr>js_pool := ?q1, ln_pending := []\<rparr>"
  let ?l3 = "?l2\<lparr>js_pool := ?q2\<rparr>"
  let ?x = "upload_exec ?s (js_maxRetry ?l)"
  have 1: "service_step (sql_ops ?s) UploadJobName ?x (?l, cl_db c1) (Tick [demo_job]) (?l1, d)"
    by (rule service_step.tick) (simp_all add: c1(7,8,12) t)
  have 2: "service_step (sql_ops ?s) UploadJobName ?x (?l1, d) (Hand demo_job) (?l2, d)"
    by (rule service_step.hand) (simp_all add: c1(8,10-12) exec_step_iff)
  have w: "pool_step ?q1 (Take 0) ?q2"
    using c1(9,10) by (intro pool_step.take) simp_all
  have 3: "service_step (sql_ops ?s) UploadJobName ?x (?l2, d) (TakeUp 0) (?l3, d)"
    using service_step.take_up [of ?l2 0 ?q2 "sql_ops ?s" UploadJobName ?x d] w by simp
  let ?c = "\<lambda>l. \<lparr>cl_db = d, cl_procs = (cl_procs c1)(''1'' \<mapsto> p1\<lparr>pr_uploader := l\<rparr>)\<rparr>"
  have s1: "cluster_step c1 (Uploading ''1'' (Tick [demo_job]) :: (string \<times> nat) list cl_event) (?c ?l1)"
    using cluster_step.uploading [OF c1(2) 1] .
  have s2: "cluster_step (?c ?l1) (Uploading ''1'' (Hand demo_job) :: (string \<times> nat) list cl_event) (?c ?l2)"
    using cluster_step.uploading [of "?c ?l1" "''1''" "p1\<lparr>pr_uploader := ?l1\<rparr>"] 2 by fastforce
  have s3: "cluster_step (?c ?l2) (Uploading ''1'' (TakeUp 0) :: (string \<times> nat) list cl_event) (?c ?l3)"
    using cluster_step.uploading [of "?c ?l2" "''1''" "p1\<lparr>pr_uploader := ?l2\<rparr>"] 3 by fastforce
  note run = cluster_run.more [OF s1 cluster_run.more [OF s2 cluster_run.more [OF s3 cluster_run.stop]]]
  have "p_workers ?q2 ! 0 = Running demo_job" "0 < length (p_workers ?q2)" using c1(9) by simp_all
  moreover have "demo_job \<in># work (p1\<lparr>pr_uploader := ?l3\<rparr>)"
    using running_started [of 0 "p_workers ?q" demo_job] c1(9) by (simp add: work_def taken_def)
  moreover have "db_calls d = 2" "db_fails d = F" using tick_calls [OF t] c1(5,6) by simp_all
  ultimately show ?thesis unfolding at_work_def
    by (intro exI [of _ c1] exI [of _ p1] exI [of _ "?c ?l3"] exI [of _ "p1\<lparr>pr_uploader := ?l3\<rparr>"])
       (use c1(1,2) run td in \<open>simp add: demo_events_def\<close>)
qed

section \<open>Every job in one pair of hands\<close>

lemma nothing_up: "wf_db (cl_db c) \<Longrightarrow> cl_procs c = Map.empty \<Longrightarrow> (H \<Longrightarrow> db_healthy (cl_db c)) \<Longrightarrow> cl_ok H c"
  by (simp add: cl_ok_def)

lemma work_rows:
  assumes "cl_ok H c" "cl_procs c a = Some p" "j \<in># work p"
  shows "rows_of a c (job_ID j) = Some \<lparr>e_state = JobActive, e_mine = True, e_job = j\<rparr> \<and> count (work p) j = 1"
proof -
  note P = proc_okD [OF assms(1,2)]
  consider (T) "j \<in># taken (pr_transcoding p)" | (U) "j \<in># taken (pr_uploader p)"
    using assms(3) by (auto simp: work_def)
  then show ?thesis
  proof cases
    case T
    note D = in_handD [OF P(1) T]
    have "j \<notin># taken (pr_uploader p)" using in_handD(2) [OF P(2), of j] D(2) by auto
    with D show ?thesis by (simp add: work_def count_eq_zero_iff)
  next
    case U
    note D = in_handD [OF P(2) U]
    have "j \<notin># taken (pr_transcoding p)" using in_handD(2) [OF P(1), of j] D(2) by auto
    with D show ?thesis by (simp add: work_def count_eq_zero_iff)
  qed
qed

lemma one_hand:
  assumes "cl_ok H c" "cl_procs c a = Some p" "cl_procs c b = Some q" "j \<in># work p" "k \<in># work q"
    and "job_ID j = job_ID k"
  shows "a = b \<and> j = k \<and> count (work p) j = 1"
proof -
  note A = work_rows [OF assms(1,2,4)] and B = work_rows [OF assms(1,3,5)]
  have "owner (cl_db c) (job_ID j) = Some a" "owner (cl_db c) (job_ID k) = Some b"
    using view_mine [OF conjunct1 [OF A]] view_mine [OF conjunct1 [OF B]] by simp_all
  then have ab: "a = b" unfolding assms(6) by simp
  have "Some \<lparr>e_state = JobActive, e_mine = True, e_job = j\<rparr> = Some \<lparr>e_state = JobActive, e_mine = True, e_job = k\<rparr>"
    using A B unfolding ab assms(6) by metis
  then have "j = k" by simp
  with A ab show ?thesis by blast
qed

text \<open>
  C2. However the sessions, listeners, workers, crashes and restarts of any number of
  processes interleave, and whatever statements fail: a job that is queued or being executed
  somewhere has an active row of that process with exactly its content, it is there only once,
  no other process has it, and no send to a pool panics.
\<close>

theorem job_in_one_hand:
  assumes "wf_db (cl_db c0)" "cl_procs c0 = Map.empty" "cluster_run c0 evs c"
    and "cl_procs c a = Some p" "j \<in># work p"
  shows "rows_of a c (job_ID j) = Some \<lparr>e_state = JobActive, e_mine = True, e_job = j\<rparr> \<and>
    (\<forall>b q k. cl_procs c b = Some q \<longrightarrow> k \<in># work q \<longrightarrow> job_ID k = job_ID j \<longrightarrow>
       b = a \<and> k = j \<and> count (work q) k = 1) \<and>
    \<not> p_panic (js_pool (pr_transcoding p)) \<and> \<not> p_panic (js_pool (pr_uploader p))"
proof -
  have ok: "cl_ok False c" using cluster_run_ok [OF assms(3) nothing_up [OF assms(1,2)]] by simp
  from work_rows [OF ok assms(4,5)] one_hand [OF ok _ assms(4) _ assms(5)] proc_okD(3,4) [OF ok assms(4)]
  show ?thesis by (auto simp: sends_ok_def)
qed

theorem job_in_one_hand_witness:
  "\<exists>c p. cluster_run (demo_cluster (\<lambda>n. if n < 2 then None else Some EOF))
     (demo_start # demo_events) c \<and>
   cl_procs c ''1'' = Some p \<and> demo_job \<in># work p \<and> count (work p) demo_job = 1"
proof -
  let ?F = "\<lambda>n. if n < 2 then None else Some EOF"
  obtain c1 c p where c: "cluster_run (demo_cluster ?F) [demo_start] c1"
    "cluster_run c1 demo_events c"
    "cl_procs c ''1'' = Some p" "demo_job \<in># work p"
    using demo_running [of ?F] unfolding at_work_def by auto
  have r: "cluster_run (demo_cluster ?F) (demo_start # demo_events) c"
    using run_append [OF c(1,2)] by simp
  from job_in_one_hand [OF demo_cluster(1,2) r c(3,4)] c(3,4) r show ?thesis by blast
qed

text \<open>
  C3. When the database answers every statement, then in every reachable state of the
  processes each own active transcoding or upload job is queued or being executed in the
  process: no job is lost between the table and the workers.
\<close>

theorem active_jobs_in_hand:
  assumes "wf_db (cl_db c0)" "db_healthy (cl_db c0)" "cl_procs c0 = Map.empty" "cluster_run c0 evs c"
    and "cl_procs c a = Some p" "rows_of a c i = Some e" "e_mine e" "e_state e = JobActive"
    and "job_Type (e_job e) \<in> {TranscodingJobName, UploadJobName}"
  shows "e_job e \<in># work p"
proof -
  have ok: "cl_ok True c" using cluster_run_ok [OF assms(4) nothing_up [OF assms(1,3)]] assms(2) by simp
  note P = proc_okD [OF ok assms(5)]
  from assms(9) show ?thesis
    using in_hand_active [OF P(1) assms(6-8)] in_hand_active [OF P(2) assms(6-8)] by (auto simp: work_def)
qed

theorem active_jobs_in_hand_witness:
  "\<exists>evs c p. cluster_run (demo_cluster (\<lambda>_. None)) (demo_start # evs) c \<and> cl_procs c ''1'' = Some p \<and>
     rows_of ''1'' c 4 = Some \<lparr>e_state = JobActive, e_mine = True, e_job = demo_job\<rparr> \<and> demo_job \<in># work p"
proof -
  obtain c1 evs c p where c: "cluster_run (demo_cluster (\<lambda>_. None)) [demo_start] c1" "cluster_run c1 (evs :: (string \<times> nat) list cl_event list) c"
    "cl_procs c ''1'' = Some p" "rows_of ''1'' c = [4 \<mapsto> \<lparr>e_state = JobActive, e_mine = True, e_job = demo_job\<rparr>]"
    using demo_running [of "\<lambda>_. None"] unfolding at_work_def by blast
  have r: "cluster_run (demo_cluster (\<lambda>_. None)) (demo_start # evs) c" using run_append [OF c(1,2)] by simp
  have "job_Type demo_job = UploadJobName" by (simp add: demo_job_def waiting_job_def UploadJobName_def)
  moreover have "rows_of ''1'' c 4 = Some \<lparr>e_state = JobActive, e_mine = True, e_job = demo_job\<rparr>" by (simp add: c(4))
  ultimately show ?thesis using active_jobs_in_hand [OF demo_cluster(1,3,2) r c(3), of 4] r c(3) by auto
qed

section \<open>The services come to rest\<close>

fun actor :: "'c cl_event \<Rightarrow> string option" where
  "actor (Starts env cfg) = Some (sv_ID (Service cfg))"
| "actor (Crash a) = Some a"
| "actor (Clock n) = None"
| "actor (Recorded a f) = Some a"
| "actor (Transcoding a ev) = Some a"
| "actor (Uploading a ev) = Some a"

fun job_move :: "string \<Rightarrow> 'c cl_event \<Rightarrow> bool" where
  "job_move a (Transcoding b ev) = (a = b \<and> moves ev)"
| "job_move a (Uploading b ev) = (a = b \<and> moves ev)"
| "job_move a _ = False"

fun disturbs :: "string \<Rightarrow> 'c cl_event \<Rightarrow> bool" where
  "disturbs a (Crash b) = (a = b)"
| "disturbs a (Recorded b f) = (a = b)"
| "disturbs a _ = False"

lemma step_others:
  assumes "cluster_step c ev c'" "cl_ok H c" "actor ev \<noteq> Some b"
  shows "own_table (rows_of b c') = own_table (rows_of b c) \<and> cl_procs c' b = cl_procs c b"
  using assms(1)
proof cases
  case (starts cfg env sv d)
  have "wf_db (cl_db c)" using assms(2) by (simp add: cl_ok_def)
  from Reset_effect(2,3) [OF this, of d "sv_ID (Service cfg)"] booted_ok [OF starts(4)] starts assms(3)
  show ?thesis using others_keep [of "sv_ID (Service cfg)" "cl_db c" d b] by simp
next
  case (dies cfg env msg d)
  have "wf_db (cl_db c)" using assms(2) by (simp add: cl_ok_def)
  from Reset_effect(2,3) [OF this, of d "sv_ID (Service cfg)"] dies assms(3)
  show ?thesis using others_keep [of "sv_ID (Service cfg)" "cl_db c" d b] by (auto simp: NewFileJobStore_def Let_def)
next
  case (recorded a p f e d)
  have "wf_db (cl_db c)" using assms(2) by (simp add: cl_ok_def)
  note C = Create_effect [OF this recorded(4,5)]
  have "framed (rows_of a c) (table_view \<lparr>instance_id = a\<rparr> d)" using C(3) by (auto simp: framed_def)
  with others_keep [OF C(2) _ this, of b] recorded assms(3) show ?thesis by simp
next
  case (transcoding a p sev l d)
  note P = proc_okD [OF assms(2) transcoding(3)] and R = transcoding_refines [OF assms(2) transcoding(3,4)]
  from others_keep [OF _ _ framed_step [OF conjunct1 [OF R] P(1)], of b] R transcoding assms(3) show ?thesis by simp
next
  case (uploading a p sev l d)
  note P = proc_okD [OF assms(2) uploading(3)] and R = uploading_refines [OF assms(2) uploading(3,4)]
  from others_keep [OF _ _ framed_step [OF conjunct1 [OF R] P(2)], of b] R uploading assms(3) show ?thesis by simp
qed (use assms(3) in simp_all)

lemma table_effort_own:
  assumes "finite (dom t)"
  shows "table_effort mt mu t = table_effort mt mu (own_table t)"
proof -
  have "dom (own_table t) \<subseteq> dom t" by (auto simp: own_table_Some)
  moreover have "effort mt mu (own_table t i) = effort mt mu (t i)" for i
    by (auto simp: own_table_def effort_def split: option.split)
  ultimately show ?thesis using table_effort_on [OF assms, of "own_table t" mt mu] by (simp add: table_effort_def)
qed

text \<open>What the jobs of a process can still cost: a bound on the steps that move a job.\<close>

definition jobs_left :: "process \<Rightarrow> job_table \<Rightarrow> nat" where
  "jobs_left p t =
     4 * table_effort (js_maxRetry (pr_transcoding p)) (js_maxRetry (pr_uploader p)) t +
     place (pr_transcoding p) + place (pr_uploader p)"

lemma service_names:
  "service_of TranscodingJobName (Some UploadJobName) mt mt mu" "service_of UploadJobName None mu mt mu"
  by (simp_all add: service_of_def)

lemma step_jobs_left:
  assumes "cluster_step c ev c'" "cl_ok H c" "cl_procs c a = Some p" "\<not> disturbs a ev"
  shows "\<exists>p'. cl_procs c' a = Some p' \<and>
    jobs_left p' (rows_of a c') + (if job_move a ev then 1 else 0) \<le> jobs_left p (rows_of a c)"
proof (cases "actor ev = Some a")
  case False
  have "cl_ok H c'" using cluster_step_ok [OF assms(1,2)] .
  then have fin: "finite (dom (rows_of a c))" "finite (dom (rows_of a c'))"
    using assms(2) card_table_view by (auto simp: cl_ok_def)
  have "\<not> job_move a ev" using False by (cases ev) auto
  with step_others [OF assms(1,2) False] assms(3) table_effort_own [OF fin(1)] table_effort_own [OF fin(2)]
  show ?thesis by (simp add: jobs_left_def)
next
  case True
  let ?mt = "js_maxRetry (pr_transcoding p)" and ?mu = "js_maxRetry (pr_uploader p)"
  note P = proc_okD [OF assms(2,3)]
  have fin: "finite (dom (rows_of a c))" using card_table_view [OF P(5)] by blast
  from assms(1) show ?thesis
  proof cases
    case (transcoding b q sev l d)
    with True assms(3) have q: "b = a" "q = p" by simp_all
    note S = transcoding(4) [unfolded q] and R = transcoding_refines [OF assms(2,3) transcoding(4) [unfolded q]]
    note h = P(5) _ P(1,3) service_names(1) fin
    have le: "4 * table_effort ?mt ?mu (table_view \<lparr>instance_id = a\<rparr> d) + place l \<le>
        4 * table_effort ?mt ?mu (rows_of a c) + place (pr_transcoding p)"
      by (rule tr.never_up [OF S h]) (use P(7) in blast)
    have "4 * table_effort ?mt ?mu (table_view \<lparr>instance_id = a\<rparr> d) + place l <
        4 * table_effort ?mt ?mu (rows_of a c) + place (pr_transcoding p)" if "moves sev"
      by (rule tr.moves_down [OF S that h]) (use P(7) in blast)
    with le R show ?thesis using transcoding(1,2) q by (auto simp: jobs_left_def)
  next
    case (uploading b q sev l d)
    with True assms(3) have q: "b = a" "q = p" by simp_all
    note S = uploading(4) [unfolded q] and R = uploading_refines [OF assms(2,3) uploading(4) [unfolded q]]
    note h = P(5) _ P(2,4) service_names(2) fin
    have le: "4 * table_effort ?mt ?mu (table_view \<lparr>instance_id = a\<rparr> d) + place l \<le>
        4 * table_effort ?mt ?mu (rows_of a c) + place (pr_uploader p)"
      by (rule up.never_up [OF S h]) (use P(7) in blast)
    have "4 * table_effort ?mt ?mu (table_view \<lparr>instance_id = a\<rparr> d) + place l <
        4 * table_effort ?mt ?mu (rows_of a c) + place (pr_uploader p)" if "moves sev"
      by (rule up.moves_down [OF S that h]) (use P(7) in blast)
    with le R show ?thesis using uploading(1,2) q by (auto simp: jobs_left_def)
  qed (use True assms(3,4) in auto)
qed

lemma run_jobs_left:
  "\<lbrakk>cluster_run c evs c'; cl_ok H c; cl_procs c a = Some p; \<forall>ev \<in> set evs. \<not> disturbs a ev\<rbrakk> \<Longrightarrow>
   \<exists>p'. cl_procs c' a = Some p' \<and>
     jobs_left p' (rows_of a c') + length (filter (job_move a) evs) \<le> jobs_left p (rows_of a c)"
proof (induction arbitrary: p rule: cluster_run.induct)
  case (more c ev c1 evs c2)
  from step_jobs_left [OF more.hyps(1) more.prems(1,2)] more.prems(3) obtain p1 where
    p1: "cl_procs c1 a = Some p1" "jobs_left p1 (rows_of a c1) + (if job_move a ev then 1 else 0) \<le> jobs_left p (rows_of a c)"
    by auto
  from more.IH [OF cluster_step_ok [OF more.hyps(1) more.prems(1)] p1(1)] more.prems(3) obtain p' where
    "cl_procs c2 a = Some p'" "jobs_left p' (rows_of a c2) + length (filter (job_move a) evs) \<le> jobs_left p1 (rows_of a c1)"
    by auto
  with p1(2) show ?case by (intro exI [of _ p']) (auto split: if_splits)
qed simp

text \<open>
  C4. In any interleaving, failures included, in which a process neither dies nor records a
  new session, its two services together move a job (fetch, queue, start or execute one) at
  most as often as its table and queues say at the outset: retries end, and no job goes round
  for ever.
\<close>

theorem services_come_to_rest:
  assumes "wf_db (cl_db c0)" "cl_procs c0 = Map.empty" "cluster_run c0 pre c"
    and "cl_procs c a = Some p" "cluster_run c evs c'" "\<forall>ev \<in> set evs. \<not> disturbs a ev"
  shows "length (filter (job_move a) evs) \<le> jobs_left p (rows_of a c)"
proof -
  have "cl_ok False c" using cluster_run_ok [OF assms(3) nothing_up [OF assms(1,2)]] by simp
  from run_jobs_left [OF assms(5) this assms(4,6)] show ?thesis by auto
qed

theorem services_come_to_rest_witness:
  "\<exists>c p. cluster_run (demo_cluster (\<lambda>_. None)) [demo_start] c \<and> cl_procs c ''1'' = Some p \<and>
     3 \<le> jobs_left p (rows_of ''1'' c)"
proof -
  obtain c1 p1 c where c: "cluster_run (demo_cluster (\<lambda>_. None)) [demo_start] c1" "cl_procs c1 ''1'' = Some p1"
    "cluster_run c1 demo_events c" using demo_running [of "\<lambda>_. None"] unfolding at_work_def by blast
  from services_come_to_rest [OF demo_cluster(1,2) c] c(1,2) show ?thesis by (auto simp: demo_events_def)
qed

text \<open>
  C5. While the database answers and both pools have a worker left and are not closed, a
  process that has an own transcoding or upload job in the table can always move a job: no
  reachable state blocks a listener for good or leaves a job behind.
\<close>

theorem services_never_stuck:
  assumes "wf_db (cl_db c0)" "db_healthy (cl_db c0)" "cl_procs c0 = Map.empty"
    and "cluster_run c0 (pre :: 'c cl_event list) c" "cl_procs c a = Some p"
    and "up_and_running (pr_transcoding p)" "up_and_running (pr_uploader p)"
    and "rows_of a c i = Some e" "e_mine e" "job_Type (e_job e) \<in> {TranscodingJobName, UploadJobName}"
  shows "\<exists>(ev :: 'c cl_event) c'. job_move a ev \<and> cluster_step c ev c'"
proof -
  have ok: "cl_ok True c" using cluster_run_ok [OF assms(4) nothing_up [OF assms(1,3)]] assms(2) by simp
  note P = proc_okD [OF ok assms(5)]
  have h: "db_healthy (cl_db c)" using P(7) by simp
  from assms(10) consider (T) "job_Type (e_job e) = TranscodingJobName" | (U) "job_Type (e_job e) = UploadJobName"
    by blast
  then show ?thesis
  proof cases
    case T
    from tr.can_move [OF P(5) h P(1,3) assms(6,8,9) T] obtain sev l d where
      "moves sev" "service_step (sql_ops \<lparr>instance_id = a\<rparr>) TranscodingJobName
         (transcode_exec \<lparr>instance_id = a\<rparr> (js_maxRetry (pr_transcoding p))) (pr_transcoding p, cl_db c) sev (l, d)"
      by blast
    with cluster_step.transcoding [OF assms(5) this(2)] show ?thesis by (metis job_move.simps(1))
  next
    case U
    from up.can_move [OF P(5) h P(2,4) assms(7,8,9) U] obtain sev l d where
      "moves sev" "service_step (sql_ops \<lparr>instance_id = a\<rparr>) UploadJobName
         (upload_exec \<lparr>instance_id = a\<rparr> (js_maxRetry (pr_uploader p))) (pr_uploader p, cl_db c) sev (l, d)"
      by blast
    with cluster_step.uploading [OF assms(5) this(2)] show ?thesis by (metis job_move.simps(2))
  qed
qed

theorem services_never_stuck_witness:
  "\<exists>c (ev :: (string \<times> nat) list cl_event) c'. cluster_run (demo_cluster (\<lambda>_. None)) [demo_start] c \<and>
     job_move ''1'' ev \<and> cluster_step c ev c'"
proof -
  let ?e = "\<lparr>e_state = JobIdle, e_mine = True, e_job = waiting_job\<rparr>"
  obtain c p where c: "cluster_run (demo_cluster (\<lambda>_. None)) [demo_start] c" "cl_procs c ''1'' = Some p"
    "up_and_running (pr_transcoding p)" "up_and_running (pr_uploader p)" "rows_of ''1'' c = [4 \<mapsto> ?e]"
    using demo_started [of "\<lambda>_. None"] by blast
  have v: "rows_of ''1'' c 4 = Some ?e" by (simp add: c(5))
  have "job_Type (e_job ?e) \<in> {TranscodingJobName, UploadJobName}" "e_mine ?e"
    by (simp_all add: waiting_job_def UploadJobName_def)
  from services_never_stuck [OF demo_cluster(1,3,2) c(1-4) v this(2,1)] c(1) show ?thesis by blast
qed

section \<open>A lost write\<close>

text \<open>
  \<open>cleanup\<close>, \<open>errorJob\<close> and \<open>successJob\<close> only log the error of their statement. The row is then
  active with nobody working on it.
\<close>

definition stranded :: "string \<Rightarrow> int \<Rightarrow> job_entry \<Rightarrow> cluster \<Rightarrow> bool" where
  "stranded a i e c \<longleftrightarrow> rows_of a c i = Some e \<and> e_mine e \<and> e_state e = JobActive \<and>
     (\<exists>p. cl_procs c a = Some p \<and> i \<notin> job_ID ` set_mset (work p))"

lemma stranded_step:
  assumes "cluster_step c ev c'" "cl_ok H c" "stranded a i e c" "ev \<noteq> Crash a"
  shows "stranded a i e c'"
proof (cases "actor ev = Some a")
  case False
  from step_others [OF assms(1,2) False] assms(3) own_table_Some [of "rows_of a c" i e] own_table_Some [of "rows_of a c'" i e]
  show ?thesis by (simp add: stranded_def)
next
  case True
  from assms(3) obtain p where p: "cl_procs c a = Some p" "i \<notin> job_ID ` set_mset (work p)"
    and e: "rows_of a c i = Some e" "e_mine e" "e_state e = JobActive" by (auto simp: stranded_def)
  note P = proc_okD [OF assms(2) p(1)]
  from assms(1) show ?thesis
  proof cases
    case (recorded b q f err d)
    with True p(1) have b: "b = a" by simp
    have r: "wf_File f" "CreateJob (sql_ops \<lparr>instance_id = a\<rparr>) f (cl_db c) = (err, d)" using recorded b by simp_all
    from Create_effect(3) [OF P(5) r] e(1) have "table_view \<lparr>instance_id = a\<rparr> d i = Some e" by auto
    with recorded(2) p e show ?thesis by (simp add: stranded_def)
  next
    case (transcoding b q sev l d)
    with True p(1) have q: "b = a" "q = p" by simp_all
    note R = transcoding_refines [OF assms(2) p(1) transcoding(4) [unfolded q]]
    have "i \<notin> job_ID ` set_mset (taken (pr_transcoding p))" using p(2) by (auto simp: work_def)
    from step_keeps_held [OF conjunct1 [OF R] e(1,3) this] p e transcoding(2) q show ?thesis
      by (auto simp: stranded_def work_def)
  next
    case (uploading b q sev l d)
    with True p(1) have q: "b = a" "q = p" by simp_all
    note R = uploading_refines [OF assms(2) p(1) uploading(4) [unfolded q]]
    have "i \<notin> job_ID ` set_mset (taken (pr_uploader p))" using p(2) by (auto simp: work_def)
    from step_keeps_held [OF conjunct1 [OF R] e(1,3) this] p e uploading(2) q show ?thesis
      by (auto simp: stranded_def work_def)
  qed (use True p(1) assms(4) in auto)
qed

lemma stranded_run:
  "\<lbrakk>cluster_run c evs c'; cl_ok H c; stranded a i e c; Crash a \<notin> set evs\<rbrakk> \<Longrightarrow> stranded a i e c'"
  by (induction rule: cluster_run.induct) (auto dest: cluster_step_ok stranded_step)

lemma failed_upload_write:
  assumes "wf_db d" "db_fails d (db_calls d) \<noteq> None" "upload_exec s m j d d'"
  shows "table_view s d' = table_view s d"
proof -
  from assms(3) obtain env fs where d': "d' = w_db (snd (Upload_Execute (sql_ops s) m env j \<lparr>w_fs = fs, w_db = d\<rparr>))"
    unfolding upload_exec_def by blast
  let ?w = "\<lparr>w_fs = fs, w_db = d\<rparr>"
  have f: "fst (op_Delete (sql_ops s) (job_ID j) d) \<noteq> None" "fst (op_SetError (sql_ops s) (job_ID j) err d) \<noteq> None" for err
    using assms(2) by (auto simp: Delete_def SetError_def db_Exec_def Let_def split: option.split)
  have c: "table_view s (w_db (cleanup (sql_ops s) j ?w)) = table_view s d"
    using sql.cleanup_law [of ?w s j] assms(1) f(1) by auto
  have "table_view s (w_db (errorJob (sql_ops s) j m err ?w)) = table_view s d" for err
  proof (cases "m \<le> job_Retry j")
    case False
    obtain e d1 where s: "op_SetError (sql_ops s) (job_ID j) err d = (e, d1)" by fastforce
    with f(2) [of err] sql.set_error_law [OF assms(1) s] False show ?thesis
      by (cases e) (simp_all add: errorJob_def)
  qed (use c in \<open>simp add: errorJob_def\<close>)
  with c show ?thesis unfolding d' Upload_Execute_db by (simp split: option.split)
qed

text \<open>
  C14. When the statement at the end of an upload fails, its error is only logged: the row
  stays active, and until the process dies no process ever takes the job up again, whatever
  they do and however long the database answers again.
\<close>

theorem lost_write_strands_job:
  assumes "wf_db (cl_db c0)" "cl_procs c0 = Map.empty" "cluster_run c0 pre c" "cl_procs c a = Some p"
    and "p_workers (js_pool (pr_uploader p)) ! k = Running j" "k < length (p_workers (js_pool (pr_uploader p)))"
    and "db_fails (cl_db c) (db_calls (cl_db c)) \<noteq> None"
    and "cluster_step c (Uploading a (Settle k)) c1" "cluster_run c1 evs c2" "Crash a \<notin> set evs"
  shows "rows_of a c2 (job_ID j) = Some \<lparr>e_state = JobActive, e_mine = True, e_job = j\<rparr> \<and>
    (\<forall>b q. cl_procs c2 b = Some q \<longrightarrow> job_ID j \<notin> job_ID ` set_mset (work q))"
proof -
  let ?e = "\<lparr>e_state = JobActive, e_mine = True, e_job = j\<rparr>"
  have ok: "cl_ok False c" using cluster_run_ok [OF assms(3) nothing_up [OF assms(1,2)]] by simp
  note P = proc_okD [OF ok assms(4)]
  have run: "all_running (p_workers (js_pool (pr_uploader p))) = add_mset j (all_running ((p_workers (js_pool (pr_uploader p)))[k := Waiting]))"
    by (rule running_finished [OF assms(6,5)])
  then have jw: "j \<in># work p" by (simp add: work_def taken_def)
  note W = work_rows [OF ok assms(4) jw]
  from assms(8) have st: "stranded a (job_ID j) ?e c1"
  proof cases
    case (uploading q l d)
    with assms(4) have q: "q = p" by simp
    from uploading(3) [unfolded q] P(4)
    have x: "upload_exec \<lparr>instance_id = a\<rparr> (js_maxRetry (pr_uploader p)) j (cl_db c) d \<and>
        taken (pr_uploader p) = add_mset j (taken l)"
      by (cases rule: service_step_taken) (use assms(5) in auto)
    let ?p = "p\<lparr>pr_uploader := l\<rparr>"
    have wp: "work p = add_mset j (work ?p)" using x by (simp add: work_def)
    have "job_ID j \<notin> job_ID ` set_mset (work ?p)"
    proof
      assume "job_ID j \<in> job_ID ` set_mset (work ?p)"
      then obtain k where k: "k \<in># work ?p" "job_ID j = job_ID k" by blast
      then have "k \<in># work p" using wp by simp
      from one_hand [OF ok assms(4,4) jw this k(2)] have "j = k" "count (work p) j = 1" by blast+
      with k(1) show False unfolding wp by (simp add: count_eq_zero_iff)
    qed
    moreover have "table_view \<lparr>instance_id = a\<rparr> d = rows_of a c"
      using failed_upload_write [OF P(5) assms(7)] x by blast
    ultimately show ?thesis using W uploading(1) q by (simp add: stranded_def)
  qed
  have ok1: "cl_ok False c1" using cluster_step_ok [OF assms(8) ok] .
  note S = stranded_run [OF assms(9) ok1 st assms(10)]
  have ok2: "cl_ok False c2" using cluster_run_ok [OF assms(9) ok1] .
  have "job_ID j \<notin> job_ID ` set_mset (work q)" if q: "cl_procs c2 b = Some q" for b q
  proof
    assume "job_ID j \<in> job_ID ` set_mset (work q)"
    then obtain k where k: "k \<in># work q" "job_ID j = job_ID k" by blast
    from work_rows [OF ok2 q k(1)] have "rows_of b c2 (job_ID k) = Some \<lparr>e_state = JobActive, e_mine = True, e_job = k\<rparr>" by simp
    from view_mine [OF this] have "owner (cl_db c2) (job_ID k) = Some b" by simp
    moreover have "owner (cl_db c2) (job_ID j) = Some a"
      using S view_mine [of a "cl_db c2" "job_ID j" ?e] by (simp add: stranded_def)
    ultimately have "b = a" unfolding k(2) by simp
    with S q k show False by (auto simp: stranded_def)
  qed
  with S show ?thesis by (auto simp: stranded_def)
qed

theorem lost_write_strands_job_witness:
  "\<exists>c c1 c2. cluster_step c (Uploading ''1'' (Settle 0) :: (string \<times> nat) list cl_event) c1 \<and>
     cluster_run c1 [Clock 60 :: (string \<times> nat) list cl_event] c2 \<and>
     rows_of ''1'' c2 4 = Some \<lparr>e_state = JobActive, e_mine = True, e_job = demo_job\<rparr>"
proof -
  let ?F = "\<lambda>n. if n < 2 then None else Some EOF" and ?s = "\<lparr>instance_id = ''1''\<rparr>"
  obtain c0 evs c p where c: "cluster_run (demo_cluster ?F) [demo_start] c0" "cluster_run c0 (evs :: (string \<times> nat) list cl_event list) c"
    "cl_procs c ''1'' = Some p" "p_workers (js_pool (pr_uploader p)) ! 0 = Running demo_job"
    "0 < length (p_workers (js_pool (pr_uploader p)))" "db_calls (cl_db c) = 2" "db_fails (cl_db c) = ?F"
    using demo_running [of ?F] unfolding at_work_def by auto
  have r: "cluster_run (demo_cluster ?F) (demo_start # evs) c" using run_append [OF c(1,2)] by simp
  obtain d where x: "upload_exec ?s (js_maxRetry (pr_uploader p)) demo_job (cl_db c) d" using exec_total(1) by blast
  from service_step.settle [of "pr_uploader p" 0 demo_job _ "upload_exec ?s (js_maxRetry (pr_uploader p))"
      "cl_db c" d "sql_ops ?s" UploadJobName, OF c(4) pool_step.finish [OF c(5,4)] x]
  obtain c1 where s: "cluster_step c (Uploading ''1'' (Settle 0) :: (string \<times> nat) list cl_event) c1"
    using cluster_step.uploading [OF c(3)] by blast
  obtain c2 where t: "cluster_run c1 [Clock 60 :: (string \<times> nat) list cl_event] c2"
    using cluster_run.more [OF cluster_step.clock cluster_run.stop] by blast
  have f: "db_fails (cl_db c) (db_calls (cl_db c)) \<noteq> None" by (simp add: c(6,7))
  have "job_ID demo_job = 4" by (simp add: demo_job_def waiting_job_def)
  with lost_write_strands_job [OF demo_cluster(1,2) r c(3-5) f s t] s t show ?thesis by auto
qed

end
