(* ===== verification/Go_Url.thy ===== *)
theory Go_Url
  imports Go_Strings
begin

text \<open>
  \<open>net/url\<close> as far as the resolver and the clients use it: \<open>url.Parse\<close> with its error cases,
  user information, host and escapes, and \<open>URL.Query\<close>. \<open>RawPath\<close>, \<open>RawFragment\<close> and the
  flags that only matter for printing a URL are left out.
\<close>

section \<open>Escapes\<close>

datatype escape_mode = PathMode | HostMode | ZoneMode | UserMode | QueryMode | FragmentMode

definition char_in :: "string \<Rightarrow> char \<Rightarrow> bool" where
  "char_in s c \<longleftrightarrow> c \<in> set s"

definition is_letter :: "char \<Rightarrow> bool" where
  "is_letter c \<longleftrightarrow> (let n = of_char c :: nat in 65 \<le> n \<and> n \<le> 90 \<or> 97 \<le> n \<and> n \<le> 122)"

text \<open>\<open>shouldEscape\<close> for the modes of a host, the only ones whose answer \<open>unescape\<close> looks at.\<close>

definition host_escapes :: "char \<Rightarrow> bool" where
  "host_escapes c \<longleftrightarrow> \<not> (is_letter c \<or> is_digit c \<or>
     c \<in> set (''!$&()*+,;=:[]<>-_.~'' @ [CHR 0x27, CHR 0x22]))"

definition hex_val :: "char \<Rightarrow> nat option" where
  "hex_val c =
     (let n = of_char c :: nat in
      if 48 \<le> n \<and> n \<le> 57 then Some (n - 48)
      else if 97 \<le> n \<and> n \<le> 102 then Some (n - 87)
      else if 65 \<le> n \<and> n \<le> 70 then Some (n - 55)
      else None)"

definition hosty :: "escape_mode \<Rightarrow> bool" where
  "hosty m \<longleftrightarrow> m = HostMode \<or> m = ZoneMode"

text \<open>The byte of an escape, if the mode allows it.\<close>

definition escaped :: "escape_mode \<Rightarrow> char \<Rightarrow> char \<Rightarrow> char option" where
  "escaped m a b =
     (case (hex_val a, hex_val b) of
        (Some x, Some y) \<Rightarrow>
          (let v = (char_of (16 * x + y) :: char) in
           if m = HostMode \<and> x < 8 \<and> \<not> (a = CHR ''2'' \<and> b = CHR ''5'') then None
           else if m = ZoneMode \<and> \<not> (a = CHR ''2'' \<and> b = CHR ''5'') \<and> v \<noteq> CHR '' '' \<and> host_escapes v then None
           else Some v)
      | _ \<Rightarrow> None)"

fun unescape :: "escape_mode \<Rightarrow> string \<Rightarrow> string option" where
  "unescape m [] = Some []"
| "unescape m (c # s) =
     (if c = CHR ''%'' then
        (case s of
           a # b # t \<Rightarrow>
             (case escaped m a b of
                None \<Rightarrow> None
              | Some v \<Rightarrow> map_option (Cons v) (unescape m t))
         | _ \<Rightarrow> None)
      else if hosty m \<and> (of_char c :: nat) < 128 \<and> host_escapes c then None
      else map_option (Cons (if m = QueryMode \<and> c = CHR ''+'' then CHR '' '' else c)) (unescape m s))"

section \<open>Cutting\<close>

text \<open>\<open>strings.Cut\<close> at one character; a missing separator leaves the second part empty.\<close>

definition Cut :: "string \<Rightarrow> char \<Rightarrow> string \<times> string" where
  "Cut s c = (takeWhile (\<lambda>d. d \<noteq> c) s, drop 1 (dropWhile (\<lambda>d. d \<noteq> c) s))"

text \<open>Cutting at the last occurrence: the part before it, if there is one, and the part after.\<close>

fun cut_last :: "string \<Rightarrow> char \<Rightarrow> string option \<times> string" where
  "cut_last [] c = (None, [])"
| "cut_last (d # s) c =
     (case cut_last s c of
        (Some p, r) \<Rightarrow> (Some (d # p), r)
      | (None, r) \<Rightarrow> if d = c then (Some [], r) else (None, d # r))"

lemma Cut_absent: "c \<notin> set s \<Longrightarrow> Cut s c = (s, [])"
  unfolding Cut_def by (induction s) auto

lemma Cut_append: "c \<notin> set s \<Longrightarrow> Cut (s @ c # t) c = (s, t)"
  unfolding Cut_def by (induction s) auto

lemma cut_last_absent: "c \<notin> set s \<Longrightarrow> cut_last s c = (None, s)"
  by (induction s) auto

lemma cut_last_None: "cut_last s c = (None, r) \<Longrightarrow> r = s \<and> c \<notin> set s"
  by (induction s arbitrary: r) (auto split: prod.splits option.splits if_splits)

lemma cut_last_at: "c \<notin> set t \<Longrightarrow> cut_last (s @ c # t) c = (Some s, t)"
  by (induction s) (simp_all add: cut_last_absent)

section \<open>Parse\<close>

record url_parts =
  u_Scheme :: string
  u_Opaque :: string
  u_User :: "(string \<times> string option) option"
  u_Host :: string
  u_Path :: string
  u_RawQuery :: string
  u_Fragment :: string

definition no_url :: url_parts where
  "no_url = \<lparr>u_Scheme = [], u_Opaque = [], u_User = None, u_Host = [], u_Path = [], u_RawQuery = [], u_Fragment = []\<rparr>"

definition url_err :: "string \<Rightarrow> go_error" where
  "url_err s = Errorf (''parse '' @ s)"

definition is_ctl :: "char \<Rightarrow> bool" where
  "is_ctl c \<longleftrightarrow> (of_char c :: nat) < 32 \<or> (of_char c :: nat) = 127"

text \<open>\<open>None\<close>: the protocol scheme is missing before a colon.\<close>

fun scheme_from :: "string \<Rightarrow> string \<Rightarrow> string \<Rightarrow> (string \<times> string) option" where
  "scheme_from whole acc [] = Some ([], whole)"
| "scheme_from whole acc (c # s) =
     (if is_letter c then scheme_from whole (acc @ [c]) s
      else if is_digit c \<or> c \<in> set ''+-.'' then
        (if acc = [] then Some ([], whole) else scheme_from whole (acc @ [c]) s)
      else if c = CHR '':'' then (if acc = [] then None else Some (acc, s))
      else Some ([], whole))"

definition getScheme :: "string \<Rightarrow> (string \<times> string) option" where
  "getScheme s = scheme_from s [] s"

definition validOptionalPort :: "string \<Rightarrow> bool" where
  "validOptionalPort p \<longleftrightarrow> p = [] \<or> hd p = CHR '':'' \<and> list_all is_digit (tl p)"

definition opt_append :: "string option \<Rightarrow> string option \<Rightarrow> string option" where
  "opt_append a b = (case (a, b) of (Some x, Some y) \<Rightarrow> Some (x @ y) | _ \<Rightarrow> None)"

definition parseHost :: "string \<Rightarrow> string option" where
  "parseHost h =
     (if h \<noteq> [] \<and> hd h = CHR ''['' then
        (case cut_last h CHR '']'' of
           (None, _) \<Rightarrow> None
         | (Some inside, port) \<Rightarrow>
             if \<not> validOptionalPort port then None
             else
               (case str_Index inside ''%25'' of
                  Some z \<Rightarrow> opt_append (unescape HostMode (take z inside))
                     (opt_append (unescape ZoneMode (drop z inside)) (unescape HostMode (CHR '']'' # port)))
                | None \<Rightarrow> unescape HostMode h))
      else
        (case cut_last h CHR '':'' of
           (None, _) \<Rightarrow> unescape HostMode h
         | (Some _, port) \<Rightarrow> if list_all is_digit port then unescape HostMode h else None))"

definition validUserinfo :: "string \<Rightarrow> bool" where
  "validUserinfo s \<longleftrightarrow>
     list_all (\<lambda>c. is_letter c \<or> is_digit c \<or> c \<in> set (''-._:~!$&()*+,;=%@'' @ [CHR 0x27])) s"

definition parseAuthority :: "string \<Rightarrow> ((string \<times> string option) option \<times> string) option" where
  "parseAuthority a =
     (case cut_last a CHR ''@'' of
        (info, rest) \<Rightarrow>
          (case parseHost rest of
             None \<Rightarrow> None
           | Some host \<Rightarrow>
               (case info of
                  None \<Rightarrow> Some (None, host)
                | Some ui \<Rightarrow>
                    if \<not> validUserinfo ui then None
                    else if CHR '':'' \<notin> set ui then map_option (\<lambda>u. (Some (u, None), host)) (unescape UserMode ui)
                    else
                      (case Cut ui CHR '':'' of
                         (un, pw) \<Rightarrow>
                           (case (unescape UserMode un, unescape UserMode pw) of
                              (Some u, Some p) \<Rightarrow> Some (Some (u, Some p), host)
                            | _ \<Rightarrow> None)))))"

definition split_query :: "string \<Rightarrow> string \<times> string" where
  "split_query r = Cut r CHR ''?''"

text \<open>The part before the fragment.\<close>

definition parse_main :: "string \<Rightarrow> url_parts option" where
  "parse_main raw =
     (if list_ex is_ctl raw then None
      else if raw = ''*'' then Some (no_url\<lparr>u_Path := ''*''\<rparr>)
      else
        (case getScheme raw of
           None \<Rightarrow> None
         | Some (sch, rest0) \<Rightarrow>
             (case split_query rest0 of
                (rest, query) \<Rightarrow>
                  (let u = no_url\<lparr>u_Scheme := ToLower sch, u_RawQuery := query\<rparr> in
                   if \<not> HasPrefix rest ''/'' \<and> sch \<noteq> [] then Some (u\<lparr>u_Opaque := rest\<rparr>)
                   else if \<not> HasPrefix rest ''/'' \<and> CHR '':'' \<in> set (fst (Cut rest CHR ''/'')) then None
                   else if (sch \<noteq> [] \<or> \<not> HasPrefix rest ''///'') \<and> HasPrefix rest ''//'' then
                     (let body = drop 2 rest;
                          auth = takeWhile (\<lambda>c. c \<noteq> CHR ''/'') body;
                          path = dropWhile (\<lambda>c. c \<noteq> CHR ''/'') body
                      in case parseAuthority auth of
                           None \<Rightarrow> None
                         | Some (user, host) \<Rightarrow>
                             map_option (\<lambda>p. u\<lparr>u_User := user, u_Host := host, u_Path := p\<rparr>) (unescape PathMode path))
                   else map_option (\<lambda>p. u\<lparr>u_Path := p\<rparr>) (unescape PathMode rest)))))"

definition url_Parse :: "string \<Rightarrow> url_parts res" where
  "url_Parse s =
     (case Cut s CHR ''#'' of
        (main, frag) \<Rightarrow>
          (case parse_main main of
             None \<Rightarrow> Inl (url_err s)
           | Some u \<Rightarrow>
               (case unescape FragmentMode frag of
                  None \<Rightarrow> Inl (url_err s)
                | Some f \<Rightarrow> Inr (u\<lparr>u_Fragment := f\<rparr>))))"

section \<open>Query\<close>

text \<open>\<open>URL.Query\<close> drops the settings it cannot read.\<close>

definition query_setting :: "string \<Rightarrow> (string \<times> string) option" where
  "query_setting kv =
     (if CHR '';'' \<in> set kv \<or> kv = [] then None
      else (case Cut kv CHR ''='' of
              (k, v) \<Rightarrow>
                (case (unescape QueryMode k, unescape QueryMode v) of
                   (Some k', Some v') \<Rightarrow> Some (k', v')
                 | _ \<Rightarrow> None)))"

definition add_setting :: "string \<Rightarrow> (string \<rightharpoonup> string list) \<Rightarrow> (string \<rightharpoonup> string list)" where
  "add_setting kv m =
     (case query_setting kv of
        None \<Rightarrow> m
      | Some (k, v) \<Rightarrow> m(k \<mapsto> (case m k of None \<Rightarrow> [] | Some vs \<Rightarrow> vs) @ [v]))"

definition url_Query :: "string \<Rightarrow> (string \<rightharpoonup> string list)" where
  "url_Query raw = fold add_setting (Split raw CHR ''&'') Map.empty"

section \<open>Hosts\<close>

text \<open>No host holds a character that would end it or be taken for user information.\<close>

definition host_stops :: string where "host_stops = ''@/?#''"

lemma stops_escape: "c \<in> set host_stops \<Longrightarrow> host_escapes c \<and> (of_char c :: nat) < 128"
  by (auto simp: host_stops_def host_escapes_def is_letter_def is_digit_def Let_def)

lemma escaped_stops:
  assumes "escaped m a b = Some v" "hosty m"
  shows "v \<notin> set host_stops"
proof
  assume v: "v \<in> set host_stops"
  from assms obtain x y where xy: "hex_val a = Some x" "hex_val b = Some y" "v = char_of (16 * x + y)"
    by (auto simp: escaped_def Let_def split: option.splits if_splits)
  from xy(1,2) have lt: "x < 16" "y < 16" by (auto simp: hex_val_def Let_def split: if_splits)
  have n: "(of_char v :: nat) = 16 * x + y" using xy(3) lt by simp
  have x: "x < 8" using stops_escape [OF v] n by linarith
  have "of_char v \<in> {64, 47, 63, 35 :: nat}" using v by (auto simp: host_stops_def)
  moreover have "(16 * x + y :: nat) = 37" if "a = CHR ''2''" "b = CHR ''5''"
    using that xy(1,2) by (auto simp: hex_val_def)
  ultimately have ab: "\<not> (a = CHR ''2'' \<and> b = CHR ''5'')" using n by auto
  have "v \<noteq> CHR '' ''" using v by (auto simp: host_stops_def)
  with assms xy x ab stops_escape [OF v] show False
    by (auto simp: escaped_def hosty_def Let_def split: if_splits)
qed

lemma unescape_stops:
  assumes "unescape m s = Some t" "hosty m"
  shows "set t \<inter> set host_stops = {}"
  using assms
proof (induction m s arbitrary: t rule: unescape.induct)
  case (2 m c s)
  show ?case
  proof (cases "c = CHR ''%''")
    case True
    with 2(3) obtain a b r v t' where r: "s = a # b # r" "escaped m a b = Some v" "unescape m r = Some t'" "t = v # t'"
      by (auto split: list.splits option.splits)
    from "2.IH"(1) [OF True r(1) _ r(2,3) 2(4)] escaped_stops [OF r(2) 2(4)] r(4) show ?thesis by simp
  next
    case False
    with 2(3,4) obtain t' where t': "unescape m s = Some t'" "t = c # t'" "\<not> ((of_char c :: nat) < 128 \<and> host_escapes c)"
      by (auto simp: hosty_def split: if_splits)
    with stops_escape [of c] have "c \<notin> set host_stops" by blast
    with "2.IH"(2) [OF False _ t'(1) 2(4)] t'(2,3) show ?thesis by auto
  qed
qed simp

lemma parseHost_stops: "parseHost h = Some t \<Longrightarrow> set t \<inter> set host_stops = {}"
proof -
  assume h: "parseHost h = Some t"
  have host: "set x \<inter> set host_stops = {}" if "unescape HostMode s = Some x" for s x
    using unescape_stops [OF that] by (simp add: hosty_def)
  have zone: "set x \<inter> set host_stops = {}" if "unescape ZoneMode s = Some x" for s x
    using unescape_stops [OF that] by (simp add: hosty_def)
  from h show ?thesis
    by (auto simp: parseHost_def opt_append_def simp del: unescape.simps split: if_splits prod.splits option.splits
        dest!: host zone)
qed

lemma parsed_host_stops: "url_Parse s = Inr u \<Longrightarrow> set (u_Host u) \<inter> set host_stops = {}"
  by (auto simp: url_Parse_def parse_main_def no_url_def parseAuthority_def Let_def
      split: prod.splits option.splits if_splits dest!: parseHost_stops)

end
