(* ===== verification/Consul_Updaters.thy ===== *)
theory Consul_Updaters
  imports Consul
begin

text \<open>
  \<open>startTTLUpdater\<close> and \<open>Shutdown\<close> of \<^verbatim>\<open>infra/consul/consul.go\<close> as concurrent steps: the updater
  goroutines, the closing of \<open>stop\<close> and the agent's list of services. When \<open>stop\<close> is closed and a
  tick is due, \<open>select\<close> may choose either.
\<close>

section \<open>Steps\<close>

text \<open>\<open>mb_running\<close> counts the updater goroutines; \<open>mb_listed\<close> says that the agent lists the service.\<close>

record membership =
  mb_client :: Consul
  mb_running :: nat
  mb_listed :: bool

text \<open>A registration among the calls made since \<open>c\<close> was accepted.\<close>

definition accepted :: "agent \<Rightarrow> Consul \<Rightarrow> Consul \<Rightarrow> bool" where
  "accepted env c c' \<longleftrightarrow> (\<exists>k. n_register c \<le> k \<and> k < n_register c' \<and> ag_register env k = None)"

definition started_since :: "Consul \<Rightarrow> Consul \<Rightarrow> nat" where
  "started_since c c' = length (c_updaters c') - length (c_updaters c)"

datatype membership_event = Register Config | Tick | Updater_ends | Down "go_error option"

inductive membership_step :: "agent \<Rightarrow> membership \<Rightarrow> membership_event \<Rightarrow> membership \<Rightarrow> bool" for env where
  register: "RegisterService env cfg (mb_client m) = Some (e, c) \<Longrightarrow>
     membership_step env m (Register cfg)
       \<lparr>mb_client = c, mb_running = mb_running m + started_since (mb_client m) c,
        mb_listed = (mb_listed m \<or> accepted env (mb_client m) c)\<rparr>"
| tick: "\<lbrakk>0 < mb_running m; updater_tick env (mb_client m) = Some c\<rbrakk> \<Longrightarrow>
     membership_step env m Tick
       \<lparr>mb_client = c, mb_running = mb_running m + started_since (mb_client m) c,
        mb_listed = (mb_listed m \<or> accepted env (mb_client m) c)\<rparr>"
| updater_ends: "\<lbrakk>mb_running m = Suc n; c_stopped (mb_client m)\<rbrakk> \<Longrightarrow>
     membership_step env m Updater_ends (m\<lparr>mb_running := n\<rparr>)"
| down: "Shutdown (mb_client m) = Returns c \<Longrightarrow>
     membership_step env m (Down e) (m\<lparr>mb_client := c, mb_listed := (mb_listed m \<and> e \<noteq> None)\<rparr>)"

inductive membership_run :: "agent \<Rightarrow> membership \<Rightarrow> membership_event list \<Rightarrow> membership \<Rightarrow> bool" for env where
  stop: "membership_run env m [] m"
| more: "\<lbrakk>membership_step env m ev m1; membership_run env m1 evs m2\<rbrakk> \<Longrightarrow> membership_run env m (ev # evs) m2"

inductive_cases membership_stepE [consumes 1, case_names register tick updater_ends down]:
  "membership_step env m ev m'"

definition not_registered :: "Consul \<Rightarrow> membership" where
  "not_registered c = \<lparr>mb_client = c, mb_running = 0, mb_listed = False\<rparr>"

section \<open>After a shutdown\<close>

text \<open>A call of an agent that never answers 500 to the TTL calls does not register.\<close>

lemma quiet_update:
  assumes "\<And>e. ag_ttl env (n_ttl c) = Some e \<Longrightarrow> \<not> is_500 e" "updateTTLStatus env c = Some c'"
  shows "n_register c' = n_register c \<and> c_updaters c' = c_updaters c \<and> n_ttl c' = Suc (n_ttl c)"
  using assms
  by (auto simp: updateTTLStatus_unfold handleTTLUpdateError_def Let_def bind_eq_Some_conv split: option.splits if_splits)

lemma run_after_down:
  assumes "membership_run env m evs m'" "c_stopped (mb_client m)" "\<not> mb_listed m"
    and "\<forall>k e. n_ttl (mb_client m) \<le> k \<longrightarrow> ag_ttl env k = Some e \<longrightarrow> \<not> is_500 e"
    and "\<forall>cfg. Register cfg \<notin> set evs"
  shows "\<not> mb_listed m' \<and> mb_running m' \<le> mb_running m"
  using assms
proof (induction rule: membership_run.induct)
  case (more m ev m1 evs m2)
  from more.hyps(1) have s: "c_stopped (mb_client m1) \<and> \<not> mb_listed m1 \<and> n_ttl (mb_client m) \<le> n_ttl (mb_client m1) \<and>
      mb_running m1 \<le> mb_running m"
  proof (cases rule: membership_stepE)
    case (tick c)
    have u: "updateTTLStatus env (mb_client m) = Some c" using tick(4) by (simp add: updater_tick_def)
    have "\<And>e. ag_ttl env (n_ttl (mb_client m)) = Some e \<Longrightarrow> \<not> is_500 e" using more.prems(3) by blast
    from quiet_update [OF this u] update_stopped [OF u] tick more.prems(1,2) show ?thesis
      by (simp add: accepted_def started_since_def)
  qed (use more.prems in \<open>auto simp: Shutdown_def\<close>)
  with more.IH more.prems show ?case by (auto intro: order_trans)
qed simp

lemma register_accepted:
  assumes "ag_register env (n_register c) = None"
  shows "\<exists>c'. register_call env cfg c = (None, c') \<and> c_stopped c' = c_stopped c \<and> n_ttl c' = n_ttl c \<and>
    n_register c' = Suc (n_register c)"
  using assms by (auto simp: register_call_def Let_def)

lemma tick_registers:
  assumes "ag_ttl env (n_ttl c) = Some (StatusErr 500 msg)" "ag_ttl env (Suc (n_ttl c)) = None"
    and "ag_register env (n_register c) = None" "c_config c \<noteq> None"
  shows "\<exists>c'. updater_tick env c = Some c' \<and> c_stopped c' = c_stopped c \<and> accepted env c c'"
proof -
  let ?c1 = "c\<lparr>n_check := Suc (n_check c), n_ttl := Suc (n_ttl c)\<rparr>"
  obtain cfg where cfg: "c_config c = Some cfg" using assms(4) by blast
  obtain c2 where c2: "register_call env cfg ?c1 = (None, c2)" "c_stopped c2 = c_stopped c" "n_ttl c2 = Suc (n_ttl c)"
    "n_register c2 = Suc (n_register c)" using register_accepted [of env ?c1 cfg] assms(3) by auto
  obtain c3 where c3: "updateTTLStatus env c2 = Some c3" "c_stopped c3 = c_stopped c2" "n_register c3 = n_register c2"
    using update_healthy [of env c2] assms(2) c2(3) by simp
  from cfg c2 c3 assms(1,3) show ?thesis
    by (auto simp: updater_tick_def updateTTLStatus_unfold [of env c] handleTTLUpdateError_def Let_def accepted_def)
qed

lemma updaters_end:
  assumes "c_stopped (mb_client m)"
  shows "membership_run env m (replicate (mb_running m) Updater_ends) (m\<lparr>mb_running := 0\<rparr>)"
  using assms
proof (induction "mb_running m" arbitrary: m)
  case 0
  then have e: "m\<lparr>mb_running := 0\<rparr> = m" by (cases m) simp
  show ?case unfolding e 0(1) [symmetric] replicate_0 by (rule membership_run.stop)
next
  case (Suc n)
  have "membership_step env m Updater_ends (m\<lparr>mb_running := n\<rparr>)"
    using Suc.hyps(2) Suc.prems by (intro membership_step.updater_ends) simp_all
  from membership_run.more [OF this] Suc.hyps(1) [of "m\<lparr>mb_running := n\<rparr>"] Suc.prems show ?case
    by (simp flip: Suc.hyps(2))
qed

text \<open>
  C40. Once the client is shut down and the agent has dropped the service, a running updater
  can bring it back: if the agent answers 500 to one more TTL call and accepts the
  registration that follows, the service is listed again although the client is stopped, and
  stays listed after all updaters have ended. Nothing but such an answer brings it back.
\<close>

theorem shutdown_can_be_undone:
  assumes "c_stopped (mb_client m)" "\<not> mb_listed m"
  shows "(0 < mb_running m \<and> ag_ttl env (n_ttl (mb_client m)) = Some (StatusErr 500 msg) \<and>
      ag_ttl env (Suc (n_ttl (mb_client m))) = None \<and> ag_register env (n_register (mb_client m)) = None \<and>
      c_config (mb_client m) \<noteq> None \<longrightarrow>
      (\<exists>evs' m'. membership_run env m (Tick # evs') m' \<and> set evs' \<subseteq> {Updater_ends} \<and>
         mb_listed m' \<and> mb_running m' = 0 \<and> c_stopped (mb_client m'))) \<and>
    ((\<forall>k e. n_ttl (mb_client m) \<le> k \<longrightarrow> ag_ttl env k = Some e \<longrightarrow> \<not> is_500 e) \<longrightarrow>
      (\<forall>evs' m'. membership_run env m evs' m' \<longrightarrow> (\<forall>cfg. Register cfg \<notin> set evs') \<longrightarrow> \<not> mb_listed m'))"
proof (intro conjI impI)
  assume a: "0 < mb_running m \<and> ag_ttl env (n_ttl (mb_client m)) = Some (StatusErr 500 msg) \<and>
      ag_ttl env (Suc (n_ttl (mb_client m))) = None \<and> ag_register env (n_register (mb_client m)) = None \<and>
      c_config (mb_client m) \<noteq> None"
  then have "\<exists>c'. updater_tick env (mb_client m) = Some c' \<and> c_stopped c' = c_stopped (mb_client m) \<and> accepted env (mb_client m) c'"
    by (intro tick_registers [of env "mb_client m" msg]) simp_all
  then obtain c where
    c: "updater_tick env (mb_client m) = Some c" "c_stopped c = c_stopped (mb_client m)" "accepted env (mb_client m) c" by metis
  let ?m1 = "\<lparr>mb_client = c, mb_running = mb_running m + started_since (mb_client m) c,
      mb_listed = (mb_listed m \<or> accepted env (mb_client m) c)\<rparr>"
  have s: "membership_step env m Tick ?m1" using a c(1) by (intro membership_step.tick) simp_all
  have "c_stopped (mb_client ?m1)" using assms(1) c(2) by simp
  from membership_run.more [OF s updaters_end [OF this]] c assms(1)
  show "\<exists>evs' m'. membership_run env m (Tick # evs') m' \<and> set evs' \<subseteq> {Updater_ends} \<and>
         mb_listed m' \<and> mb_running m' = 0 \<and> c_stopped (mb_client m')"
    by (intro exI [of _ "replicate (mb_running ?m1) Updater_ends"] exI [of _ "?m1\<lparr>mb_running := 0\<rparr>"]) (auto split: if_splits)
next
  assume "\<forall>k e. n_ttl (mb_client m) \<le> k \<longrightarrow> ag_ttl env k = Some e \<longrightarrow> \<not> is_500 e"
  with run_after_down [OF _ assms] show "\<forall>evs' m'. membership_run env m evs' m' \<longrightarrow>
      (\<forall>cfg. Register cfg \<notin> set evs') \<longrightarrow> \<not> mb_listed m'" by blast
qed

text \<open>An agent that answers 500 once, to the TTL call after the shutdown.\<close>

definition forgetful_agent :: agent where
  "forgetful_agent = quiet_agent\<lparr>ag_ttl := (\<lambda>k. if k = 1 then Some (StatusErr 500 []) else None)\<rparr>"

theorem shutdown_can_be_undone_witness:
  "\<exists>evs m. membership_run forgetful_agent (not_registered fresh_consul)
      (Register (cluster_config ''r'' ''h'' 1) # Down None # Tick # evs) m \<and>
     set evs \<subseteq> {Updater_ends} \<and> mb_listed m \<and> mb_running m = 0 \<and> c_stopped (mb_client m)"
proof -
  let ?cfg = "cluster_config ''r'' ''h'' 1"
  let ?c1 = "fresh_consul\<lparr>c_config := Some ?cfg, c_instance := instance_name ''1'' ?cfg, n_register := 1,
      c_updaters := [5000000000], n_check := 1, n_ttl := 1, c_ready := True\<rparr>"
  let ?m1 = "\<lparr>mb_client = ?c1, mb_running = 1, mb_listed = True\<rparr>"
  let ?m2 = "\<lparr>mb_client = ?c1\<lparr>c_stopped := True\<rparr>, mb_running = 1, mb_listed = False\<rparr>"
  have "RegisterService forgetful_agent ?cfg fresh_consul = Some (None, ?c1)"
    by (simp add: RegisterService_def register_call_def forgetful_agent_def quiet_agent_def fresh_consul_def
        Let_def go_quot_def cluster_config_def update_healthy)
  from membership_step.register [of forgetful_agent ?cfg "not_registered fresh_consul", OF _] this
  have s1: "membership_step forgetful_agent (not_registered fresh_consul) (Register ?cfg) ?m1"
    by (auto simp: not_registered_def started_since_def accepted_def fresh_consul_def forgetful_agent_def quiet_agent_def)
  have s2: "membership_step forgetful_agent ?m1 (Down None) ?m2"
    using membership_step.down [of ?m1 "?c1\<lparr>c_stopped := True\<rparr>" forgetful_agent None]
    by (simp add: Shutdown_def fresh_consul_def)
  from shutdown_can_be_undone [of ?m2 forgetful_agent "[]"] obtain evs m where
    "membership_run forgetful_agent ?m2 (Tick # evs) m" "set evs \<subseteq> {Updater_ends}" "mb_listed m" "mb_running m = 0"
    "c_stopped (mb_client m)" by (auto simp: forgetful_agent_def quiet_agent_def fresh_consul_def)
  with membership_run.more [OF s1 membership_run.more [OF s2]] show ?thesis by blast
qed

end
