(* ===== verification/Sql_Wrapper.thy ===== *)
theory Sql_Wrapper
  imports Job_Store
begin

text \<open>
  \<^verbatim>\<open>infra/sql/sql.go\<close> and \<^verbatim>\<open>infra/sql/pgsql/client.go\<close>: the interface \<open>Store\<close> and its implementation
  over a connection pool. The pool and \<open>pgxscan\<close> are outside the repository: their answers are
  the fields of \<open>pgx_pool\<close>, functions of the statement and of the server's state. The statements
  of the job store, which go through this wrapper, are in \<open>Job_Store\<close>.
\<close>

section \<open>Rows\<close>

text \<open>The rows the driver returned: the names of the columns, and the values left to read.\<close>

record 'v pgx_rows =
  rw_FieldDescriptions :: "string list"
  rw_rest :: "'v list list"

text \<open>\<open>Columns\<close> appends one name after the other to a slice.\<close>

definition rows_Columns :: "'v pgx_rows \<Rightarrow> string list" where
  "rows_Columns r = fold (\<lambda>v c. c @ [v]) (rw_FieldDescriptions r) []"

lemma rows_Columns_eq: "rows_Columns r = rw_FieldDescriptions r"
proof -
  have "fold (\<lambda>v c. c @ [v]) xs acc = acc @ xs" for xs acc :: "string list"
    by (induction xs arbitrary: acc) simp_all
  then show ?thesis by (simp add: rows_Columns_def)
qed

section \<open>The pool and the store\<close>

record ('s, 'q, 'o, 'v) pgx_pool =
  px_Exec :: "'q \<Rightarrow> 's \<Rightarrow> nat res \<times> 's"
  px_Query :: "'q \<Rightarrow> 's \<Rightarrow> 'v pgx_rows res \<times> 's"
  px_ScanAll :: "'q \<Rightarrow> 's \<Rightarrow> 'o list res \<times> 's"
  px_ScanOne :: "'q \<Rightarrow> 's \<Rightarrow> 'o res \<times> 's"
  px_Begin :: "'s \<Rightarrow> nat res \<times> 's"
  px_Close :: "'s \<Rightarrow> 's"

text \<open>The interface, as the clients of \<open>sql.Store\<close> see it.\<close>

record ('s, 'q, 'o, 'v) sql_Store =
  so_Select :: "'q \<Rightarrow> 's \<Rightarrow> 'o list res \<times> 's"
  so_Query :: "'q \<Rightarrow> 's \<Rightarrow> 'v pgx_rows res \<times> 's"
  so_Get :: "'q \<Rightarrow> 's \<Rightarrow> 'o res \<times> 's"
  so_Exec :: "'q \<Rightarrow> 's \<Rightarrow> go_error option \<times> 's"
  so_Close :: "'s \<Rightarrow> go_error option \<times> 's"
  so_Begin :: "'s \<Rightarrow> nat res \<times> 's"

definition DB_Select :: "('s, 'q, 'o, 'v) pgx_pool \<Rightarrow> 'q \<Rightarrow> 's \<Rightarrow> 'o list res \<times> 's" where
  "DB_Select p q s = px_ScanAll p q s"

definition DB_Get :: "('s, 'q, 'o, 'v) pgx_pool \<Rightarrow> 'q \<Rightarrow> 's \<Rightarrow> 'o res \<times> 's" where
  "DB_Get p q s = px_ScanOne p q s"

definition DB_Query :: "('s, 'q, 'o, 'v) pgx_pool \<Rightarrow> 'q \<Rightarrow> 's \<Rightarrow> 'v pgx_rows res \<times> 's" where
  "DB_Query p q s = (case px_Query p q s of (Inl e, s') \<Rightarrow> (Inl e, s') | (Inr r, s') \<Rightarrow> (Inr r, s'))"

text \<open>The command tag, with the number of rows, is dropped.\<close>

definition DB_Exec :: "('s, 'q, 'o, 'v) pgx_pool \<Rightarrow> 'q \<Rightarrow> 's \<Rightarrow> go_error option \<times> 's" where
  "DB_Exec p q s = (case px_Exec p q s of (Inl e, s') \<Rightarrow> (Some e, s') | (Inr n, s') \<Rightarrow> (None, s'))"

definition DB_Begin :: "('s, 'q, 'o, 'v) pgx_pool \<Rightarrow> 's \<Rightarrow> nat res \<times> 's" where
  "DB_Begin p s = px_Begin p s"

definition DB_Close :: "('s, 'q, 'o, 'v) pgx_pool \<Rightarrow> 's \<Rightarrow> go_error option \<times> 's" where
  "DB_Close p s = (None, px_Close p s)"

definition pgsql_DB :: "('s, 'q, 'o, 'v) pgx_pool \<Rightarrow> ('s, 'q, 'o, 'v) sql_Store" where
  "pgsql_DB p = \<lparr>so_Select = DB_Select p, so_Query = DB_Query p, so_Get = DB_Get p, so_Exec = DB_Exec p,
     so_Close = DB_Close p, so_Begin = DB_Begin p\<rparr>"

section \<open>The table behind the wrapper\<close>

datatype 'o statement = Change "db \<Rightarrow> db" | Read "db \<Rightarrow> 'o list res \<times> db"

fun change :: "'o statement \<Rightarrow> db \<Rightarrow> db" where
  "change (Change f) d = f d"
| "change (Read f) d = snd (f d)"

fun answer_of :: "'o statement \<Rightarrow> db \<Rightarrow> 'o list res" where
  "answer_of (Change f) d = Inr []"
| "answer_of (Read f) d = fst (f d)"

text \<open>The connection counts the statement, and then fails or runs it.\<close>

definition on_table :: "db \<Rightarrow> (db \<Rightarrow> 'a res \<times> db) \<Rightarrow> 'a res \<times> db" where
  "on_table d run =
     (let d1 = d\<lparr>db_calls := Suc (db_calls d)\<rparr>
      in case db_fails d (db_calls d) of Some e \<Rightarrow> (Inl e, d1) | None \<Rightarrow> run d1)"

definition table_pool :: "(db, 'o statement, 'o, 'v) pgx_pool" where
  "table_pool =
     \<lparr>px_Exec = (\<lambda>q d. on_table d (\<lambda>d1. (Inr 0, change q d1))),
      px_Query = (\<lambda>q d. on_table d (\<lambda>d1. (Inr \<lparr>rw_FieldDescriptions = [], rw_rest = []\<rparr>, change q d1))),
      px_ScanAll = (\<lambda>q d. on_table d (\<lambda>d1. (answer_of q d1, change q d1))),
      px_ScanOne = (\<lambda>q d. on_table d (\<lambda>d1.
        (and_then (answer_of q d1) (\<lambda>xs. case xs of [x] \<Rightarrow> Inr x | _ \<Rightarrow> Inl (Errorf ''rows'')), change q d1))),
      px_Begin = (\<lambda>d. on_table d (\<lambda>d1. (Inr 0, d1))), px_Close = (\<lambda>d. d)\<rparr>"

text \<open>The two operations the job store uses are the wrapper's over that connection.\<close>

lemma wrapper_Exec: "so_Exec (pgsql_DB table_pool) (Change f) d = db_Exec f d"
  by (simp add: pgsql_DB_def DB_Exec_def table_pool_def on_table_def db_Exec_def Let_def split: option.split)

lemma wrapper_Select: "so_Select (pgsql_DB table_pool) (Read f) d = db_Select f d"
  by (simp add: pgsql_DB_def DB_Select_def table_pool_def on_table_def db_Select_def Let_def split: option.split)

end
