(* ===== verification/Spec2Isabelle.thy ===== *)
theory Spec2Isabelle
  imports Wiring Wav_Writer Resolver_Watch Job_Cluster Discovery Consul_Updaters Sql_Wrapper
begin

text \<open>
  A model of \<^verbatim>\<open>webrtc_recorder\<close>, the service that records WebRTC sessions of a browser, turns
  them into mp4 files with ffmpeg and uploads them to the storage service.

  How the program works. A gRPC call (\<^verbatim>\<open>internal/handler\<close>) is authenticated by an interceptor
  (\<^verbatim>\<open>infra/grpc_srv\<close>, \<^verbatim>\<open>infra/auth\<close>) and starts a session (\<^verbatim>\<open>internal/service/webrtc.go\<close>): a peer
  connection whose callbacks (\<^verbatim>\<open>internal/service/media.go\<close>) write every track and data channel
  to a raw file (\<^verbatim>\<open>temp.go\<close>). When the last track ends, the session leaves the session store
  (\<^verbatim>\<open>internal/store/session.go\<close>) and one transcoding job is written to a table
  (\<^verbatim>\<open>internal/store/file_job.go\<close>). Two services poll that table and run their jobs on worker
  pools (\<^verbatim>\<open>job.go\<close>, \<^verbatim>\<open>transcoding.go\<close>, \<^verbatim>\<open>uploader.go\<close>, \<^verbatim>\<open>internal/utils/pool.go\<close>): a transcoding
  job becomes an upload job, an upload job ends with its row and its files removed. Around this
  core the program finds its peers through Consul (\<^verbatim>\<open>infra/resolver\<close>), announces itself there
  (\<^verbatim>\<open>infra/consul\<close>), and is configured and put together in \<^verbatim>\<open>cmd\<close>.

  Theories, with what they model and show:

    \<^item> \<^verbatim>\<open>Prelude\<close>, \<^verbatim>\<open>Go_Strings\<close>, \<^verbatim>\<open>Go_Time\<close>, \<^verbatim>\<open>Go_Url\<close>, \<^verbatim>\<open>Go_Slice\<close>: Go's errors, results, panics,
      64-bit integers, the parts of \<open>strings\<close>, \<open>strconv\<close>, \<open>path\<close>, \<open>time\<close> and \<open>net/url\<close> the program
      uses, and slices that share their backing array.
    \<^item> \<^verbatim>\<open>Model_Types\<close> (\<^verbatim>\<open>internal/model\<close>): files, channels, jobs; the JSON round trip.
    \<^item> \<^verbatim>\<open>Temp_Files\<close> (\<^verbatim>\<open>temp.go\<close>): what the file operations create and remove, over a map from
      paths to bytes.
    \<^item> \<^verbatim>\<open>Job_Interface\<close>, \<^verbatim>\<open>Job_Store\<close>: the interface \<open>FileJobStore\<close> as a locale over an abstract
      table from ids to entries, and the SQL statements, which interpret it: each statement
      refines its law and keeps the table well formed. \<^verbatim>\<open>Job_Runs\<close>: runs of statements by several
      processes refine a queue of owned jobs; a job taken is not taken again before its release.
    \<^item> \<^verbatim>\<open>Job_Handler\<close> (\<^verbatim>\<open>job.go\<close>): clean-up, retries and polling, from the laws of the interface
      alone; polling as often as there are attempts settles every job.
    \<^item> \<^verbatim>\<open>Ffmpeg\<close> (\<^verbatim>\<open>internal/utils/transcoding.go\<close>): reading durations, the video grid, the
      arguments of ffmpeg. \<^verbatim>\<open>Transcoder\<close> and \<^verbatim>\<open>Uploader\<close> (\<^verbatim>\<open>transcoding.go\<close>, \<^verbatim>\<open>uploader.go\<close>): the
      two kinds of job on every path, and that both services drain the table.
    \<^item> \<^verbatim>\<open>Worker_Pool\<close> (\<^verbatim>\<open>pool.go\<close>): a step relation over the channels; no task is lost, and an idle
      pool takes exactly as many tasks as it has workers and buffer.
    \<^item> \<^verbatim>\<open>Job_Work\<close>, \<^verbatim>\<open>Job_Services\<close>, \<^verbatim>\<open>Job_Cluster\<close>: the job services as they run. A specification
      of a service with jobs in hand; the goroutine of \<open>listen\<close>, the channel, the workers and
      the executions, step by step, refine it for every executor that keeps its contract, which
      both kinds of job do; then any number of processes over one table, with their sessions,
      crashes and restarts: a job is in one pair of hands, the services come to rest and are
      never stuck, and a lost write leaves a job behind.
    \<^item> \<^verbatim>\<open>Session_Store\<close> (\<^verbatim>\<open>internal/store/session.go\<close>): the store over a locale of the LRU cache's
      documented laws, interpreted on a list; the session theorems hold for every such cache.
    \<^item> \<^verbatim>\<open>Media_Session\<close>, \<^verbatim>\<open>Media_Tracks\<close> (\<^verbatim>\<open>media.go\<close>), \<^verbatim>\<open>Recorder\<close> (\<^verbatim>\<open>webrtc.go\<close>), \<^verbatim>\<open>Handler\<close>
      (\<^verbatim>\<open>internal/handler\<close>): sessions as interleaved events; one job for one session, what a
      close does, what goes wrong with data channels, who a recording belongs to.
    \<^item> \<^verbatim>\<open>Permissions\<close>, \<^verbatim>\<open>Auth\<close>, \<^verbatim>\<open>Grpc\<close> (\<^verbatim>\<open>infra/auth\<close>, \<^verbatim>\<open>infra/grpc_srv\<close>, \<^verbatim>\<open>infra/grpc_client\<close>,
      \<^verbatim>\<open>infra/storage\<close>): access words, license scopes, sessions of users, the interceptor.
    \<^item> \<^verbatim>\<open>Resolver\<close>, \<^verbatim>\<open>Resolver_Watch\<close> (\<^verbatim>\<open>infra/resolver\<close>), \<^verbatim>\<open>Consul\<close> (\<^verbatim>\<open>infra/consul\<close>): endpoints,
      their balancing and the goroutines that publish them, which may outlive a close;
      registration, whose recursion need not end. \<^verbatim>\<open>Discovery\<close>: a client's target through
      \<open>url.Parse\<close>, the builder and the resolver. \<^verbatim>\<open>Consul_Updaters\<close>: the updater goroutines beside
      the shutdown. \<^verbatim>\<open>Sql_Wrapper\<close> (\<^verbatim>\<open>infra/sql\<close>): the store over a connection pool.
    \<^item> \<^verbatim>\<open>Wav_Writer\<close> (\<^verbatim>\<open>wav.go\<close>): the file byte for byte.
    \<^item> \<^verbatim>\<open>Settings\<close>, \<^verbatim>\<open>Webrtc_Api\<close>, \<^verbatim>\<open>App\<close> (\<^verbatim>\<open>config\<close>, \<^verbatim>\<open>infra/webrtc\<close>, \<^verbatim>\<open>cmd\<close>): flags and defaults,
      codecs and ports, and the start-up with its clean-ups. \<^verbatim>\<open>Process\<close> (\<^verbatim>\<open>main.go\<close>, \<^verbatim>\<open>cmd.go\<close>,
      \<^verbatim>\<open>service.go\<close>): the life of a process from its command line to its exit, with signals,
      calls, clean-ups and panics as steps. \<^verbatim>\<open>Wiring\<close> (\<^verbatim>\<open>wire.go\<close>): the order the provider sets
      impose, which the start-up follows and the shutdown reverses.

  This theory holds what spans the services: a session that is closed leads, through the job
  table and both services, to the upload of its mp4 and leaves nothing behind.

  Conventions. A Go struct is a record, \<open>(T, error)\<close> a sum, a panic an \<open>outcome\<close>. State is
  passed explicitly. Calls that leave the repository (files aside) are fields of environment
  records or arguments: the answers of ffmpeg, pion, the storage stream, the authorization
  service, Consul's agent and the database connection. Goroutines that share a session or a
  pool are events of a run, cut at the points where they wait. \<open>int\<close> is unbounded with \<open>i64\<close>
  written out where it can wrap; timestamps, sequence numbers, ports and the balancer's counter
  are words.

  Bounds. There is no fuel: loops end by a measure, and \<open>updateTTLStatus\<close>, which need not end,
  is a partial function whose \<open>None\<close> is not returning. The draining theorems ask for as many
  ticks as a job has attempts and a fetch limit above the number of rows; that many are enough
  because every tick counts an attempt of every job left.

  Not modelled: generated gRPC code, mocks and tests, logging, sleeping and tickers, the SQL
  engine beyond the statements of the job store, and the command line parser. The scale factors
  of the video filters are rationals where Go has \<open>float64\<close>. \<open>url.Parse\<close> leaves out what only
  matters for printing a URL.
\<close>

section \<open>From the recording to the storage\<close>

lemma mp4_upload:
  assumes "wf_db (w_db w)" "db_healthy (w_db w)" "Track F \<noteq> []"
    and "table_view s (w_db w) (job_ID k) = Some e" and "job_File k = mp4_of tmp newid dur F"
    and "w_fs w = snd (DeleteFile F s1)"
    and "files s1 (mp4_path tmp newid) = Some content" and "\<not> deny_open s1 (mp4_path tmp newid)"
    and "mp4_path tmp newid \<notin> file_paths F"
    and "up_open up = None" "\<And>k. up_send up k = None" "\<And>k. up_read up k = None"
  shows "\<exists>cs w2. Upload_Execute (sql_ops s) m up k w =
      (Metadata (metadata_of (mp4_of tmp newid dur F)) # cs @ [CloseSend], w2) \<and>
    list_all is_chunk cs \<and> concat (List.map chunk_bytes cs) = content \<and>
    table_view s (w_db w2) = (table_view s (w_db w))(job_ID k := None) \<and>
    (\<forall>q \<in> insert (mp4_path tmp newid) (file_paths F). \<not> deny_remove s1 q \<longrightarrow> files (w_fs w2) q = None)"
proof -
  let ?f = "mp4_of tmp newid dur F" and ?p = "mp4_path tmp newid"
  have fs: "files (w_fs w) q = (if q \<in> file_paths F \<and> \<not> deny_remove s1 q then None else files s1 q)" for q
    unfolding assms(6) by (rule DeleteFile_removes [OF assms(3)])
  have "NewReader ?f (w_fs w) = Inr content"
    using assms(7-9) fs [of ?p] by (simp add: NewReader_def os_Open_def assms(6))
  from upload_file_complete [OF this assms(10-12)] obtain cs where
    cs: "upload_file up ?f (w_fs w) = (Metadata (metadata_of ?f) # cs @ [CloseSend], None)"
    "list_all is_chunk cs" "concat (List.map chunk_bytes cs) = content" by blast
  obtain sent w2 where x: "Upload_Execute (sql_ops s) m up k w = (sent, w2)" by fastforce
  note U = upload_outcome [OF assms(1,2,4) _ x, of "Metadata (metadata_of ?f) # cs @ [CloseSend]" None]
  from U cs(1) assms(5) have u: "sent = Metadata (metadata_of ?f) # cs @ [CloseSend]"
    "table_view s (w_db w2) = (table_view s (w_db w))(job_ID k := None)"
    "w_fs w2 = snd (DeleteFile ?f (w_fs w))" by simp_all
  have del: "files (w_fs w2) q = (if q \<in> file_paths ?f \<and> \<not> deny_remove s1 q then None else files (w_fs w) q)" for q
    unfolding u(3) using DeleteFile_removes [of ?f "w_fs w" q] assms(3,6) by simp
  have "?p \<noteq> []" unfolding mp4_path_def by (rule path_Join_not_Nil [of "newid @ ''.mp4''"]) simp_all
  then have paths: "file_paths ?f = insert ?p (ch_Path ` set (Track F))" by (simp add: file_paths_def)
  have "files (w_fs w2) q = None" if "q \<in> insert ?p (file_paths F)" "\<not> deny_remove s1 q" for q
  proof (cases "q \<in> file_paths ?f")
    case True
    with that(2) show ?thesis by (simp only: del simp_thms if_True)
  next
    case False
    with that have "q \<in> file_paths F" unfolding paths by blast
    with False that(2) show ?thesis by (simp only: del fs simp_thms if_True if_False)
  qed
  with x u(1,2) cs(2,3) show ?thesis by blast
qed


text \<open>A finished session with one recorded track, on an empty table.\<close>

definition recorded_session :: session where
  "recorded_session = NewWebRtcUploadSession ''s1'' 0 sample_File"

definition recorded_world :: "(db, (string \<times> nat) list) rec_world" where
  "recorded_world = demo_world\<lparr>rw_db := empty_db,
     rw_fs := \<lparr>files = [''/t/a.raw'' \<mapsto> [1]], deny_open = (\<lambda>_. False), deny_remove = (\<lambda>_. False)\<rparr>\<rparr>"


text \<open>
  When ffmpeg produced an mp4 for a recording and the storage accepts everything, a
  transcoding job followed by the upload job it turns into sends exactly the metadata and the
  bytes of that mp4, ends with the half-close, leaves every other job of the table as it was
  and no row for this one, and removes the mp4 and all raw files that can be removed.
\<close>

theorem recording_is_delivered:
  assumes "wf_db (w_db w)" "db_healthy (w_db w)" "wf_File (job_File j)" "Track (job_File j) \<noteq> []"
    and "table_view s (w_db w) (job_ID j) = Some e"
    and "TranscodingByPath env (Track (job_File j)) (mp4_path tmp newid)
      (i64 (EndTime (job_File j) - StartTime (job_File j))) (w_fs w) = (Inr dur, s1)"
    and "files s1 (mp4_path tmp newid) = Some content" and "\<not> deny_open s1 (mp4_path tmp newid)"
    and "mp4_path tmp newid \<notin> file_paths (job_File j)"
    and "up_open up = None" "\<And>k. up_send up k = None" "\<And>k. up_read up k = None"
    and "w1 = Transcode_Execute (sql_ops s) tmp env newid m j w"
    and "table_view s (w_db w1) (job_ID j) = Some e1"
    and "Upload_Execute (sql_ops s) m' up ((e_job e1)\<lparr>job_Retry := job_Retry (e_job e1) + 1\<rparr>) w1 = (sent, w2)"
  shows "e_state e1 = JobIdle \<and> job_Type (e_job e1) = UploadJobName \<and>
    (\<exists>cs. sent = Metadata (metadata_of (mp4_of tmp newid dur (job_File j))) # cs @ [CloseSend] \<and>
      list_all is_chunk cs \<and> concat (List.map chunk_bytes cs) = content) \<and>
    table_view s (w_db w2) = (table_view s (w_db w))(job_ID j := None) \<and>
    (\<forall>q \<in> insert (mp4_path tmp newid) (file_paths (job_File j)).
      \<not> deny_remove s1 q \<longrightarrow> files (w_fs w2) q = None)"
proof -
  let ?f = "mp4_of tmp newid dur (job_File j)"
  note H = hand_over_law [OF assms(1-3,5,4,6,13)]
  from H assms(14) have e1: "e1 = e\<lparr>e_state := JobIdle, e_job := j\<lparr>job_File := ?f,
      job_Type := UploadJobName, job_Retry := 0\<rparr>\<rparr>" by simp
  let ?k = "(e_job e1)\<lparr>job_Retry := job_Retry (e_job e1) + 1\<rparr>"
  have k: "job_File ?k = ?f" "job_ID ?k = job_ID j" by (simp_all add: e1)
  have v: "table_view s (w_db w1) (job_ID ?k) = Some e1" using assms(14) by (simp only: k)
  from H have w1: "wf_db (w_db w1)" "db_healthy (w_db w1)" "w_fs w1 = snd (DeleteFile (job_File j) s1)"
    "(table_view s (w_db w1))(job_ID j := None) = (table_view s (w_db w))(job_ID j := None)" by simp_all
  from mp4_upload [OF w1(1,2) assms(4) v k(1) w1(3) assms(7-12), of m'] assms(15) w1(4)
  show ?thesis unfolding k(2) by (auto simp: e1)
qed

theorem recording_is_delivered_witness:
  "\<exists>e1 cs sent w2. (let w1 = Transcode_Execute (sql_ops \<lparr>instance_id = ''n1''\<rparr>) \<lparr>dir = ''/tmp''\<rparr> good_ffmpeg ''x'' 3
        (sample_job TranscodingJobName) (sample_world TranscodingJobName)
     in table_view \<lparr>instance_id = ''n1''\<rparr> (w_db w1) 1 = Some e1 \<and>
        Upload_Execute (sql_ops \<lparr>instance_id = ''n1''\<rparr>) 3 good_upload
          ((e_job e1)\<lparr>job_Retry := job_Retry (e_job e1) + 1\<rparr>) w1 = (sent, w2) \<and>
        concat (List.map chunk_bytes cs) = [9] \<and> sent = hd sent # cs @ [CloseSend] \<and>
        table_view \<lparr>instance_id = ''n1''\<rparr> (w_db w2) = Map.empty)"
proof -
  let ?w = "sample_world TranscodingJobName" and ?j = "sample_job TranscodingJobName"
  let ?s = "\<lparr>instance_id = ''n1''\<rparr>" and ?tmp = "\<lparr>dir = ''/tmp''\<rparr>" and ?mp4 = "mp4_path \<lparr>dir = ''/tmp''\<rparr> ''x''"
  let ?w1 = "Transcode_Execute (sql_ops ?s) ?tmp good_ffmpeg ''x'' 3 ?j ?w"
  have j: "job_ID ?j = 1" "job_File ?j = sample_File" by (simp_all add: sample_job_def)
  have tr: "Track (job_File ?j) \<noteq> []" by (simp add: j sample_File_def)
  have wf: "wf_File (job_File ?j)" by (simp add: j)
  have v: "table_view ?s (w_db ?w) (job_ID ?j) = Some \<lparr>e_state = JobIdle, e_mine = True, e_job = ?j\<rparr>"
    by (simp add: j)
  let ?s1 = "(w_fs ?w)\<lparr>files := (files (w_fs ?w))(?mp4 \<mapsto> [9])\<rparr>"
  have r: "TranscodingByPath good_ffmpeg (Track (job_File ?j)) ?mp4
      (i64 (EndTime (job_File ?j) - StartTime (job_File ?j))) (w_fs ?w) = (Inr 0, ?s1)"
    using TranscodingByPath_sample [of ?mp4 good_ffmpeg
        "i64 (EndTime (job_File ?j) - StartTime (job_File ?j))" "w_fs ?w"]
    by (auto simp: good_ffmpeg_def parse_no_progress j)
  have f: "files ?s1 ?mp4 = Some [9]" "\<not> deny_open ?s1 ?mp4" by (simp_all add: sample_world_def)
  have p: "?mp4 \<notin> file_paths (job_File ?j)"
    by (simp add: j file_paths_def sample_File_def mp4_path_def path_Join_def path_Clean_def Let_def)
  have up: "up_open good_upload = None" "\<And>k. up_send good_upload k = None" "\<And>k. up_read good_upload k = None"
    by (simp_all add: good_upload_def)
  from hand_over_law [OF sample_world(1,2) wf v tr r refl, of 3]
  obtain e1 where e1: "table_view ?s (w_db ?w1) (job_ID ?j) = Some e1" by simp
  obtain sent w2 where u: "Upload_Execute (sql_ops ?s) 3 good_upload
      ((e_job e1)\<lparr>job_Retry := job_Retry (e_job e1) + 1\<rparr>) ?w1 = (sent, w2)" by fastforce
  from recording_is_delivered [OF sample_world(1,2) wf tr v r f p up refl e1 u] obtain cs where
    cs: "sent = Metadata (metadata_of (mp4_of ?tmp ''x'' 0 (job_File ?j))) # cs @ [CloseSend]"
    "concat (List.map chunk_bytes cs) = [9]"
    "table_view ?s (w_db w2) = (table_view ?s (w_db ?w))(job_ID ?j := None)" by blast
  have "table_view ?s (w_db w2) = Map.empty" unfolding cs(3) by (simp add: j)
  moreover have "sent = hd sent # cs @ [CloseSend]" unfolding cs(1) by simp
  ultimately show ?thesis using e1 u cs(2) unfolding j(1) Let_def by (intro exI conjI) assumption+
qed

end
